(* ===== verification/Prelude.thy ===== *)
theory Prelude
  imports Main "HOL-Library.Word"
begin

text \<open>
  Shared vocabulary of the development: Rust's fixed-width integers, panics as values of a sum
  type, the arithmetic of a build with overflow checks (the kernel is built with the development
  profile, see the Makefile), the page constants of \<^verbatim>\<open>libkernel/src/consts.rs\<close>, the contract of a
  bounded first-in first-out queue that several components implement, and the list and word facts
  the components share.
\<close>

unbundle bit_operations_syntax

named_theorems const_defs "definitions of the constants of the source"

subsection \<open>Machine integers\<close>

type_synonym u8 = "8 word"
type_synonym u16 = "16 word"
type_synonym u32 = "32 word"
type_synonym u64 = "64 word"

text \<open>
  A panic ends the operation: a failed assertion, an arithmetic overflow, an index out of range, a
  call of \<^verbatim>\<open>panic!\<close> or \<^verbatim>\<open>unreachable!\<close>,
  or an unwrapped \<^verbatim>\<open>None\<close>. Fallible code returns \<open>Inl\<close> of it.
\<close>

datatype panic = ArithOverflow | AssertFailed | IndexOutOfBounds | UnwrapNone | ExplicitPanic

type_synonym 'a res = "panic + 'a"

definition bind_res :: "'a res \<Rightarrow> ('a \<Rightarrow> 'b res) \<Rightarrow> 'b res" where
  "bind_res r f = (case r of Inl p \<Rightarrow> Inl p | Inr x \<Rightarrow> f x)"

lemma bind_res_simps [simp]:
  "bind_res (Inl p) f = Inl p"
  "bind_res (Inr x) f = f x"
  by (simp_all add: bind_res_def)

lemma bind_res_eq_Inr [simp]:
  "bind_res r f = Inr y \<longleftrightarrow> (\<exists>x. r = Inr x \<and> f x = Inr y)"
  by (simp add: bind_res_def split: sum.splits)

text \<open>The operation returns, and its result satisfies the predicate.\<close>

definition run_res :: "'a res \<Rightarrow> ('a \<Rightarrow> bool) \<Rightarrow> bool" where
  "run_res r P \<longleftrightarrow> (case r of Inl _ \<Rightarrow> False | Inr x \<Rightarrow> P x)"

lemma run_res_iff: "run_res r P \<longleftrightarrow> (\<exists>x. r = Inr x \<and> P x)"
  by (simp add: run_res_def split: sum.splits)

text \<open>
  Addresses and sizes whose arithmetic only ever panics on overflow (never wraps) are natural
  numbers below \<open>2 ^ 64\<close>, with the overflow check written out.
\<close>

definition add_u64 :: "nat \<Rightarrow> nat \<Rightarrow> nat res" where
  "add_u64 a b = (if a + b < 2 ^ 64 then Inr (a + b) else Inl ArithOverflow)"

definition mul_u64 :: "nat \<Rightarrow> nat \<Rightarrow> nat res" where
  "mul_u64 a b = (if a * b < 2 ^ 64 then Inr (a * b) else Inl ArithOverflow)"

definition sub_u64 :: "nat \<Rightarrow> nat \<Rightarrow> nat res" where
  "sub_u64 a b = (if b \<le> a then Inr (a - b) else Inl ArithOverflow)"

lemma add_u64_eq_Inr [simp]: "add_u64 a b = Inr c \<longleftrightarrow> c = a + b \<and> a + b < 2 ^ 64"
  by (auto simp: add_u64_def)

lemma mul_u64_eq_Inr [simp]: "mul_u64 a b = Inr c \<longleftrightarrow> c = a * b \<and> a * b < 2 ^ 64"
  by (auto simp: mul_u64_def)

lemma sub_u64_eq_Inr [simp]: "sub_u64 a b = Inr c \<longleftrightarrow> c = a - b \<and> b \<le> a"
  by (auto simp: sub_u64_def)

lemma add_u64_ok: "a + b < 2 ^ 64 \<Longrightarrow> add_u64 a b = Inr (a + b)"
  by simp

lemma mul_u64_ok: "a * b < 2 ^ 64 \<Longrightarrow> mul_u64 a b = Inr (a * b)"
  by simp

lemma sub_u64_ok: "b \<le> a \<Longrightarrow> sub_u64 a b = Inr (a - b)"
  by simp

subsection \<open>Kernel constants\<close>

definition PAGE_SIZE :: nat where
  [const_defs]: "PAGE_SIZE = 0x1000"

definition PAGE_MASK :: nat where
  [const_defs]: "PAGE_MASK = 0xFFF"

definition KERNEL_STACK_SIZE :: nat where
  [const_defs]: "KERNEL_STACK_SIZE = 64 * 1024"

definition STACK_ARENA_BASE :: nat where
  [const_defs]: "STACK_ARENA_BASE = 0xFFFF800000100000"

definition STACK_ARENA_CAPACITY :: nat where
  [const_defs]: "STACK_ARENA_CAPACITY = 16"

subsection \<open>Powers of two\<close>

text \<open>Rust's \<^verbatim>\<open>u32::is_power_of_two\<close>: the value is \<open>2 ^ k\<close> for some \<open>k < 32\<close>.\<close>

definition is_power_of_two :: "u32 \<Rightarrow> bool" where
  "is_power_of_two w \<longleftrightarrow> list_ex (\<lambda>k. unat w = 2 ^ k) [0..<32]"

text \<open>Rust's \<^verbatim>\<open>u32::next_power_of_two\<close>: the least power of two not below the value; it panics
  when that is not a \<^verbatim>\<open>u32\<close>.\<close>

definition next_power_of_two :: "nat \<Rightarrow> nat res" where
  "next_power_of_two n =
     (case List.find (\<lambda>k. n \<le> 2 ^ k) [0..<32] of None \<Rightarrow> Inl ArithOverflow | Some k \<Rightarrow> Inr (2 ^ k))"

lemma is_power_of_two_iff: "is_power_of_two w \<longleftrightarrow> (\<exists>k<32. unat w = 2 ^ k)"
  by (auto simp: is_power_of_two_def list_ex_iff)

lemma and_pow2_minus_1:
  fixes w n :: u32
  assumes "unat n = 2 ^ k" and "k < 32"
  shows "unat (w AND (n - 1)) = unat w mod unat n"
proof -
  have n: "n = 2 ^ k"
  proof -
    have "n = of_nat (unat n)" by simp
    also have "\<dots> = 2 ^ k" by (simp only: assms(1)) simp
    finally show ?thesis .
  qed
  have "w AND (n - 1) = take_bit k w"
    by (simp add: n take_bit_eq_mask mask_eq_exp_minus_1)
  then have "unat (w AND (n - 1)) = unat (take_bit k w)" by (rule arg_cong)
  also have "\<dots> = take_bit k (unat w)" by (rule unsigned_take_bit_eq)
  also have "\<dots> = unat w mod unat n" by (simp only: take_bit_eq_mod assms(1))
  finally show ?thesis .
qed

subsection \<open>Bits\<close>

text \<open>Rust's \<^verbatim>\<open>trailing_zeros\<close>: the index of the lowest set bit, the width when there is none.\<close>

definition trailing_zeros :: "'a::len word \<Rightarrow> nat" where
  "trailing_zeros w = (case List.find (bit w) [0..<LENGTH('a)] of None \<Rightarrow> LENGTH('a) | Some i \<Rightarrow> i)"

lemma trailing_zeros_bit:
  fixes w :: "'a::len word"
  assumes "w \<noteq> 0"
  shows "bit w (trailing_zeros w)" and "trailing_zeros w < LENGTH('a)"
    and "\<And>j. j < trailing_zeros w \<Longrightarrow> \<not> bit w j"
proof -
  obtain j where "bit w j" using assms by (metis bit_eqI bit_0_eq bot_apply bot_bool_def)
  moreover from this have "j < LENGTH('a)" by (rule bit_imp_le_length)
  ultimately obtain i where i: "List.find (bit w) [0..<LENGTH('a)] = Some i"
    by (cases "List.find (bit w) [0..<LENGTH('a)]") (auto simp: find_None_iff)
  then have f: "i < LENGTH('a)" "bit w i" "\<forall>j<i. \<not> bit w j"
    by (auto simp: find_Some_iff)
  then show "bit w (trailing_zeros w)" "trailing_zeros w < LENGTH('a)"
    and "\<And>j. j < trailing_zeros w \<Longrightarrow> \<not> bit w j"
    by (simp_all add: trailing_zeros_def i)
qed

definition set_bit_at :: "nat \<Rightarrow> 'a::len word \<Rightarrow> 'a word" where
  "set_bit_at i w = w OR push_bit i 1"

definition clear_bit_at :: "nat \<Rightarrow> 'a::len word \<Rightarrow> 'a word" where
  "clear_bit_at i w = w AND NOT (push_bit i 1)"

lemma bit_set_bit_at [simp]:
  "bit (set_bit_at i w) j \<longleftrightarrow> bit w j \<or> (j = i \<and> i < LENGTH('a))" for w :: "'a::len word"
  by (auto simp: set_bit_at_def bit_or_iff bit_exp_iff possible_bit_word dest: bit_imp_le_length)

lemma bit_clear_bit_at [simp]:
  "bit (clear_bit_at i w) j \<longleftrightarrow> bit w j \<and> j \<noteq> i" for w :: "'a::len word"
  by (auto simp: clear_bit_at_def bit_and_iff bit_not_iff bit_exp_iff possible_bit_word
      dest: bit_imp_le_length)

subsection \<open>Lists\<close>

lemma nth_list_update_if: "xs[i := v] ! j = (if i = j \<and> i < length xs then v else xs ! j)"
  by (cases "i < length xs") (simp_all add: nth_list_update list_update_beyond)

end
