(* ===== verification/Bounded_Fifo.thy ===== *)
theory Bounded_Fifo
  imports Prelude
begin

text \<open>
  The contract of a bounded first-in first-out queue. The kernel has several of them with
  different representations: the shared-memory ring of \<^verbatim>\<open>completion-port/src/ring.rs\<close>, the queue of a
  completion port, the scancode and mouse-event buffers of an IRQ handle. Each interprets this
  locale on its own operations; what a client may rely on (order, no loss below capacity, no
  duplication) is proved once here.
\<close>

datatype 'a fifo_op = Enq 'a | Deq

text \<open>
  Running a list of operations: the values dequeued, in order, and the final queue. The abstract
  run is over a plain list with a capacity.
\<close>

fun fifo_run :: "('a \<Rightarrow> 'q \<Rightarrow> 'q) \<Rightarrow> ('q \<Rightarrow> 'a option \<times> 'q) \<Rightarrow> 'a fifo_op list \<Rightarrow> 'q \<Rightarrow> 'a list \<times> 'q" where
  "fifo_run enq deq [] q = ([], q)"
| "fifo_run enq deq (Enq x # ops) q = fifo_run enq deq ops (enq x q)"
| "fifo_run enq deq (Deq # ops) q =
     (case deq q of
        (None, q') \<Rightarrow> fifo_run enq deq ops q'
      | (Some y, q') \<Rightarrow> (case fifo_run enq deq ops q' of (ys, q'') \<Rightarrow> (y # ys, q'')))"

definition list_enq :: "nat \<Rightarrow> 'a \<Rightarrow> 'a list \<Rightarrow> 'a list" where
  "list_enq c x xs = (if length xs < c then xs @ [x] else xs)"

definition list_deq :: "'a list \<Rightarrow> 'a option \<times> 'a list" where
  "list_deq xs = (case xs of [] \<Rightarrow> (None, []) | y # ys \<Rightarrow> (Some y, ys))"

lemma list_deq_simps [simp]:
  "list_deq [] = (None, [])"
  "list_deq (y # ys) = (Some y, ys)"
  by (simp_all add: list_deq_def)

text \<open>The values that a run of the abstract queue accepts.\<close>

fun accepted :: "nat \<Rightarrow> 'a fifo_op list \<Rightarrow> 'a list \<Rightarrow> 'a list" where
  "accepted c [] xs = []"
| "accepted c (Enq x # ops) xs =
     (if length xs < c then x # accepted c ops (xs @ [x]) else accepted c ops xs)"
| "accepted c (Deq # ops) xs = accepted c ops (snd (list_deq xs))"

lemma list_run_conserves:
  "fifo_run (list_enq c) list_deq ops xs = (outs, ys) \<Longrightarrow> xs @ accepted c ops xs = outs @ ys"
proof (induction ops arbitrary: xs outs)
  case Nil
  then show ?case by simp
next
  case (Cons a ops)
  then show ?case
  proof (cases a)
    case (Enq x)
    with Cons.prems have "fifo_run (list_enq c) list_deq ops (list_enq c x xs) = (outs, ys)"
      by simp
    from Cons.IH [OF this] Enq show ?thesis by (simp add: list_enq_def split: if_splits)
  next
    case Deq
    show ?thesis
    proof (cases xs)
      case Nil
      with Cons.IH [of "[]" outs] Cons.prems Deq show ?thesis by simp
    next
      case xs: (Cons z zs)
      with Cons.prems Deq obtain os where
        "fifo_run (list_enq c) list_deq ops zs = (os, ys)" and "outs = z # os"
        by (auto split: prod.splits)
      with Cons.IH [of zs os] xs Deq show ?thesis by simp
    qed
  qed
qed

locale bounded_fifo =
  fixes inv :: "'q \<Rightarrow> bool"
    and contents :: "'q \<Rightarrow> 'a list"
    and cap :: "'q \<Rightarrow> nat"
    and enq :: "'a \<Rightarrow> 'q \<Rightarrow> 'q"
    and deq :: "'q \<Rightarrow> 'a option \<times> 'q"
  assumes bounded: "inv q \<Longrightarrow> length (contents q) \<le> cap q"
    and contents_enq: "inv q \<Longrightarrow> contents (enq x q) = list_enq (cap q) x (contents q)"
    and deq_result: "inv q \<Longrightarrow> fst (deq q) = fst (list_deq (contents q))"
    and contents_deq: "inv q \<Longrightarrow> contents (snd (deq q)) = snd (list_deq (contents q))"
    and inv_enq: "inv q \<Longrightarrow> inv (enq x q)"
    and inv_deq: "inv q \<Longrightarrow> inv (snd (deq q))"
    and cap_enq: "inv q \<Longrightarrow> cap (enq x q) = cap q"
    and cap_deq: "inv q \<Longrightarrow> cap (snd (deq q)) = cap q"
begin

lemma run_refines:
  assumes "inv q"
  shows "fst (fifo_run enq deq ops q) = fst (fifo_run (list_enq (cap q)) list_deq ops (contents q))
       \<and> contents (snd (fifo_run enq deq ops q)) =
           snd (fifo_run (list_enq (cap q)) list_deq ops (contents q))
       \<and> inv (snd (fifo_run enq deq ops q))
       \<and> cap (snd (fifo_run enq deq ops q)) = cap q"
  using assms
proof (induction ops arbitrary: q)
  case Nil
  then show ?case by simp
next
  case (Cons a ops)
  show ?case
  proof (cases a)
    case (Enq x)
    with Cons.IH [OF inv_enq [OF Cons.prems, of x]] show ?thesis
      by (simp add: contents_enq [OF Cons.prems] cap_enq [OF Cons.prems])
  next
    case Deq
    obtain r q' where d: "deq q = (r, q')" by fastforce
    obtain s xs where l: "list_deq (contents q) = (s, xs)" by fastforce
    have "r = s" and "contents q' = xs" and "inv q'" and "cap q' = cap q"
      using deq_result [OF Cons.prems] contents_deq [OF Cons.prems]
        inv_deq [OF Cons.prems] cap_deq [OF Cons.prems] d l by simp_all
    with Cons.IH [of q'] Deq d l show ?thesis
      by (auto split: option.splits prod.splits)
  qed
qed

lemma run_conserves:
  assumes "inv q"
  shows "contents q @ accepted (cap q) ops (contents q) =
           fst (fifo_run enq deq ops q) @ contents (snd (fifo_run enq deq ops q))"
  using run_refines [OF assms, of ops] list_run_conserves [of "cap q" ops "contents q"]
  by (metis prod.collapse)

lemma deq_enq_empty:
  "inv q \<Longrightarrow> contents q = [] \<Longrightarrow> 0 < cap q \<Longrightarrow> fst (deq (enq x q)) = Some x"
  by (simp add: deq_result inv_enq contents_enq list_enq_def list_deq_def)

end

end
