(* ===== verification/Spsc_Ring.thy ===== *)
theory Spsc_Ring
  imports Bounded_Fifo
begin

text \<open>
  The single-producer single-consumer ring of \<^verbatim>\<open>completion-port/src/ring.rs\<close> and the wire types of
  \<^verbatim>\<open>completion-port/src/types.rs\<close>. Head and tail are free-running 32-bit counters that wrap around;
  an entry lives in slot \<open>index AND (entry_count - 1)\<close>. The ring implements the bounded queue
  contract for every value of the counters, wrapped or not, and the interleaved protocol (each
  load and store of \<^verbatim>\<open>push\<close> and \<^verbatim>\<open>pop\<close> a step of its own) delivers what was sent, in order.
\<close>

subsection \<open>Wire types\<close>

record IoSubmission =
  sub_user_data :: u64
  sub_opcode :: u32
  sub_flags :: u32
  sub_fd :: int
  sub_pad :: int
  sub_buf_addr :: nat
  sub_buf_len :: nat
  sub_offset :: u32
  sub_timeout_ns :: nat

definition default_IoSubmission :: IoSubmission where
  "default_IoSubmission =
     \<lparr>sub_user_data = 0, sub_opcode = 0, sub_flags = 0, sub_fd = -1, sub_pad = 0,
      sub_buf_addr = 0, sub_buf_len = 0, sub_offset = 0, sub_timeout_ns = 0\<rparr>"

record IoCompletion =
  cqe_user_data :: u64
  cqe_result :: int
  cqe_flags :: u32
  cqe_opcode :: u32

record RingHeader =
  hdr_head :: u32
  hdr_tail :: u32
  hdr_mask :: u32
  hdr_flags :: u32

definition RING_ENTRIES_OFFSET :: nat where
  [const_defs]: "RING_ENTRIES_OFFSET = 64"

definition MAX_SQ_ENTRIES :: nat where
  [const_defs]: "MAX_SQ_ENTRIES = 64"

definition MAX_CQ_ENTRIES :: nat where
  [const_defs]: "MAX_CQ_ENTRIES = 128"

definition sizeof_IoSubmission :: nat where
  [const_defs]: "sizeof_IoSubmission = 48"

definition sizeof_IoCompletion :: nat where
  [const_defs]: "sizeof_IoCompletion = 24"

subsection \<open>The ring\<close>

text \<open>The view \<^verbatim>\<open>SpscRing\<close> together with the memory it points at: the header and the entries.\<close>

record 'a SpscRing =
  header :: RingHeader
  entry_count :: u32
  entries :: "'a list"

definition from_raw_parts :: "RingHeader \<Rightarrow> 'a list \<Rightarrow> u32 \<Rightarrow> 'a SpscRing res" where
  "from_raw_parts hdr mem n =
     (if is_power_of_two n then Inr \<lparr>header = hdr, entry_count = n, entries = mem\<rparr>
      else Inl AssertFailed)"

definition init_header :: "'a SpscRing \<Rightarrow> 'a SpscRing" where
  "init_header r =
     r\<lparr>header := \<lparr>hdr_head = 0, hdr_tail = 0, hdr_mask = entry_count r - 1, hdr_flags = 0\<rparr>\<rparr>"

definition head :: "'a SpscRing \<Rightarrow> u32" where
  "head r = hdr_head (header r)"

definition tail :: "'a SpscRing \<Rightarrow> u32" where
  "tail r = hdr_tail (header r)"

definition set_head :: "u32 \<Rightarrow> 'a SpscRing \<Rightarrow> 'a SpscRing" where
  "set_head v r = r\<lparr>header := (header r)\<lparr>hdr_head := v\<rparr>\<rparr>"

definition set_tail :: "u32 \<Rightarrow> 'a SpscRing \<Rightarrow> 'a SpscRing" where
  "set_tail v r = r\<lparr>header := (header r)\<lparr>hdr_tail := v\<rparr>\<rparr>"

definition ring_slot :: "'a SpscRing \<Rightarrow> u32 \<Rightarrow> nat" where
  "ring_slot r index = unat (index AND (entry_count r - 1))"

text \<open>The byte offset of a slot, for entries of a given size.\<close>

definition entry_offset :: "nat \<Rightarrow> nat \<Rightarrow> nat" where
  "entry_offset esize slot = RING_ENTRIES_OFFSET + slot * esize"

definition read_entry :: "'a SpscRing \<Rightarrow> u32 \<Rightarrow> 'a" where
  "read_entry r index = entries r ! ring_slot r index"

definition write_entry :: "u32 \<Rightarrow> 'a \<Rightarrow> 'a SpscRing \<Rightarrow> 'a SpscRing" where
  "write_entry index e r = r\<lparr>entries := (entries r)[ring_slot r index := e]\<rparr>"

definition push :: "'a \<Rightarrow> 'a SpscRing \<Rightarrow> bool \<times> 'a SpscRing" where
  "push e r =
     (let hd = head r; tl = tail r
      in if entry_count r \<le> tl - hd then (False, r)
         else (True, set_tail (tl + 1) (write_entry tl e r)))"

definition pop :: "'a SpscRing \<Rightarrow> 'a option \<times> 'a SpscRing" where
  "pop r =
     (let tl = tail r; hd = head r
      in if hd = tl then (None, r)
         else (Some (read_entry r hd), set_head (hd + 1) r))"

definition ring_len :: "'a SpscRing \<Rightarrow> u32" where
  "ring_len r = tail r - head r"

definition ring_available :: "'a SpscRing \<Rightarrow> u32 res" where
  "ring_available r =
     (if ring_len r \<le> entry_count r then Inr (entry_count r - ring_len r) else Inl ArithOverflow)"

subsection \<open>Invariant and contents\<close>

definition ring_inv :: "'a SpscRing \<Rightarrow> bool" where
  "ring_inv r \<longleftrightarrow> is_power_of_two (entry_count r) \<and> length (entries r) = unat (entry_count r)
     \<and> ring_len r \<le> entry_count r"

definition ring_contents :: "'a SpscRing \<Rightarrow> 'a list" where
  "ring_contents r = map (\<lambda>i. read_entry r (head r + of_nat i)) [0..<unat (ring_len r)]"

lemma ring_update_simps [simp]:
  "head (set_tail v r) = head r" "tail (set_tail v r) = v"
  "head (set_head v r) = v" "tail (set_head v r) = tail r"
  "entry_count (set_tail v r) = entry_count r" "entry_count (set_head v r) = entry_count r"
  "entries (set_tail v r) = entries r" "entries (set_head v r) = entries r"
  "head (write_entry i e r) = head r" "tail (write_entry i e r) = tail r"
  "entry_count (write_entry i e r) = entry_count r"
  "ring_slot (set_tail v r) j = ring_slot r j" "ring_slot (set_head v r) j = ring_slot r j"
  "ring_slot (write_entry i e r) j = ring_slot r j"
  "entries (write_entry i e r) = (entries r)[ring_slot r i := e]"
  by (simp_all add: head_def tail_def set_head_def set_tail_def write_entry_def ring_slot_def)

lemma ring_slot_mod:
  "is_power_of_two (entry_count r) \<Longrightarrow> ring_slot r i = unat i mod unat (entry_count r)"
  by (auto simp: ring_slot_def is_power_of_two_iff intro: and_pow2_minus_1)

lemma ring_slot_bound:
  assumes "is_power_of_two (entry_count r)"
  shows "ring_slot r i < unat (entry_count r)"
proof -
  have "0 < unat (entry_count r)" using assms by (auto simp: is_power_of_two_iff)
  then show ?thesis by (simp add: ring_slot_mod [OF assms])
qed

text \<open>Two indices less than a ring length apart never share a slot: the power of two divides
  \<open>2 ^ 32\<close>, so the counters may wrap.\<close>

lemma ring_slot_add:
  assumes p: "is_power_of_two (entry_count r)"
  shows "ring_slot r (h + of_nat i) = (unat h + i) mod unat (entry_count r)"
proof -
  obtain k where k: "k < 32" "unat (entry_count r) = 2 ^ k"
    using p by (auto simp: is_power_of_two_iff)
  have "(2::nat) ^ 32 = 2 ^ k * 2 ^ (32 - k)" using k(1) by (simp flip: power_add)
  then have dvd: "(2::nat) ^ k dvd 2 ^ 32" by (metis dvd_triv_left)
  have "unat (h + of_nat i) = (unat h + i) mod 2 ^ 32"
    by (simp add: unat_word_ariths unat_of_nat mod_simps)
  then show ?thesis
    using dvd by (simp add: ring_slot_mod [OF p] k(2) mod_mod_cancel)
qed

lemma add_mod_inj:
  fixes a i j n :: nat
  assumes "(a + i) mod n = (a + j) mod n" and "i < n" and "j < n"
  shows "i = j"
proof (rule ccontr)
  assume "i \<noteq> j"
  then consider "i < j" | "j < i" by linarith
  then show False
  proof cases
    case 1
    then have "n dvd (a + j) - (a + i)" using assms(1) by (metis add_le_mono1 add.commute less_imp_le mod_eq_dvd_iff_nat)
    with 1 assms(3) show False by (auto dest: dvd_imp_le)
  next
    case 2
    then have "n dvd (a + i) - (a + j)" using assms(1) by (metis add_le_mono1 add.commute less_imp_le mod_eq_dvd_iff_nat)
    with 2 assms(2) show False by (auto dest: dvd_imp_le)
  qed
qed

lemma ring_slot_inj:
  assumes "is_power_of_two (entry_count r)" and "i < unat (entry_count r)"
    and "j < unat (entry_count r)"
  shows "ring_slot r (h + of_nat i) = ring_slot r (h + of_nat j) \<longleftrightarrow> i = j"
  using add_mod_inj [of "unat h" i "unat (entry_count r)" j] assms
  by (auto simp: ring_slot_add [OF assms(1)])

subsection \<open>The ring is a bounded queue\<close>

definition push_fifo :: "'a \<Rightarrow> 'a SpscRing \<Rightarrow> 'a SpscRing" where
  "push_fifo e r = snd (push e r)"

lemma ring_len_bound: "ring_inv r \<Longrightarrow> unat (ring_len r) \<le> unat (entry_count r)"
  by (simp add: ring_inv_def word_le_nat_alt)

lemma length_ring_contents [simp]: "length (ring_contents r) = unat (ring_len r)"
  by (simp add: ring_contents_def)

lemma push_full_iff:
  "fst (push e r) \<longleftrightarrow> unat (ring_len r) < unat (entry_count r)"
  by (auto simp: push_def Let_def ring_len_def word_le_nat_alt)

lemma unat_succ_no_wrap:
  fixes w n :: u32
  assumes "unat w < unat n"
  shows "unat (w + 1) = Suc (unat w)"
proof -
  have "unat n < 2 ^ 32" using unsigned_less [of n] by simp
  with assms show ?thesis by (simp add: unat_word_ariths)
qed

lemma push_contents:
  assumes inv: "ring_inv r" and room: "unat (ring_len r) < unat (entry_count r)"
  shows "ring_contents (snd (push e r)) = ring_contents r @ [e]" and "ring_inv (snd (push e r))"
proof -
  let ?r = "set_tail (tail r + 1) (write_entry (tail r) e r)"
  have p: "is_power_of_two (entry_count r)" and len: "length (entries r) = unat (entry_count r)"
    using inv by (auto simp: ring_inv_def)
  have push: "snd (push e r) = ?r"
    using room by (simp add: push_def Let_def ring_len_def word_le_nat_alt)
  have "tail r + 1 - head r = ring_len r + 1" by (simp add: ring_len_def algebra_simps)
  then have rl: "ring_len ?r = ring_len r + 1" by (simp add: ring_len_def)
  then have n: "unat (ring_len ?r) = Suc (unat (ring_len r))"
    using unat_succ_no_wrap [OF room] by simp
  have tl: "tail r = head r + of_nat (unat (ring_len r))" by (simp add: ring_len_def)
  have old: "read_entry ?r (head r + of_nat i) = read_entry r (head r + of_nat i)"
    if "i < unat (ring_len r)" for i
    using ring_slot_inj [OF p, of i "unat (ring_len r)" "head r"] that room tl
    by (simp add: read_entry_def)
  have new: "read_entry ?r (head r + of_nat (unat (ring_len r))) = e"
    using ring_slot_bound [OF p] len tl by (simp add: read_entry_def)
  show "ring_contents (snd (push e r)) = ring_contents r @ [e]"
    unfolding push using old new by (simp add: ring_contents_def n)
  show "ring_inv (snd (push e r))"
    unfolding push using p len n room by (simp add: ring_inv_def word_le_nat_alt)
qed

lemma push_full:
  "\<not> unat (ring_len r) < unat (entry_count r) \<Longrightarrow> push e r = (False, r)"
  by (simp add: push_def Let_def ring_len_def word_le_nat_alt)

lemma pop_contents:
  assumes inv: "ring_inv r"
  shows "fst (pop r) = fst (list_deq (ring_contents r))"
    and "ring_contents (snd (pop r)) = snd (list_deq (ring_contents r))"
    and "ring_inv (snd (pop r))"
proof -
  have "fst (pop r) = fst (list_deq (ring_contents r)) \<and>
        ring_contents (snd (pop r)) = snd (list_deq (ring_contents r)) \<and> ring_inv (snd (pop r))"
  proof (cases "head r = tail r")
    case True
    then have "ring_contents r = []" by (simp add: ring_contents_def ring_len_def)
    with True inv show ?thesis by (simp add: pop_def Let_def)
  next
    case False
    then have "ring_len r \<noteq> 0" by (simp add: ring_len_def)
    then obtain m where m: "unat (ring_len r) = Suc m" by (metis not0_implies_Suc unat_eq_zero)
    have pop: "pop r = (Some (read_entry r (head r)), set_head (head r + 1) r)"
      using False by (simp add: pop_def Let_def)
    have rl: "ring_len (set_head (head r + 1) r) = ring_len r - 1" by (simp add: ring_len_def)
    then have m': "unat (ring_len (set_head (head r + 1) r)) = m"
      using m \<open>ring_len r \<noteq> 0\<close> by (simp add: unat_minus_one)
    have c: "ring_contents r =
        read_entry r (head r) # map (\<lambda>i. read_entry r (head r + 1 + of_nat i)) [0..<m]"
      by (simp add: ring_contents_def m upt_conv_Cons map_Suc_upt [symmetric] comp_def algebra_simps
          del: upt_Suc)
    have "ring_contents (set_head (head r + 1) r) =
        map (\<lambda>i. read_entry r (head r + 1 + of_nat i)) [0..<m]"
      by (simp add: ring_contents_def m' read_entry_def)
    moreover have "ring_inv (set_head (head r + 1) r)"
      using inv m m' by (simp add: ring_inv_def word_le_nat_alt)
    ultimately show ?thesis using pop c by simp
  qed
  then show "fst (pop r) = fst (list_deq (ring_contents r))"
    and "ring_contents (snd (pop r)) = snd (list_deq (ring_contents r))"
    and "ring_inv (snd (pop r))" by simp_all
qed

lemma ring_list_enq:
  "ring_inv r \<Longrightarrow> ring_contents (push_fifo e r) = list_enq (unat (entry_count r)) e (ring_contents r)"
  by (simp add: push_fifo_def list_enq_def push_contents push_full)

lemma push_inv: "ring_inv r \<Longrightarrow> ring_inv (snd (push e r))"
  by (cases "unat (ring_len r) < unat (entry_count r)") (simp_all add: push_contents push_full)

lemma push_entry_count [simp]: "entry_count (snd (push e r)) = entry_count r"
  by (simp add: push_def Let_def)

lemma pop_entry_count [simp]: "entry_count (snd (pop r)) = entry_count r"
  by (simp add: pop_def Let_def)

interpretation spsc: bounded_fifo ring_inv ring_contents "\<lambda>r. unat (entry_count r)" push_fifo pop
proof unfold_locales
  fix q :: "'a SpscRing" and x :: 'a
  assume inv: "ring_inv q"
  show "length (ring_contents q) \<le> unat (entry_count q)" using inv by (simp add: ring_len_bound)
  show "ring_contents (push_fifo x q) = list_enq (unat (entry_count q)) x (ring_contents q)"
    using inv by (rule ring_list_enq)
  show "fst (pop q) = fst (list_deq (ring_contents q))"
    and "ring_contents (snd (pop q)) = snd (list_deq (ring_contents q))"
    and "ring_inv (snd (pop q))"
    using inv by (rule pop_contents)+
  show "ring_inv (push_fifo x q)" using inv by (simp add: push_fifo_def push_inv)
qed (simp_all add: push_fifo_def)

subsection \<open>The interleaved protocol\<close>

text \<open>
  Producer and consumer run concurrently over the shared header and entries. Each atomic access of
  \<^verbatim>\<open>push\<close> (acquire the head, check for room, write the slot, release the tail) and of \<^verbatim>\<open>pop\<close> (acquire
  the tail, check for an entry, read the slot, release the head) is one step; the two sides'
  local variables are in their program counters. The release stores and acquire loads make the
  slot accesses before a store visible after the matching load, so the interleaving of these steps
  is the behaviour of the code. \<open>sent\<close> and \<open>recvd\<close> record the entries for which \<^verbatim>\<open>push\<close> returned
  \<^verbatim>\<open>true\<close> and the entries \<^verbatim>\<open>pop\<close> returned.
\<close>

datatype 'a producer = PIdle | PAcquired 'a u32 u32 | PWritten 'a u32

datatype 'a consumer = CIdle | CAcquired u32 u32 | CRead 'a u32

record 'a spsc =
  ring :: "'a SpscRing"
  prod :: "'a producer"
  cons :: "'a consumer"
  sent :: "'a list"
  recvd :: "'a list"

inductive spsc_step :: "'a spsc \<Rightarrow> 'a spsc \<Rightarrow> bool" where
  AcquireHead: "prod s = PIdle \<Longrightarrow>
     spsc_step s (s\<lparr>prod := PAcquired e (head (ring s)) (tail (ring s))\<rparr>)"
| CheckFull: "prod s = PAcquired e h t \<Longrightarrow> entry_count (ring s) \<le> t - h \<Longrightarrow>
     spsc_step s (s\<lparr>prod := PIdle\<rparr>)"
| WriteSlot: "prod s = PAcquired e h t \<Longrightarrow> \<not> entry_count (ring s) \<le> t - h \<Longrightarrow>
     spsc_step s (s\<lparr>ring := write_entry t e (ring s), prod := PWritten e t\<rparr>)"
| ReleaseTail: "prod s = PWritten e t \<Longrightarrow>
     spsc_step s (s\<lparr>ring := set_tail (t + 1) (ring s), prod := PIdle, sent := sent s @ [e]\<rparr>)"
| AcquireTail: "cons s = CIdle \<Longrightarrow>
     spsc_step s (s\<lparr>cons := CAcquired (tail (ring s)) (head (ring s))\<rparr>)"
| CheckEmpty: "cons s = CAcquired t h \<Longrightarrow> h = t \<Longrightarrow> spsc_step s (s\<lparr>cons := CIdle\<rparr>)"
| ReadSlot: "cons s = CAcquired t h \<Longrightarrow> h \<noteq> t \<Longrightarrow>
     spsc_step s (s\<lparr>cons := CRead (read_entry (ring s) h) h\<rparr>)"
| ReleaseHead: "cons s = CRead e h \<Longrightarrow>
     spsc_step s (s\<lparr>ring := set_head (h + 1) (ring s), cons := CIdle, recvd := recvd s @ [e]\<rparr>)"

definition spsc_init :: "'a SpscRing \<Rightarrow> 'a spsc" where
  "spsc_init r = \<lparr>ring = init_header r, prod = PIdle, cons = CIdle, sent = [], recvd = []\<rparr>"

definition ring_memory_ok :: "'a SpscRing \<Rightarrow> bool" where
  "ring_memory_ok r \<longleftrightarrow> is_power_of_two (entry_count r) \<and> length (entries r) = unat (entry_count r)"

inductive spsc_reachable :: "'a SpscRing \<Rightarrow> 'a spsc \<Rightarrow> bool" for r where
  start: "spsc_reachable r (spsc_init r)"
| step: "spsc_reachable r s \<Longrightarrow> spsc_step s s' \<Longrightarrow> spsc_reachable r s'"

definition producer_inv :: "'a spsc \<Rightarrow> bool" where
  "producer_inv s = (let P = length (sent s); C = length (recvd s); N = unat (entry_count (ring s)) in
     case prod s of
       PIdle \<Rightarrow> True
     | PAcquired e h t \<Rightarrow> t = of_nat P \<and> (\<exists>C'\<le>C. h = of_nat C' \<and> P \<le> C' + N)
     | PWritten e t \<Rightarrow> t = of_nat P \<and> P < C + N \<and> entries (ring s) ! (P mod N) = e)"

definition consumer_inv :: "'a spsc \<Rightarrow> bool" where
  "consumer_inv s = (let P = length (sent s); C = length (recvd s) in
     case cons s of
       CIdle \<Rightarrow> True
     | CAcquired t h \<Rightarrow> h = of_nat C \<and> (\<exists>P'\<le>P. t = of_nat P' \<and> C \<le> P')
     | CRead e h \<Rightarrow> h = of_nat C \<and> C < P \<and> e = sent s ! C)"

definition counters_inv :: "'a spsc \<Rightarrow> bool" where
  "counters_inv s = (let P = length (sent s); C = length (recvd s); N = unat (entry_count (ring s)) in
     ring_memory_ok (ring s) \<and> tail (ring s) = of_nat P \<and> head (ring s) = of_nat C
     \<and> C \<le> P \<and> P \<le> C + N \<and> recvd s = take C (sent s)
     \<and> (\<forall>i. C \<le> i \<longrightarrow> i < P \<longrightarrow> entries (ring s) ! (i mod N) = sent s ! i))"

definition spsc_inv :: "'a spsc \<Rightarrow> bool" where
  "spsc_inv s \<longleftrightarrow> counters_inv s \<and> producer_inv s \<and> consumer_inv s"

lemmas spsc_inv_defs = spsc_inv_def counters_inv_def producer_inv_def consumer_inv_def Let_def

lemma ring_slot_of_nat:
  "ring_memory_ok r \<Longrightarrow> ring_slot r (of_nat i) = i mod unat (entry_count r)"
  using ring_slot_add [of r 0 i] by (simp add: ring_memory_ok_def)

lemma ring_memory_ok_simps [simp]:
  "ring_memory_ok (set_tail v r) = ring_memory_ok r"
  "ring_memory_ok (set_head v r) = ring_memory_ok r"
  "ring_memory_ok (write_entry i e r) = ring_memory_ok r"
  by (simp_all add: ring_memory_ok_def)

lemma ring_memory_okD:
  assumes "ring_memory_ok r"
  shows "0 < unat (entry_count r)" and "length (entries r) = unat (entry_count r)"
  using assms by (auto simp: ring_memory_ok_def is_power_of_two_iff)

lemma not_full_nat:
  fixes n :: u32
  assumes "\<not> n \<le> of_nat P - of_nat C" and "C \<le> P" and "P \<le> C + unat n"
  shows "P < C + unat n"
proof (rule ccontr)
  assume "\<not> P < C + unat n"
  then have "P = C + unat n" using assms(3) by simp
  then have "(of_nat P - of_nat C :: u32) = n" by simp
  with assms(1) show False by simp
qed

lemma mod_window_distinct:
  fixes i P C N :: nat
  assumes "C \<le> i" "i < P" "P < C + N"
  shows "i mod N \<noteq> P mod N"
proof
  assume "i mod N = P mod N"
  then have "(C + (i - C)) mod N = (C + (P - C)) mod N" using assms by simp
  then have "i - C = P - C" by (rule add_mod_inj) (use assms in linarith)+
  with assms show False by linarith
qed

lemma spsc_init_inv: "ring_memory_ok r \<Longrightarrow> spsc_inv (spsc_init r)"
  by (simp add: spsc_inv_defs spsc_init_def init_header_def head_def tail_def ring_memory_ok_def)

lemma spsc_step_inv:
  assumes "spsc_step s s'" and "spsc_inv s"
  shows "spsc_inv s'"
  using assms
proof (induction rule: spsc_step.induct)
  case (AcquireHead s e)
  then show ?case by (auto simp: spsc_inv_defs split: consumer.splits)
next
  case (CheckFull s e h t)
  then show ?case by (auto simp: spsc_inv_defs split: consumer.splits)
next
  case (WriteSlot s e h t)
  let ?P = "length (sent s)" and ?C = "length (recvd s)" and ?N = "unat (entry_count (ring s))"
  obtain C' where C': "C' \<le> ?C" "h = of_nat C'" "?P \<le> C' + ?N" and tP: "t = of_nat ?P"
    using WriteSlot by (auto simp: spsc_inv_defs)
  have mem: "ring_memory_ok (ring s)" and CP: "?C \<le> ?P" using WriteSlot by (auto simp: spsc_inv_defs)
  have "?P < C' + ?N"
    using not_full_nat [of "entry_count (ring s)" ?P C'] WriteSlot C' tP CP by simp
  then have room: "?P < ?C + ?N" using C'(1) by simp
  have slot: "ring_slot (ring s) t = ?P mod ?N" using tP mem by (simp add: ring_slot_of_nat)
  have lt: "?P mod ?N < length (entries (ring s))" using ring_memory_okD [OF mem] by simp
  have old: "(entries (ring s))[?P mod ?N := e] ! (i mod ?N) = entries (ring s) ! (i mod ?N)"
    if "?C \<le> i" and "i < ?P" for i
    using mod_window_distinct [OF that room] by (metis nth_list_update_neq)
  show ?case
    using WriteSlot.prems WriteSlot.hyps room slot lt tP old
    by (auto simp: spsc_inv_defs split: consumer.splits)
next
  case (ReleaseTail s e t)
  then show ?case
    by (auto simp: spsc_inv_defs nth_append less_Suc_eq split: consumer.splits) (metis le_SucI)
next
  case (AcquireTail s)
  then show ?case by (auto simp: spsc_inv_defs split: producer.splits)
next
  case (CheckEmpty s t h)
  then show ?case by (auto simp: spsc_inv_defs split: producer.splits)
next
  case (ReadSlot s t h)
  then obtain P' where P': "P' \<le> length (sent s)" "t = of_nat P'" "length (recvd s) \<le> P'"
    and hC: "h = of_nat (length (recvd s))" by (auto simp: spsc_inv_defs)
  with ReadSlot.hyps have "length (recvd s) < P'" by (cases "length (recvd s) = P'") auto
  with ReadSlot P' hC show ?case
    by (auto simp: spsc_inv_defs read_entry_def ring_slot_of_nat split: producer.splits)
next
  case (ReleaseHead s e h)
  then show ?case
    by (auto simp: spsc_inv_defs take_Suc_conv_app_nth split: producer.splits) (metis le_SucI)
qed

lemma spsc_reachable_inv: "spsc_reachable r s \<Longrightarrow> ring_memory_ok r \<Longrightarrow> spsc_inv s"
  by (induction rule: spsc_reachable.induct) (auto intro: spsc_init_inv spsc_step_inv)

lemma spsc_reachable_entry_count:
  "spsc_reachable r s \<Longrightarrow> entry_count (ring s) = entry_count r"
proof (induction rule: spsc_reachable.induct)
  case start
  then show ?case by (simp add: spsc_init_def init_header_def)
next
  case (step s s')
  from step.hyps(2) step.IH show ?case by (induction rule: spsc_step.induct) simp_all
qed

lemma push_as_steps:
  assumes "prod s = PIdle"
  shows "spsc_step\<^sup>*\<^sup>* s (s\<lparr>ring := snd (push e (ring s)), prod := PIdle,
           sent := (if fst (push e (ring s)) then sent s @ [e] else sent s)\<rparr>)"
proof -
  let ?h = "head (ring s)" and ?t = "tail (ring s)"
  let ?a = "s\<lparr>prod := PAcquired e ?h ?t\<rparr>"
  have a: "spsc_step s ?a" using assms by (rule AcquireHead)
  show ?thesis
  proof (cases "entry_count (ring s) \<le> ?t - ?h")
    case True
    then have "spsc_step ?a (?a\<lparr>prod := PIdle\<rparr>)" by (intro CheckFull [of ?a e ?h ?t]) simp_all
    with a True show ?thesis
      by (auto simp: push_def Let_def intro!: rtranclp.rtrancl_into_rtrancl [of spsc_step s ?a])
  next
    case False
    let ?b = "?a\<lparr>ring := write_entry ?t e (ring s), prod := PWritten e ?t\<rparr>"
    have b: "spsc_step ?a ?b" using False WriteSlot [of ?a e ?h ?t] by simp
    let ?c = "?b\<lparr>ring := set_tail (?t + 1) (ring ?b), prod := PIdle, sent := sent ?b @ [e]\<rparr>"
    have "spsc_step ?b ?c" by (rule ReleaseTail) simp
    with a b have "spsc_step\<^sup>*\<^sup>* s ?c" by (meson converse_rtranclp_into_rtranclp rtranclp.rtrancl_refl)
    moreover have "?c = s\<lparr>ring := snd (push e (ring s)), prod := PIdle,
           sent := (if fst (push e (ring s)) then sent s @ [e] else sent s)\<rparr>"
      using False by (simp add: push_def Let_def)
    ultimately show ?thesis by (simp only:)
  qed
qed

lemma pop_as_steps:
  assumes "cons s = CIdle"
  shows "spsc_step\<^sup>*\<^sup>* s (s\<lparr>ring := snd (pop (ring s)), cons := CIdle,
           recvd := (case fst (pop (ring s)) of None \<Rightarrow> recvd s | Some e \<Rightarrow> recvd s @ [e])\<rparr>)"
proof -
  let ?h = "head (ring s)" and ?t = "tail (ring s)"
  let ?a = "s\<lparr>cons := CAcquired ?t ?h\<rparr>"
  have a: "spsc_step s ?a" using assms by (rule AcquireTail)
  show ?thesis
  proof (cases "?h = ?t")
    case True
    then have "spsc_step ?a (?a\<lparr>cons := CIdle\<rparr>)" by (intro CheckEmpty [of ?a ?t ?h]) simp_all
    with a True show ?thesis
      by (auto simp: pop_def Let_def intro!: rtranclp.rtrancl_into_rtrancl [of spsc_step s ?a])
  next
    case False
    let ?e = "read_entry (ring s) ?h"
    let ?b = "?a\<lparr>cons := CRead ?e ?h\<rparr>"
    have b: "spsc_step ?a ?b" using False ReadSlot [of ?a ?t ?h] by simp
    let ?c = "?b\<lparr>ring := set_head (?h + 1) (ring ?b), cons := CIdle, recvd := recvd ?b @ [?e]\<rparr>"
    have "spsc_step ?b ?c" by (rule ReleaseHead) simp
    with a b have "spsc_step\<^sup>*\<^sup>* s ?c" by (meson converse_rtranclp_into_rtranclp rtranclp.rtrancl_refl)
    moreover have "?c = s\<lparr>ring := snd (pop (ring s)), cons := CIdle,
           recvd := (case fst (pop (ring s)) of None \<Rightarrow> recvd s | Some e \<Rightarrow> recvd s @ [e])\<rparr>"
      using False by (simp add: pop_def Let_def)
    ultimately show ?thesis by (simp only:)
  qed
qed

subsection \<open>Properties\<close>

text \<open>
  C1: Under any interleaving of a producer running \<^verbatim>\<open>push\<close> and a consumer running \<^verbatim>\<open>pop\<close>, and for any
  number of operations (the 32-bit counters may wrap), the entries received are exactly the first
  entries sent, in order: none lost, duplicated or torn. At most \<open>entry_count\<close> entries are in
  flight, and an entry the consumer has read but not yet released is the next one of the sequence.
\<close>

theorem spsc_delivers_in_order:
  assumes "ring_memory_ok r" and "spsc_reachable r s"
  shows "recvd s = take (length (recvd s)) (sent s)
       \<and> length (sent s) \<le> length (recvd s) + unat (entry_count r)
       \<and> (\<forall>e h. cons s = CRead e h \<longrightarrow>
            length (recvd s) < length (sent s) \<and> e = sent s ! length (recvd s))"
  using spsc_reachable_inv [OF assms(2,1)] spsc_reachable_entry_count [OF assms(2)]
  by (auto simp: spsc_inv_defs)

definition example_ring :: "nat SpscRing" where
  "example_ring =
     \<lparr>header = \<lparr>hdr_head = 0, hdr_tail = 0, hdr_mask = 0, hdr_flags = 0\<rparr>, entry_count = 2,
      entries = [0, 0]\<rparr>"

definition example_spsc :: "nat spsc" where
  "example_spsc =
     (spsc_init example_ring)\<lparr>ring := snd (push 7 (init_header example_ring)), sent := [7],
       cons := CRead 7 0\<rparr>"

lemma example_ring_ok: "ring_memory_ok example_ring"
  by (simp add: ring_memory_ok_def example_ring_def is_power_of_two_iff exI [of _ 1])

lemma example_spsc_reachable: "spsc_reachable example_ring example_spsc"
proof -
  let ?s0 = "spsc_init example_ring"
  let ?s1 = "?s0\<lparr>ring := snd (push 7 (init_header example_ring)), sent := [7]\<rparr>"
  let ?s2 = "?s1\<lparr>cons := CAcquired 1 0\<rparr>"
  have lift: "spsc_reachable r s \<Longrightarrow> spsc_step\<^sup>*\<^sup>* s s' \<Longrightarrow> spsc_reachable r s'"
    for r :: "nat SpscRing" and s s'
    by (rotate_tac, induction rule: rtranclp_induct) (auto intro: spsc_reachable.step)
  have "spsc_step\<^sup>*\<^sup>* ?s0 ?s1"
    using push_as_steps [of ?s0 7]
    by (simp add: spsc_init_def init_header_def push_def Let_def example_ring_def head_def tail_def)
  then have 1: "spsc_reachable example_ring ?s1" by (intro lift [OF spsc_reachable.start])
  have "spsc_step ?s1 ?s2"
    using AcquireTail [of ?s1]
    by (simp add: spsc_init_def init_header_def push_def Let_def example_ring_def head_def tail_def
        set_tail_def write_entry_def)
  then have 2: "spsc_reachable example_ring ?s2" by (rule spsc_reachable.step [OF 1])
  have "spsc_step ?s2 example_spsc"
    using ReadSlot [of ?s2 1 0]
    by (simp add: spsc_init_def init_header_def push_def Let_def example_ring_def head_def tail_def
        set_tail_def write_entry_def example_spsc_def read_entry_def ring_slot_def)
  then show ?thesis by (rule spsc_reachable.step [OF 2])
qed

theorem spsc_delivers_in_order_witness:
  "ring_memory_ok example_ring \<and> spsc_reachable example_ring example_spsc
   \<and> sent example_spsc = [7] \<and> cons example_spsc = CRead 7 0
   \<and> sent example_spsc ! length (recvd example_spsc) = 7"
  using spsc_delivers_in_order [OF example_ring_ok example_spsc_reachable]
  by (simp add: example_ring_ok example_spsc_reachable) (simp add: example_spsc_def spsc_init_def)

text \<open>
  C5: Any sequence of \<^verbatim>\<open>push\<close> and \<^verbatim>\<open>pop\<close> calls on a well-formed ring, whatever its counters, behaves
  as a first-in first-out list bounded by \<open>entry_count\<close>: the values popped and the contents left
  are the contents at the start followed by the values for which there was room.
\<close>

theorem ring_run_refines_fifo:
  assumes "ring_inv r" and "fifo_run push_fifo pop ops r = (outs, r')"
  shows "ring_contents r @ accepted (unat (entry_count r)) ops (ring_contents r) = outs @ ring_contents r'
       \<and> ring_inv r' \<and> length (ring_contents r') \<le> unat (entry_count r)"
  using spsc.run_conserves [OF assms(1), of ops] spsc.run_refines [OF assms(1), of ops] assms(2)
    spsc.bounded [of r']
  by simp

definition wrapped_ring :: "nat SpscRing" where
  "wrapped_ring =
     \<lparr>header = \<lparr>hdr_head = -1, hdr_tail = -1, hdr_mask = 1, hdr_flags = 0\<rparr>, entry_count = 2,
      entries = [0, 0]\<rparr>"

theorem ring_run_refines_fifo_witness:
  "ring_inv wrapped_ring
   \<and> fst (fifo_run push_fifo pop [Enq 1, Enq 2, Enq 3, Deq, Deq, Deq] wrapped_ring) = [1, 2]
   \<and> accepted 2 [Enq 1, Enq 2, Enq 3, Deq, Deq, Deq] [] = [1, 2 :: nat]"
proof -
  let ?ops = "[Enq 1, Enq 2, Enq 3, Deq, Deq, Deq]"
  have inv: "ring_inv wrapped_ring" by code_simp
  have "ring_contents wrapped_ring = []" by code_simp
  moreover have "ring_contents (snd (fifo_run push_fifo pop ?ops wrapped_ring)) = []" by code_simp
  moreover have "accepted 2 ?ops [] = [1, 2 :: nat]" by simp
  moreover have "unat (entry_count wrapped_ring) = 2" by code_simp
  ultimately show ?thesis
    using inv ring_run_refines_fifo [OF inv prod.collapse [symmetric], of ?ops]
    by (simp del: fifo_run.simps accepted.simps)
qed

text \<open>
  Whatever values userspace writes into the shared head and tail, the kernel reads and writes
  ring entries only inside the entry area of the ring's single 4 KiB page, for every permitted
  submission and completion ring size.
\<close>

theorem ring_access_in_page:
  assumes "is_power_of_two (entry_count r)"
  shows "(unat (entry_count r) \<le> MAX_SQ_ENTRIES \<longrightarrow>
            RING_ENTRIES_OFFSET \<le> entry_offset sizeof_IoSubmission (ring_slot r index)
            \<and> entry_offset sizeof_IoSubmission (ring_slot r index) + sizeof_IoSubmission \<le> PAGE_SIZE)
       \<and> (unat (entry_count r) \<le> MAX_CQ_ENTRIES \<longrightarrow>
            RING_ENTRIES_OFFSET \<le> entry_offset sizeof_IoCompletion (ring_slot r index)
            \<and> entry_offset sizeof_IoCompletion (ring_slot r index) + sizeof_IoCompletion \<le> PAGE_SIZE)"
  using ring_slot_bound [OF assms, of index] by (simp add: entry_offset_def const_defs)

theorem ring_access_in_page_witness:
  "is_power_of_two (entry_count example_ring)
   \<and> entry_offset sizeof_IoCompletion (ring_slot example_ring 0xFFFFFFFF) + sizeof_IoCompletion \<le> PAGE_SIZE"
proof -
  have p: "is_power_of_two (entry_count example_ring)"
    using example_ring_ok by (simp add: ring_memory_ok_def)
  have "unat (entry_count example_ring) \<le> MAX_CQ_ENTRIES"
    by (simp add: example_ring_def const_defs)
  then show ?thesis using ring_access_in_page [OF p, of "0xFFFFFFFF"] p by simp
qed

end
