(* ===== verification/Byte_Memory.thy ===== *)
theory Byte_Memory
  imports Prelude
begin

text \<open>
  Byte-addressed memory, as the kernel sees it through its raw pointers: filling, copying and
  little-endian 64-bit loads and stores, with the facts that a load returns what was last stored
  there and that writes elsewhere do not disturb it.
\<close>

type_synonym memory = "nat \<Rightarrow> u8"

text \<open>\<^verbatim>\<open>core::ptr::write_bytes\<close> and \<^verbatim>\<open>core::ptr::copy_nonoverlapping\<close>.\<close>

definition write_bytes :: "nat \<Rightarrow> nat \<Rightarrow> u8 \<Rightarrow> memory \<Rightarrow> memory" where
  "write_bytes a n v m = (\<lambda>x. if a \<le> x \<and> x < a + n then v else m x)"

definition store_bytes :: "nat \<Rightarrow> u8 list \<Rightarrow> memory \<Rightarrow> memory" where
  "store_bytes a bs m = (\<lambda>x. if a \<le> x \<and> x < a + length bs then bs ! (x - a) else m x)"

definition load_bytes :: "nat \<Rightarrow> nat \<Rightarrow> memory \<Rightarrow> u8 list" where
  "load_bytes a n m = map m [a..<a + n]"

text \<open>Little-endian encodings of the low \<open>n\<close> bytes of a number.\<close>

primrec le_bytes :: "nat \<Rightarrow> nat \<Rightarrow> u8 list" where
  "le_bytes 0 v = []"
| "le_bytes (Suc n) v = of_nat v # le_bytes n (v div 256)"

primrec of_le_bytes :: "u8 list \<Rightarrow> nat" where
  "of_le_bytes [] = 0"
| "of_le_bytes (b # bs) = unat b + 256 * of_le_bytes bs"

definition store_u64 :: "nat \<Rightarrow> nat \<Rightarrow> memory \<Rightarrow> memory" where
  "store_u64 a v = store_bytes a (le_bytes 8 v)"

definition store_u32 :: "nat \<Rightarrow> nat \<Rightarrow> memory \<Rightarrow> memory" where
  "store_u32 a v = store_bytes a (le_bytes 4 v)"

definition load_u64 :: "nat \<Rightarrow> memory \<Rightarrow> nat" where
  "load_u64 a m = of_le_bytes (load_bytes a 8 m)"

definition load_u32 :: "nat \<Rightarrow> memory \<Rightarrow> nat" where
  "load_u32 a m = of_le_bytes (load_bytes a 4 m)"

text \<open>A structure of 64-bit fields, stored field after field.\<close>

primrec store_u64s :: "nat \<Rightarrow> nat list \<Rightarrow> memory \<Rightarrow> memory" where
  "store_u64s a [] m = m"
| "store_u64s a (v # vs) m = store_u64s (a + 8) vs (store_u64 a v m)"

lemma length_le_bytes [simp]: "length (le_bytes n v) = n"
  by (induction n arbitrary: v) simp_all

lemma length_load_bytes [simp]: "length (load_bytes a n m) = n"
  by (simp add: load_bytes_def)

lemma of_le_bytes_le_bytes: "of_le_bytes (le_bytes n v) = v mod 256 ^ n"
proof (induction n arbitrary: v)
  case 0
  then show ?case by simp
next
  case (Suc n)
  have "unat (of_nat v :: u8) = v mod 256"
    by (simp add: unat_of_nat)
  then show ?case by (simp add: Suc mod_mult2_eq algebra_simps)
qed

lemma le_bytes_of_le_bytes: "le_bytes (length bs) (of_le_bytes bs) = bs"
proof (induction bs)
  case Nil
  then show ?case by simp
next
  case (Cons b bs)
  have "unat b < 256" using unsigned_less [of b] by simp
  have "(of_nat (unat b + 256 * of_le_bytes bs) :: u8) = of_nat (unat b)"
    by (simp only: word_of_nat_eq_iff take_bit_eq_mod) simp
  also have "\<dots> = b" by simp
  finally show ?case using Cons \<open>unat b < 256\<close> by (simp del: of_nat_add)
qed

lemma of_le_bytes_bound: "of_le_bytes bs < 256 ^ length bs"
proof (induction bs)
  case Nil
  then show ?case by simp
next
  case (Cons b bs)
  have "unat b < 256" using unsigned_less [of b] by simp
  with Cons show ?case by simp
qed

lemma load_store_bytes_same [simp]: "load_bytes a (length bs) (store_bytes a bs m) = bs"
  by (rule nth_equalityI) (simp_all add: load_bytes_def store_bytes_def)

lemma load_store_bytes_disjoint:
  "a + n \<le> b \<or> b + length bs \<le> a \<Longrightarrow> load_bytes a n (store_bytes b bs m) = load_bytes a n m"
  by (auto simp: load_bytes_def store_bytes_def)

lemma load_store_u64_same: "v < 2 ^ 64 \<Longrightarrow> load_u64 a (store_u64 a v m) = v"
proof -
  assume v: "v < 2 ^ 64"
  have "load_bytes a 8 (store_bytes a (le_bytes 8 v) m) = le_bytes 8 v"
    using load_store_bytes_same [of a "le_bytes 8 v" m] by simp
  then show ?thesis
    using v by (simp add: load_u64_def store_u64_def of_le_bytes_le_bytes)
qed

lemma load_store_u64_disjoint:
  "a + 8 \<le> b \<or> b + 8 \<le> a \<Longrightarrow> load_u64 a (store_u64 b v m) = load_u64 a m"
  by (simp add: load_u64_def store_u64_def load_store_bytes_disjoint)

lemma load_u64_bound: "load_u64 a m < 2 ^ 64"
  using of_le_bytes_bound [of "load_bytes a 8 m"] by (simp add: load_u64_def)

lemma load_bytes_cong: "(\<And>x. a \<le> x \<Longrightarrow> x < a + n \<Longrightarrow> m x = m' x) \<Longrightarrow> load_bytes a n m = load_bytes a n m'"
  by (auto simp: load_bytes_def)

lemma load_u64_cong:
  "(\<And>x. a \<le> x \<Longrightarrow> x < a + 8 \<Longrightarrow> m x = m' x) \<Longrightarrow> load_u64 a m = load_u64 a m'"
  by (auto simp: load_u64_def load_bytes_def intro!: arg_cong [of _ _ of_le_bytes])

lemma store_bytes_outside: "x < a \<or> a + length bs \<le> x \<Longrightarrow> store_bytes a bs m x = m x"
  by (auto simp: store_bytes_def)

lemma store_u64s_outside: "x < a \<or> a + 8 * length vs \<le> x \<Longrightarrow> store_u64s a vs m x = m x"
  by (induction vs arbitrary: a m) (auto simp: store_u64_def store_bytes_outside)

lemma store_u64s_load:
  "i < length vs \<Longrightarrow> vs ! i < 2 ^ 64 \<Longrightarrow> load_u64 (a + 8 * i) (store_u64s a vs m) = vs ! i"
proof (induction vs arbitrary: a m i)
  case Nil
  then show ?case by simp
next
  case (Cons v vs)
  show ?case
  proof (cases i)
    case 0
    have "load_bytes a 8 (store_u64s (a + 8) vs (store_u64 a v m)) = load_bytes a 8 (store_u64 a v m)"
      by (auto simp: load_bytes_def intro!: store_u64s_outside)
    then have "load_u64 a (store_u64s (a + 8) vs (store_u64 a v m)) = load_u64 a (store_u64 a v m)"
      by (simp add: load_u64_def)
    with Cons.prems 0 show ?thesis by (simp add: load_store_u64_same)
  next
    case (Suc j)
    with Cons.prems Cons.IH [of j "a + 8"] show ?thesis by (simp add: algebra_simps)
  qed
qed

subsection \<open>Strings and words as bytes\<close>

definition str_of :: "u8 list \<Rightarrow> string" where
  "str_of bs = map (\<lambda>b. char_of (unat b)) bs"

definition bytes_of :: "string \<Rightarrow> u8 list" where
  "bytes_of s = map (\<lambda>c. word_of_nat (of_char c)) s"

lemma length_bytes_of [simp]: "length (bytes_of s) = length s" "length (str_of bs) = length bs"
  by (simp_all add: bytes_of_def str_of_def)

lemma str_of_bytes_of [simp]: "str_of (bytes_of s) = s"
proof -
  have "char_of (unat (word_of_nat (of_char c) :: u8)) = c" for c
    using nat_of_char_less_256 [of c] by (simp add: unsigned_of_nat take_bit_nat_eq_self)
  then show ?thesis by (simp add: str_of_def bytes_of_def map_idI)
qed

lemma of_le_bytes_u16: "of_nat (of_le_bytes (le_bytes 2 (unat d))) = d" for d :: u16
proof -
  have "unat d < 256 ^ 2" using unsigned_less [of d] by simp
  then show ?thesis by (simp add: of_le_bytes_le_bytes)
qed

lemma of_le_bytes_u32: "of_nat (of_le_bytes (le_bytes 4 (unat d))) = d" for d :: u32
proof -
  have "unat d < 256 ^ 4" using unsigned_less [of d] by simp
  then show ?thesis by (simp add: of_le_bytes_le_bytes)
qed

lemma of_le_bytes_word: "of_nat (of_le_bytes (le_bytes 8 (unat d))) = d" for d :: u64
proof -
  have "unat d < 256 ^ 8" using unsigned_less [of d] by simp
  then show ?thesis by (simp add: of_le_bytes_le_bytes)
qed

lemma of_le_bytes_nat: "n < 256 ^ k \<Longrightarrow> of_le_bytes (le_bytes k n) = n"
  by (simp add: of_le_bytes_le_bytes)

end
