(* ===== verification/Stack_Arena.thy ===== *)
theory Stack_Arena
  imports Byte_Memory
begin

text \<open>
  The arena of 64 KiB kernel stacks of \<^verbatim>\<open>libkernel/src/stack_arena.rs\<close>: a bitmap of free slots,
  allocation of the lowest free one, and the \<^verbatim>\<open>Drop\<close> of a slot that returns it. Stacks handed out
  and not yet dropped never overlap, and each is handed out zeroed.
\<close>

record ArenaInner =
  free_bitmap :: u32
  arena_initialized :: bool

record StackSlot =
  slot_index :: nat
  slot_base :: nat
  slot_size :: nat

definition slot_top :: "StackSlot \<Rightarrow> nat" where
  "slot_top s = (slot_base s + slot_size s) div 16 * 16"

definition drop_slot :: "StackSlot \<Rightarrow> ArenaInner \<Rightarrow> ArenaInner" where
  "drop_slot s a = a\<lparr>free_bitmap := set_bit_at (slot_index s) (free_bitmap a)\<rparr>"

text \<open>Initialisation; mapping the pages is the memory manager's operation, passed in.\<close>

definition arena_init ::
  "(nat \<Rightarrow> nat \<Rightarrow> 'm \<Rightarrow> 'm option) \<Rightarrow> ArenaInner \<Rightarrow> 'm \<Rightarrow> (ArenaInner \<times> 'm) res" where
  "arena_init map_kernel_pages a mm =
     (let total_pages = STACK_ARENA_CAPACITY * KERNEL_STACK_SIZE div PAGE_SIZE
      in case map_kernel_pages STACK_ARENA_BASE total_pages mm of
           None \<Rightarrow> Inl UnwrapNone
         | Some mm' \<Rightarrow>
             Inr (a\<lparr>free_bitmap := push_bit STACK_ARENA_CAPACITY 1 - 1, arena_initialized := True\<rparr>, mm'))"

definition arena_alloc :: "ArenaInner \<Rightarrow> memory \<Rightarrow> (StackSlot option \<times> ArenaInner \<times> memory) res" where
  "arena_alloc a m =
     (if \<not> arena_initialized a then Inl AssertFailed
      else if free_bitmap a = 0 then Inr (None, a, m)
      else
        let index = trailing_zeros (free_bitmap a);
            base = STACK_ARENA_BASE + index * KERNEL_STACK_SIZE
        in Inr (Some \<lparr>slot_index = index, slot_base = base, slot_size = KERNEL_STACK_SIZE\<rparr>,
                a\<lparr>free_bitmap := clear_bit_at index (free_bitmap a)\<rparr>,
                write_bytes base KERNEL_STACK_SIZE 0 m))"

subsection \<open>Histories of the arena\<close>

text \<open>
  The arena with the slots that are handed out. A slot is dropped at most once (it is a linear
  value in the source); a permanent slot (\<^verbatim>\<open>core::mem::forget\<close>) simply stays in the list. The
  history starts when the pages have been mapped.
\<close>

inductive arena_history :: "ArenaInner \<Rightarrow> memory \<Rightarrow> StackSlot list \<Rightarrow> bool" where
  Init: "arena_init (\<lambda>_ _ mm. Some mm) a0 () = Inr (a, ()) \<Longrightarrow> arena_history a m []"
| Alloc: "arena_history a m live \<Longrightarrow> arena_alloc a m = Inr (Some s, a', m') \<Longrightarrow>
            arena_history a' m' (s # live)"
| Drop: "arena_history a m live \<Longrightarrow> s \<in> set live \<Longrightarrow> arena_history (drop_slot s a) m (remove1 s live)"
| Use: "arena_history a m live \<Longrightarrow> arena_history a m' live"

definition mk_slot :: "nat \<Rightarrow> StackSlot" where
  "mk_slot i = \<lparr>slot_index = i, slot_base = STACK_ARENA_BASE + i * KERNEL_STACK_SIZE,
                slot_size = KERNEL_STACK_SIZE\<rparr>"

definition arena_inv :: "ArenaInner \<Rightarrow> StackSlot list \<Rightarrow> bool" where
  "arena_inv a live \<longleftrightarrow>
     arena_initialized a \<and> distinct live
     \<and> (\<forall>s \<in> set live. \<exists>i<STACK_ARENA_CAPACITY. s = mk_slot i)
     \<and> (\<forall>i. bit (free_bitmap a) i \<longleftrightarrow> i < STACK_ARENA_CAPACITY \<and> mk_slot i \<notin> set live)"

lemma mk_slot_inj [simp]: "mk_slot i = mk_slot j \<longleftrightarrow> i = j"
  by (auto simp: mk_slot_def)

lemma arena_alloc_slot:
  assumes "arena_inv a live" and "arena_alloc a m = Inr (Some s, a', m')"
  obtains i where "s = mk_slot i" and "i < STACK_ARENA_CAPACITY" and "s \<notin> set live"
    and "a' = a\<lparr>free_bitmap := clear_bit_at i (free_bitmap a)\<rparr>"
    and "m' = write_bytes (slot_base s) (slot_size s) 0 m"
proof -
  from assms(2) have nz: "free_bitmap a \<noteq> 0"
    by (auto simp: arena_alloc_def split: if_splits)
  let ?i = "trailing_zeros (free_bitmap a)"
  have "bit (free_bitmap a) ?i" using nz by (rule trailing_zeros_bit)
  with assms nz show ?thesis
    by (intro that [of ?i]) (auto simp: arena_alloc_def arena_inv_def Let_def mk_slot_def split: if_splits)
qed

lemma arena_history_inv: "arena_history a m live \<Longrightarrow> arena_inv a live"
proof (induction rule: arena_history.induct)
  case (Init a0 a m)
  have "(0xFFFF :: u32) = mask 16" by (simp add: mask_eq_exp_minus_1)
  with Init have "free_bitmap a = mask 16" and "arena_initialized a"
    by (auto simp: arena_init_def const_defs)
  then show ?case by (auto simp: arena_inv_def bit_mask_iff const_defs)
next
  case (Alloc a m live s a' m')
  then obtain i where "s = mk_slot i" "i < STACK_ARENA_CAPACITY" "s \<notin> set live"
    and "a' = a\<lparr>free_bitmap := clear_bit_at i (free_bitmap a)\<rparr>"
    by (blast elim: arena_alloc_slot)
  with Alloc.IH show ?case by (auto simp: arena_inv_def)
next
  case (Drop a m live s)
  then obtain i where "s = mk_slot i" "i < STACK_ARENA_CAPACITY" by (auto simp: arena_inv_def)
  moreover from Drop have "set (remove1 s live) = set live - {s}"
    by (simp add: arena_inv_def set_remove1_eq)
  ultimately show ?case using Drop
    by (auto simp: arena_inv_def drop_slot_def mk_slot_def const_defs)
qed

text \<open>
  The kernel stacks handed out and not yet dropped are pairwise disjoint, lie inside the
  arena's region and number at most \<open>STACK_ARENA_CAPACITY\<close>; the stack a call hands out is zeroed,
  leaves every other byte alone, is none of the live ones, and a call fails only when all slots
  are live.
\<close>

theorem stack_arena_disjoint:
  assumes "arena_history a m live"
  shows "length live \<le> STACK_ARENA_CAPACITY
       \<and> (\<forall>s \<in> set live. STACK_ARENA_BASE \<le> slot_base s \<and>
            slot_top s \<le> STACK_ARENA_BASE + STACK_ARENA_CAPACITY * KERNEL_STACK_SIZE)
       \<and> (\<forall>s \<in> set live. \<forall>t \<in> set live. s \<noteq> t \<longrightarrow>
            slot_base s + slot_size s \<le> slot_base t \<or> slot_base t + slot_size t \<le> slot_base s)
       \<and> (\<exists>r a' m'. arena_alloc a m = Inr (r, a', m')
            \<and> (case r of None \<Rightarrow> length live = STACK_ARENA_CAPACITY
               | Some s \<Rightarrow> s \<notin> set live
                   \<and> (\<forall>x. m' x = (if slot_base s \<le> x \<and> x < slot_top s then 0 else m x))))"
proof -
  have inv: "arena_inv a live" using assms by (rule arena_history_inv)
  have live: "set live \<subseteq> mk_slot ` {..<STACK_ARENA_CAPACITY}" using inv by (auto simp: arena_inv_def)
  have len: "length live = card (set live)" using inv by (simp add: arena_inv_def distinct_card)
  then have "length live \<le> STACK_ARENA_CAPACITY"
    using card_mono [OF _ live] card_image_le [of "{..<STACK_ARENA_CAPACITY}" mk_slot] by simp
  moreover have "\<forall>s \<in> set live. STACK_ARENA_BASE \<le> slot_base s \<and>
            slot_top s \<le> STACK_ARENA_BASE + STACK_ARENA_CAPACITY * KERNEL_STACK_SIZE"
    using live by (auto simp: mk_slot_def slot_top_def const_defs)
  moreover have "slot_base s + slot_size s \<le> slot_base t \<or> slot_base t + slot_size t \<le> slot_base s"
    if "s \<in> set live" "t \<in> set live" "s \<noteq> t" for s t
  proof -
    from that live obtain i j where "s = mk_slot i" "t = mk_slot j" by blast
    with that(3) have "i < j \<or> j < i" and "s = mk_slot i" "t = mk_slot j" by auto
    then show ?thesis by (auto simp: mk_slot_def const_defs)
  qed
  moreover have "\<exists>r a' m'. arena_alloc a m = Inr (r, a', m')
            \<and> (case r of None \<Rightarrow> length live = STACK_ARENA_CAPACITY
               | Some s \<Rightarrow> s \<notin> set live
                   \<and> (\<forall>x. m' x = (if slot_base s \<le> x \<and> x < slot_top s then 0 else m x)))"
  proof (cases "free_bitmap a = 0")
    case True
    then have "mk_slot ` {..<STACK_ARENA_CAPACITY} \<subseteq> set live" using inv by (auto simp: arena_inv_def)
    then have "set live = mk_slot ` {..<STACK_ARENA_CAPACITY}" using live by blast
    then have "length live = STACK_ARENA_CAPACITY" using len by (simp add: card_image inj_on_def)
    with True inv show ?thesis by (simp add: arena_alloc_def arena_inv_def)
  next
    case False
    then obtain s a' m' where al: "arena_alloc a m = Inr (Some s, a', m')"
      using inv by (auto simp: arena_alloc_def arena_inv_def Let_def)
    obtain i where "s = mk_slot i" "s \<notin> set live" "m' = write_bytes (slot_base s) (slot_size s) 0 m"
      using arena_alloc_slot [OF inv al] by blast
    then have "s \<notin> set live \<and> (\<forall>x. m' x = (if slot_base s \<le> x \<and> x < slot_top s then 0 else m x))"
      by (auto simp: write_bytes_def slot_top_def mk_slot_def const_defs)
    with al show ?thesis by auto
  qed
  ultimately show ?thesis by blast
qed

definition booted_arena :: ArenaInner where
  "booted_arena = \<lparr>free_bitmap = 0xFFFF, arena_initialized = True\<rparr>"

theorem stack_arena_disjoint_witness:
  "arena_history booted_arena (\<lambda>_. 1) []
   \<and> (\<exists>s a' m'. arena_alloc booted_arena (\<lambda>_. 1) = Inr (Some s, a', m') \<and> m' STACK_ARENA_BASE = 0)"
proof -
  have "arena_init (\<lambda>_ _ mm. Some mm) \<lparr>free_bitmap = 0, arena_initialized = False\<rparr> () = Inr (booted_arena, ())"
    by (simp add: arena_init_def booted_arena_def const_defs)
  then have h: "arena_history booted_arena m []" for m by (rule Init)
  have tz: "trailing_zeros (0xFFFF :: u32) = 0" by code_simp
  have al: "arena_alloc booted_arena (\<lambda>_. 1) =
      Inr (Some (mk_slot 0), booted_arena\<lparr>free_bitmap := clear_bit_at 0 0xFFFF\<rparr>,
           write_bytes STACK_ARENA_BASE KERNEL_STACK_SIZE 0 (\<lambda>_. 1))"
    by (simp add: arena_alloc_def booted_arena_def tz mk_slot_def)
  have "write_bytes STACK_ARENA_BASE KERNEL_STACK_SIZE 0 (\<lambda>_. 1) STACK_ARENA_BASE = 0"
    using stack_arena_disjoint [OF h, of "\<lambda>_. 1"] al by (simp add: mk_slot_def slot_top_def const_defs)
  then show ?thesis using h al by auto
qed

end
