(* ===== verification/Timer.thy ===== *)
theory Timer
  imports Prelude
begin

text \<open>
  The tick counter, the sleeping futures and the wake queue: \<^verbatim>\<open>libkernel/src/task/timer.rs\<close> and the
  \<^verbatim>\<open>TaskWaker\<close> of \<^verbatim>\<open>task/executor.rs\<close>. Every tick wakes every registered waker; a \<^verbatim>\<open>Delay\<close> that is not yet
  due registers again when it is polled.
\<close>

definition TICKS_PER_SECOND :: nat where
  [const_defs]: "TICKS_PER_SECOND = 1000"

definition MAX_WAKERS :: nat where
  [const_defs]: "MAX_WAKERS = 16"

definition WAKE_QUEUE_CAPACITY :: nat where
  [const_defs]: "WAKE_QUEUE_CAPACITY = 256"

text \<open>
  \<^verbatim>\<open>TICK_COUNT\<close>, \<^verbatim>\<open>WAKERS\<close> (a waker is the identifier of its task) and the executor's \<^verbatim>\<open>WAKE_QUEUE\<close>. At
  1000 Hz the 64-bit counter does not wrap in the lifetime of a machine; it is a number.
\<close>

record timer =
  tick_count :: nat
  wakers :: "nat option list"
  wake_queue :: "nat list"

definition timer_init :: timer where
  "timer_init = \<lparr>tick_count = 0, wakers = replicate MAX_WAKERS None, wake_queue = []\<rparr>"

definition wake_task :: "nat \<Rightarrow> timer \<Rightarrow> timer" where
  "wake_task task_id t =
     (if length (wake_queue t) < WAKE_QUEUE_CAPACITY
      then t\<lparr>wake_queue := wake_queue t @ [task_id]\<rparr> else t)"

fun wake_slots :: "nat option list \<Rightarrow> timer \<Rightarrow> timer" where
  "wake_slots [] t = t"
| "wake_slots (None # ws) t = wake_slots ws t"
| "wake_slots (Some w # ws) t = wake_slots ws (wake_task w t)"

definition tick :: "timer \<Rightarrow> timer" where
  "tick t =
     (wake_slots (wakers t) (t\<lparr>tick_count := tick_count t + 1\<rparr>))
       \<lparr>wakers := replicate (length (wakers t)) None\<rparr>"

definition ticks :: "timer \<Rightarrow> nat" where
  "ticks t = tick_count t"

record Delay =
  target :: nat

definition delay_new :: "nat \<Rightarrow> timer \<Rightarrow> Delay res" where
  "delay_new n t = bind_res (add_u64 (tick_count t) n) (\<lambda>tgt. Inr \<lparr>target = tgt\<rparr>)"

definition from_millis :: "nat \<Rightarrow> timer \<Rightarrow> Delay res" where
  "from_millis ms t =
     bind_res (mul_u64 ms TICKS_PER_SECOND) (\<lambda>p.
     bind_res (add_u64 p 999) (\<lambda>q. delay_new (q div 1000) t))"

definition from_secs :: "nat \<Rightarrow> timer \<Rightarrow> Delay res" where
  "from_secs secs t = bind_res (mul_u64 secs TICKS_PER_SECOND) (\<lambda>n. delay_new n t)"

fun register_waker :: "nat \<Rightarrow> nat option list \<Rightarrow> nat option list res" where
  "register_waker w [] = Inl ExplicitPanic"
| "register_waker w (None # ws) = Inr (Some w # ws)"
| "register_waker w (Some v # ws) = bind_res (register_waker w ws) (\<lambda>ws'. Inr (Some v # ws'))"

datatype 'a poll = Poll_Ready 'a | Poll_Pending

text \<open>
  \<^verbatim>\<open>Delay::poll\<close>: check, register under the lock, check again. Interrupts may fire between the
  registration and the second check; \<open>n\<close> is how many ticks do.
\<close>

definition poll_delay :: "nat \<Rightarrow> Delay \<Rightarrow> nat \<Rightarrow> timer \<Rightarrow> (unit poll \<times> timer) res" where
  "poll_delay n d task_id t =
     (if target d \<le> tick_count t then Inr (Poll_Ready (), t)
      else bind_res (register_waker task_id (wakers t)) (\<lambda>ws.
        let t' = (tick ^^ n) (t\<lparr>wakers := ws\<rparr>)
        in Inr (if target d \<le> tick_count t' then Poll_Ready () else Poll_Pending, t')))"

lemma wake_slots_count [simp]: "tick_count (wake_slots ws t) = tick_count t"
  by (induction ws t rule: wake_slots.induct) (simp_all add: wake_task_def)

lemma tick_count_tick [simp]: "tick_count (tick t) = Suc (tick_count t)"
  by (simp add: tick_def)

lemma tick_count_ticks [simp]: "tick_count ((tick ^^ n) t) = tick_count t + n"
  by (induction n) simp_all

lemma wake_slots_queue_prefix: "\<exists>ys. wake_queue (wake_slots ws t) = wake_queue t @ ys"
proof (induction ws t rule: wake_slots.induct)
  case (3 w ws t)
  then show ?case by (auto simp: wake_task_def split: if_splits)
qed simp_all

lemma wake_slots_wakes:
  "Some w \<in> set ws \<Longrightarrow> length (wake_queue t) + length ws \<le> WAKE_QUEUE_CAPACITY \<Longrightarrow>
   w \<in> set (wake_queue (wake_slots ws t))"
proof (induction ws t rule: wake_slots.induct)
  case (3 v ws t)
  have room: "length (wake_queue t) < WAKE_QUEUE_CAPACITY" using 3 by simp
  show ?case
  proof (cases "v = w")
    case True
    then show ?thesis
      using wake_slots_queue_prefix [of ws "wake_task v t"] room by (auto simp: wake_task_def)
  next
    case False
    with 3 room show ?thesis by (simp add: wake_task_def)
  qed
qed simp_all

lemma register_waker_ok:
  "register_waker w ws = Inr ws' \<Longrightarrow> Some w \<in> set ws' \<and> length ws' = length ws"
  by (induction w ws arbitrary: ws' rule: register_waker.induct) auto

lemma register_waker_panics_iff:
  "(\<exists>p. register_waker w ws = Inl p) \<longleftrightarrow> None \<notin> set ws"
  by (induction w ws rule: register_waker.induct) (auto simp: bind_res_def split: sum.splits)

lemma tick_wakers [simp]: "wakers (tick t) = replicate (length (wakers t)) None"
  by (simp add: tick_def)

lemma tick_queue: "wake_queue (tick t) = wake_queue (wake_slots (wakers t) (t\<lparr>tick_count := tick_count t + 1\<rparr>))"
  by (simp add: tick_def)

lemma wake_slots_none [simp]: "wake_slots (replicate k None) t = t"
  by (induction k) simp_all

lemma ticks_after_first: "wakers t = replicate k None \<Longrightarrow> wake_queue ((tick ^^ n) t) = wake_queue t \<and> wakers ((tick ^^ n) t) = replicate k None"
  by (induction n) (auto simp: tick_def)



text \<open>
  The waker table has \<open>MAX_WAKERS\<close> slots and polling a \<^verbatim>\<open>Delay\<close> that is not due while all are
  taken panics the kernel: \<open>MAX_WAKERS\<close> sleeping futures polled within one tick are the most the
  timer supports, and one more is fatal.
\<close>

theorem delay_poll_panics_iff:
  "(\<exists>p. poll_delay n d task_id t = Inl p) \<longleftrightarrow> tick_count t < target d \<and> None \<notin> set (wakers t)"
proof (cases "target d \<le> tick_count t")
  case False
  then show ?thesis
    using register_waker_panics_iff [of task_id "wakers t"]
    by (auto simp: poll_delay_def bind_res_def Let_def split: sum.splits)
qed (simp add: poll_delay_def)

end
