(* ===== verification/Scheduler.thy ===== *)
theory Scheduler
  imports Stack_Arena Timer
begin

text \<open>
  The preemptive round-robin scheduler of \<^verbatim>\<open>libkernel/src/task/scheduler.rs\<close> and the blocking
  primitive of \<^verbatim>\<open>wait_condition.rs\<close>: thread slots, the ready queue, blocking and unblocking, the timer
  tick, the voluntary yield with its donate target, and the initial frames written on the stacks
  of new threads. Each function runs under the scheduler lock with interrupts off, so each is one
  atomic step.
\<close>

definition QUANTUM_TICKS :: nat where
  [const_defs]: "QUANTUM_TICKS = 10"

definition usize_MAX :: nat where
  [const_defs]: "usize_MAX = 2 ^ 64 - 1"

datatype ThreadState = Ready | Running | Blocked | Dead

definition is_runnable :: "ThreadState \<Rightarrow> bool" where
  "is_runnable s \<longleftrightarrow> s \<noteq> Dead \<and> s \<noteq> Blocked"

datatype SchedulableKind = Kernel | UserProcess nat

definition KERNEL_PID :: nat where
  [const_defs]: "KERNEL_PID = 0"

record Thread =
  th_id :: nat
  th_state :: ThreadState
  saved_rsp :: nat
  th_pml4 :: nat
  ticks_remaining :: nat
  th_stack :: "StackSlot option"
  th_kind :: SchedulableKind
  kernel_stack_top :: nat
  th_user_rsp :: nat
  th_fs_base :: nat

record Scheduler =
  initialized :: bool
  threads :: "Thread list"
  current_idx :: nat
  ready_queue :: "nat list"
  idle_thread_idx :: nat

definition scheduler_new :: Scheduler where
  "scheduler_new =
     \<lparr>initialized = False, threads = [], current_idx = 0, ready_queue = [], idle_thread_idx = 0\<rparr>"

text \<open>
  The registers and per-CPU slots the scheduler saves and restores, and the state its functions
  read and write: the scheduler, its atomics, the CPU, the stack arena, stack memory, the timer.
\<close>

record cpu =
  cpu_user_rsp :: nat
  cpu_fs_base :: nat
  tss_rsp0 :: nat
  cpu_kernel_rsp :: nat
  current_pid :: nat
  cr3 :: nat

record kernel =
  sched :: Scheduler
  next_thread_id :: nat
  context_switches :: nat
  current_thread_idx :: nat
  donate_target :: nat
  cpu :: cpu
  arena :: ArenaInner
  memory :: memory
  timer :: timer

definition upd_thread :: "nat \<Rightarrow> (Thread \<Rightarrow> Thread) \<Rightarrow> Scheduler \<Rightarrow> Scheduler" where
  "upd_thread i f s = s\<lparr>threads := (threads s)[i := f (threads s ! i)]\<rparr>"

definition set_state :: "nat \<Rightarrow> ThreadState \<Rightarrow> Scheduler \<Rightarrow> Scheduler" where
  "set_state i st = upd_thread i (\<lambda>t. t\<lparr>th_state := st\<rparr>)"

text \<open>\<^verbatim>\<open>&mut sched.threads[i]\<close> panics out of range.\<close>

definition with_thread :: "nat \<Rightarrow> Scheduler \<Rightarrow> (Thread \<Rightarrow> 'a res) \<Rightarrow> 'a res" where
  "with_thread i s f = (if i < length (threads s) then f (threads s ! i) else Inl IndexOutOfBounds)"

definition set_current_cr3 :: "nat \<Rightarrow> kernel \<Rightarrow> kernel res" where
  "set_current_cr3 pml4 k =
     (if initialized (sched k)
      then with_thread (current_idx (sched k)) (sched k) (\<lambda>_.
        Inr (k\<lparr>sched := upd_thread (current_idx (sched k)) (\<lambda>t. t\<lparr>th_pml4 := pml4\<rparr>) (sched k)\<rparr>))
      else Inr k)"

subsection \<open>Creating threads\<close>

text \<open>\<^verbatim>\<open>Iterator::position\<close>.\<close>

definition position :: "('a \<Rightarrow> bool) \<Rightarrow> 'a list \<Rightarrow> nat option" where
  "position P xs = List.find (\<lambda>i. P (xs ! i)) [0..<length xs]"

text \<open>Overwriting a slot drops the thread it held, and with it the stack that thread owned.\<close>

definition drop_thread :: "Thread \<Rightarrow> ArenaInner \<Rightarrow> ArenaInner" where
  "drop_thread t a = (case th_stack t of None \<Rightarrow> a | Some slot \<Rightarrow> drop_slot slot a)"

definition alloc_thread_slot :: "Thread \<Rightarrow> Scheduler \<Rightarrow> ArenaInner \<Rightarrow> nat \<times> Scheduler \<times> ArenaInner" where
  "alloc_thread_slot t s a =
     (case position (\<lambda>u. th_state u = Dead) (threads s) of
        Some idx \<Rightarrow> (idx, s\<lparr>threads := (threads s)[idx := t]\<rparr>, drop_thread (threads s ! idx) a)
      | None \<Rightarrow> (length (threads s), s\<lparr>threads := threads s @ [t]\<rparr>, a))"

record SwitchFrame =
  f_r15 :: nat  f_r14 :: nat  f_r13 :: nat  f_r12 :: nat
  f_r11 :: nat  f_r10 :: nat  f_r9 :: nat  f_r8 :: nat
  f_rbp :: nat  f_rdi :: nat  f_rsi :: nat
  f_rdx :: nat  f_rcx :: nat  f_rbx :: nat  f_rax :: nat
  f_rip :: nat  f_cs :: nat  f_rflags :: nat  f_rsp :: nat  f_ss :: nat

definition KERNEL_CS :: nat where
  [const_defs]: "KERNEL_CS = 0x08"

definition KERNEL_SS :: nat where
  [const_defs]: "KERNEL_SS = 0"

definition RFLAGS_IF :: nat where
  [const_defs]: "RFLAGS_IF = 0x202"

definition FXSAVE_SIZE :: nat where
  [const_defs]: "FXSAVE_SIZE = 512"

definition sizeof_SwitchFrame :: nat where
  [const_defs]: "sizeof_SwitchFrame = 160"

definition new_kernel :: "nat \<Rightarrow> nat \<Rightarrow> SwitchFrame res" where
  "new_kernel entry stack_top =
     bind_res (sub_u64 stack_top 8) (\<lambda>rsp.
     Inr \<lparr>f_r15 = 0, f_r14 = 0, f_r13 = 0, f_r12 = 0, f_r11 = 0, f_r10 = 0, f_r9 = 0, f_r8 = 0,
          f_rbp = 0, f_rdi = 0, f_rsi = 0, f_rdx = 0, f_rcx = 0, f_rbx = 0, f_rax = 0,
          f_rip = entry, f_cs = KERNEL_CS, f_rflags = RFLAGS_IF, f_rsp = rsp, f_ss = KERNEL_SS\<rparr>)"

text \<open>The trampolines are code addresses, passed in.\<close>

definition new_user_trampoline :: "nat \<Rightarrow> nat \<Rightarrow> nat \<Rightarrow> SwitchFrame res" where
  "new_user_trampoline process_trampoline pid stack_top =
     bind_res (sub_u64 stack_top 8) (\<lambda>rsp.
     Inr \<lparr>f_r15 = 0, f_r14 = 0, f_r13 = 0, f_r12 = 0, f_r11 = 0, f_r10 = 0, f_r9 = 0, f_r8 = 0,
          f_rbp = 0, f_rdi = pid, f_rsi = 0, f_rdx = 0, f_rcx = 0, f_rbx = 0, f_rax = 0,
          f_rip = process_trampoline, f_cs = KERNEL_CS, f_rflags = RFLAGS_IF, f_rsp = rsp,
          f_ss = KERNEL_SS\<rparr>)"

text \<open>The structure as it lies in memory (\<^verbatim>\<open>repr(C)\<close>: field after field).\<close>

definition frame_words :: "SwitchFrame \<Rightarrow> nat list" where
  "frame_words f =
     [f_r15 f, f_r14 f, f_r13 f, f_r12 f, f_r11 f, f_r10 f, f_r9 f, f_r8 f, f_rbp f, f_rdi f, f_rsi f,
      f_rdx f, f_rcx f, f_rbx f, f_rax f, f_rip f, f_cs f, f_rflags f, f_rsp f, f_ss f]"

text \<open>
  Placing a frame at the top of a stack, with the default MXCSR in the FXSAVE area below it: the
  address the thread resumes from, and the memory.
\<close>

definition place_frame :: "nat \<Rightarrow> SwitchFrame \<Rightarrow> memory \<Rightarrow> (nat \<times> memory) res" where
  "place_frame stack_top frame m =
     bind_res (sub_u64 stack_top sizeof_SwitchFrame) (\<lambda>a.
     bind_res (sub_u64 a FXSAVE_SIZE) (\<lambda>rsp.
     bind_res (add_u64 rsp FXSAVE_SIZE) (\<lambda>frame_ptr.
     bind_res (add_u64 rsp 24) (\<lambda>mxcsr_ptr.
       Inr (rsp, store_u32 mxcsr_ptr 0x1F80 (store_u64s frame_ptr (frame_words frame) m))))))"

definition add_thread :: "Thread \<Rightarrow> kernel \<Rightarrow> nat \<times> kernel" where
  "add_thread t k =
     (case alloc_thread_slot (t\<lparr>th_id := next_thread_id k\<rparr>) (sched k) (arena k) of (idx, s, ar) \<Rightarrow>
        (idx, k\<lparr>next_thread_id := next_thread_id k + 1, arena := ar,
                sched := s\<lparr>ready_queue := ready_queue s @ [idx]\<rparr>\<rparr>))"

definition spawn_thread :: "nat \<Rightarrow> kernel \<Rightarrow> kernel res" where
  "spawn_thread entry k =
     bind_res (arena_alloc (arena k) (memory k)) (\<lambda>(slot, ar, m).
     case slot of
       None \<Rightarrow> Inl UnwrapNone
     | Some stack \<Rightarrow>
         let stack_top = slot_top stack in
         bind_res (new_kernel entry stack_top) (\<lambda>frame.
         bind_res (place_frame stack_top frame m) (\<lambda>(rsp, m').
         Inr (snd (add_thread
           \<lparr>th_id = 0, th_state = Ready, saved_rsp = rsp, th_pml4 = cr3 (cpu k),
            ticks_remaining = QUANTUM_TICKS, th_stack = Some stack, th_kind = Kernel,
            kernel_stack_top = 0, th_user_rsp = 0, th_fs_base = 0\<rparr>
           (k\<lparr>arena := ar, memory := m'\<rparr>))))))"

text \<open>The process's kernel stack top is looked up in the process table; \<open>None\<close> is no such process.\<close>

definition spawn_user_thread :: "nat \<Rightarrow> nat option \<Rightarrow> nat \<Rightarrow> nat \<Rightarrow> kernel \<Rightarrow> (nat \<times> kernel) res" where
  "spawn_user_thread process_trampoline kstack_top pid pml4 k =
     (case kstack_top of
        None \<Rightarrow> Inl UnwrapNone
      | Some stack_top \<Rightarrow>
          bind_res (new_user_trampoline process_trampoline pid stack_top) (\<lambda>frame.
          bind_res (place_frame stack_top frame (memory k)) (\<lambda>(rsp, m').
          Inr (add_thread
            \<lparr>th_id = 0, th_state = Ready, saved_rsp = rsp, th_pml4 = pml4,
             ticks_remaining = QUANTUM_TICKS, th_stack = None, th_kind = UserProcess pid,
             kernel_stack_top = stack_top, th_user_rsp = 0, th_fs_base = 0\<rparr>
            (k\<lparr>memory := m'\<rparr>)))))"

definition spawn_clone_thread ::
  "nat \<Rightarrow> nat option \<Rightarrow> nat \<Rightarrow> nat \<Rightarrow> nat \<Rightarrow> nat \<Rightarrow> nat \<Rightarrow> nat \<Rightarrow> nat \<Rightarrow> kernel \<Rightarrow> (nat \<times> kernel) res" where
  "spawn_clone_thread clone_trampoline kstack_top pid pml4 user_rip child_stack user_rflags user_r9 fs k =
     (case kstack_top of
        None \<Rightarrow> Inl UnwrapNone
      | Some stack_top \<Rightarrow>
          bind_res (sub_u64 stack_top 8) (\<lambda>sp.
          bind_res (place_frame stack_top
            \<lparr>f_r15 = 0, f_r14 = 0, f_r13 = 0, f_r12 = 0, f_r11 = user_rflags, f_r10 = 0, f_r9 = 0,
             f_r8 = 0, f_rbp = 0, f_rdi = pid, f_rsi = user_rip, f_rdx = child_stack,
             f_rcx = user_r9, f_rbx = 0, f_rax = 0, f_rip = clone_trampoline, f_cs = KERNEL_CS,
             f_rflags = RFLAGS_IF, f_rsp = sp, f_ss = KERNEL_SS\<rparr> (memory k)) (\<lambda>(rsp, m').
          Inr (add_thread
            \<lparr>th_id = 0, th_state = Ready, saved_rsp = rsp, th_pml4 = pml4,
             ticks_remaining = QUANTUM_TICKS, th_stack = None, th_kind = UserProcess pid,
             kernel_stack_top = stack_top, th_user_rsp = child_stack, th_fs_base = fs\<rparr>
            (k\<lparr>memory := m'\<rparr>)))))"

text \<open>
  \<^verbatim>\<open>migrate_to_heap_stack\<close>: the boot thread moves to an arena stack that is never freed; the result
  is the stack pointer the continuation starts with.
\<close>

definition migrate_to_heap_stack :: "kernel \<Rightarrow> (nat \<times> kernel) res" where
  "migrate_to_heap_stack k =
     bind_res (arena_alloc (arena k) (memory k)) (\<lambda>(slot, ar, m).
     case slot of
       None \<Rightarrow> Inl UnwrapNone
     | Some stack \<Rightarrow> Inr (slot_top stack, k\<lparr>arena := ar, memory := m\<rparr>))"

definition scheduler_init :: "nat \<Rightarrow> kernel \<Rightarrow> kernel res" where
  "scheduler_init idle_thread_main k =
     (let s = sched k;
          boot = \<lparr>th_id = next_thread_id k, th_state = Running, saved_rsp = 0, th_pml4 = cr3 (cpu k),
                  ticks_remaining = QUANTUM_TICKS, th_stack = None, th_kind = Kernel,
                  kernel_stack_top = 0, th_user_rsp = 0, th_fs_base = 0\<rparr>;
          s1 = s\<lparr>threads := threads s @ [boot], current_idx := 0, initialized := True\<rparr>
      in bind_res (spawn_thread idle_thread_main
             (k\<lparr>sched := s1, next_thread_id := next_thread_id k + 1\<rparr>)) (\<lambda>k2.
         if ready_queue (sched k2) = [] then Inl UnwrapNone
         else
           let idle_idx = last (ready_queue (sched k2));
               s3 = (sched k2)\<lparr>ready_queue := butlast (ready_queue (sched k2)),
                               idle_thread_idx := idle_idx\<rparr>
           in with_thread idle_idx s3 (\<lambda>_. Inr (k2\<lparr>sched := set_state idle_idx Ready s3\<rparr>))))"

subsection \<open>Blocking and unblocking\<close>

definition is_thread_dead :: "nat \<Rightarrow> kernel \<Rightarrow> bool" where
  "is_thread_dead idx k \<longleftrightarrow>
     (idx < length (threads (sched k)) \<longrightarrow> th_state (threads (sched k) ! idx) = Dead)"

text \<open>The first half of \<^verbatim>\<open>kill_current_thread\<close>; the second is a yield that never returns.\<close>

definition mark_dead :: "kernel \<Rightarrow> kernel res" where
  "mark_dead k =
     with_thread (current_idx (sched k)) (sched k) (\<lambda>_.
       Inr (k\<lparr>sched := set_state (current_idx (sched k)) Dead (sched k)\<rparr>))"

definition mark_blocked :: "kernel \<Rightarrow> kernel res" where
  "mark_blocked k =
     with_thread (current_idx (sched k)) (sched k) (\<lambda>_.
       Inr (k\<lparr>sched := set_state (current_idx (sched k)) Blocked (sched k)\<rparr>))"

definition unblock :: "nat \<Rightarrow> kernel \<Rightarrow> kernel" where
  "unblock i k =
     (let s = sched k in
      if i < length (threads s) \<and> th_state (threads s ! i) = Blocked
      then k\<lparr>sched := (set_state i Ready s)\<lparr>ready_queue := ready_queue s @ [i]\<rparr>\<rparr>
      else k)"

definition set_donate_target :: "nat \<Rightarrow> kernel \<Rightarrow> kernel" where
  "set_donate_target i k = k\<lparr>donate_target := i\<rparr>"

subsection \<open>Switching\<close>

definition save_current_context :: "Thread \<Rightarrow> nat \<Rightarrow> cpu \<Rightarrow> Thread" where
  "save_current_context t rsp c =
     t\<lparr>saved_rsp := rsp, th_user_rsp := cpu_user_rsp c, th_fs_base := cpu_fs_base c\<rparr>"

record SwitchTarget =
  next_rsp :: nat
  next_user_rsp :: nat
  next_fs_base :: nat
  cur_pml4 :: nat
  next_pml4 :: nat
  next_kind :: SchedulableKind
  next_kstack_top :: nat
  next_idx :: nat

definition restore_thread_state :: "SwitchTarget \<Rightarrow> kernel \<Rightarrow> kernel" where
  "restore_thread_state tgt k =
     (let c1 = (cpu k)\<lparr>cpu_user_rsp := next_user_rsp tgt, cpu_fs_base := next_fs_base tgt\<rparr>;
          c2 = (case next_kind tgt of
                  UserProcess pid \<Rightarrow>
                    c1\<lparr>tss_rsp0 := next_kstack_top tgt, cpu_kernel_rsp := next_kstack_top tgt,
                       current_pid := pid\<rparr>
                | Kernel \<Rightarrow> c1\<lparr>current_pid := KERNEL_PID\<rparr>);
          c3 = (if next_pml4 tgt \<noteq> cur_pml4 tgt then c2\<lparr>cr3 := next_pml4 tgt\<rparr> else c2)
      in k\<lparr>cpu := c3, context_switches := context_switches k + 1,
           current_thread_idx := next_idx tgt\<rparr>)"

definition requeue_current :: "nat \<Rightarrow> Scheduler \<Rightarrow> Scheduler" where
  "requeue_current cur s =
     (if is_runnable (th_state (threads s ! cur))
      then (set_state cur Ready s)\<lparr>ready_queue := ready_queue s @ [cur]\<rparr> else s)"

definition pop_ready :: "Scheduler \<Rightarrow> nat \<times> Scheduler" where
  "pop_ready s =
     (case ready_queue s of
        [] \<Rightarrow> (idle_thread_idx s, s)
      | i # q \<Rightarrow> (i, s\<lparr>ready_queue := q\<rparr>))"

definition switch_to :: "nat \<Rightarrow> nat \<Rightarrow> nat \<Rightarrow> kernel \<Rightarrow> (nat \<times> kernel) res" where
  "switch_to cur nxt rsp k =
     (let s = sched k; run = (\<lambda>t. t\<lparr>th_state := Running, ticks_remaining := QUANTUM_TICKS\<rparr>) in
      if nxt = cur then Inr (rsp, k\<lparr>sched := upd_thread cur run s\<rparr>)
      else with_thread nxt s (\<lambda>_.
        let s' = upd_thread nxt run (s\<lparr>current_idx := nxt\<rparr>);
            n = threads s' ! nxt;
            tgt = \<lparr>next_rsp = saved_rsp n, next_user_rsp = th_user_rsp n, next_fs_base = th_fs_base n,
                   cur_pml4 = th_pml4 (threads s' ! cur), next_pml4 = th_pml4 n, next_kind = th_kind n,
                   next_kstack_top = kernel_stack_top n, next_idx = nxt\<rparr>
        in Inr (next_rsp tgt, restore_thread_state tgt (k\<lparr>sched := s'\<rparr>))))"

text \<open>
  Save the current thread, requeue it if it is runnable, pick the next and switch; the timer and
  the yield differ in how they pick.
\<close>

definition suspend_current :: "nat \<Rightarrow> kernel \<Rightarrow> Scheduler" where
  "suspend_current rsp k =
     (let s = sched k; cur = current_idx s
      in requeue_current cur (upd_thread cur (\<lambda>t. save_current_context t rsp (cpu k)) s))"

definition reschedule ::
  "(Scheduler \<Rightarrow> nat \<times> Scheduler) \<Rightarrow> nat \<Rightarrow> kernel \<Rightarrow> (nat \<times> kernel) res" where
  "reschedule pick rsp k =
     (let cur = current_idx (sched k); (nxt, s) = pick (suspend_current rsp k)
      in switch_to cur nxt rsp (k\<lparr>sched := s\<rparr>))"

text \<open>
  The timer interrupt. (Acknowledging the interrupt at the local APIC changes no state modelled
  here.)
\<close>

definition preempt_tick :: "nat \<Rightarrow> kernel \<Rightarrow> (nat \<times> kernel) res" where
  "preempt_tick rsp k0 =
     (let k = k0\<lparr>timer := tick (timer k0)\<rparr>; s = sched k; cur = current_idx s
      in if \<not> initialized s then Inr (rsp, k)
         else with_thread cur s (\<lambda>t.
           if is_runnable (th_state t) then
             bind_res (sub_u64 (ticks_remaining t) 1) (\<lambda>n.
             let k1 = k\<lparr>sched := upd_thread cur (\<lambda>t. t\<lparr>ticks_remaining := n\<rparr>) s\<rparr>
             in if 0 < n then Inr (rsp, k1) else reschedule pop_ready rsp k1)
           else reschedule pop_ready rsp k))"

text \<open>The donate target, when it is ready, is taken off the queue at its first position.\<close>

definition pick_donate :: "nat \<Rightarrow> Scheduler \<Rightarrow> nat \<times> Scheduler" where
  "pick_donate donate s =
     (if donate \<noteq> usize_MAX \<and> donate < length (threads s) \<and> th_state (threads s ! donate) = Ready
      then (donate, s\<lparr>ready_queue := remove1 donate (ready_queue s)\<rparr>)
      else pop_ready s)"

definition yield_tick :: "nat \<Rightarrow> kernel \<Rightarrow> (nat \<times> kernel) res" where
  "yield_tick rsp k =
     (if \<not> initialized (sched k) then Inr (rsp, k)
      else with_thread (current_idx (sched k)) (sched k) (\<lambda>_.
        reschedule (pick_donate (donate_target k)) rsp (k\<lparr>donate_target := usize_MAX\<rparr>)))"

text \<open>
  The calls built from a yield: \<open>rsp\<close> is the stack pointer the yield stub saved. What is returned
  is the stack pointer of the thread that runs next.
\<close>

definition block_current_thread :: "nat \<Rightarrow> kernel \<Rightarrow> (nat \<times> kernel) res" where
  "block_current_thread rsp k = bind_res (mark_blocked k) (yield_tick rsp)"

definition kill_current_thread :: "nat \<Rightarrow> kernel \<Rightarrow> (nat \<times> kernel) res" where
  "kill_current_thread rsp k = bind_res (mark_dead k) (yield_tick rsp)"

definition unblock_yield :: "nat \<Rightarrow> nat \<Rightarrow> kernel \<Rightarrow> (nat \<times> kernel) res" where
  "unblock_yield i rsp k = yield_tick rsp (set_donate_target i (unblock i k))"

text \<open>
  \<^verbatim>\<open>WaitCondition::wait_while\<close> up to the yield: with a guard (the condition does not hold), register the
  current thread and mark it blocked, all under the caller's lock; the caller then yields.
\<close>

definition wait_while :: "'g option \<Rightarrow> (nat \<Rightarrow> 'g \<Rightarrow> 'g) \<Rightarrow> kernel \<Rightarrow> ('g option \<times> kernel) res" where
  "wait_while guard register k =
     (case guard of
        None \<Rightarrow> Inr (None, k)
      | Some g \<Rightarrow>
          bind_res (mark_blocked k) (\<lambda>k'. Inr (Some (register (current_thread_idx k) g), k')))"

subsection \<open>The scheduler's invariant\<close>

text \<open>
  Indices are in range, only the current thread is running, and a ready thread is on the ready
  queue unless it is the idle thread. \<open>sched_core s n\<close> allows the thread
  \<open>n\<close> to have been taken off the queue.
\<close>

definition sched_core :: "Scheduler \<Rightarrow> nat option \<Rightarrow> bool" where
  "sched_core s n \<longleftrightarrow>
     initialized s \<and> current_idx s < length (threads s) \<and> idle_thread_idx s < length (threads s)
     \<and> (\<forall>i \<in> set (ready_queue s). i < length (threads s))
     \<and> (\<forall>i < length (threads s). th_state (threads s ! i) = Running \<longrightarrow> i = current_idx s)
     \<and> (\<forall>i < length (threads s). th_state (threads s ! i) = Ready \<longrightarrow>
          i \<in> set (ready_queue s) \<or> i = idle_thread_idx s \<or> n = Some i)"

definition sched_inv :: "kernel \<Rightarrow> bool" where
  "sched_inv k \<longleftrightarrow>
     sched_core (sched k) None
     \<and> 0 < ticks_remaining (threads (sched k) ! current_idx (sched k))
     \<and> current_thread_idx k = current_idx (sched k)"

lemma upd_thread_simps [simp]:
  "threads (upd_thread i f s) = (threads s)[i := f (threads s ! i)]"
  "ready_queue (upd_thread i f s) = ready_queue s"
  "current_idx (upd_thread i f s) = current_idx s"
  "idle_thread_idx (upd_thread i f s) = idle_thread_idx s"
  "initialized (upd_thread i f s) = initialized s"
  by (simp_all add: upd_thread_def)

lemma set_state_simps [simp]:
  "threads (set_state i st s) = (threads s)[i := (threads s ! i)\<lparr>th_state := st\<rparr>]"
  "ready_queue (set_state i st s) = ready_queue s"
  "current_idx (set_state i st s) = current_idx s"
  "idle_thread_idx (set_state i st s) = idle_thread_idx s"
  "initialized (set_state i st s) = initialized s"
  by (simp_all add: set_state_def)

lemma save_context_state [simp]:
  "th_state (save_current_context t rsp c) = th_state t"
  "ticks_remaining (save_current_context t rsp c) = ticks_remaining t"
  "th_pml4 (save_current_context t rsp c) = th_pml4 t"
  "th_kind (save_current_context t rsp c) = th_kind t"
  "kernel_stack_top (save_current_context t rsp c) = kernel_stack_top t"
  "th_stack (save_current_context t rsp c) = th_stack t"
  by (simp_all add: save_current_context_def)

lemma sched_core_upd_keep:
  assumes "sched_core s n" and "\<And>t. th_state (f t) = th_state t"
  shows "sched_core (upd_thread i f s) n"
  using assms by (auto simp: sched_core_def nth_list_update_if)

lemma sched_coreD:
  assumes "sched_core s n"
  shows "initialized s" and "current_idx s < length (threads s)" and "idle_thread_idx s < length (threads s)"
    and "\<And>i. i \<in> set (ready_queue s) \<Longrightarrow> i < length (threads s)"
    and "\<And>i. i < length (threads s) \<Longrightarrow> th_state (threads s ! i) = Running \<Longrightarrow> i = current_idx s"
    and "\<And>i. i < length (threads s) \<Longrightarrow> th_state (threads s ! i) = Ready \<Longrightarrow>
          i \<in> set (ready_queue s) \<or> i = idle_thread_idx s \<or> n = Some i"
  using assms by (simp_all add: sched_core_def)

text \<open>Making a thread ready and queueing it.\<close>

lemma make_ready_core:
  assumes "sched_core s n" and "i < length (threads s)"
  shows "sched_core ((set_state i Ready s)\<lparr>ready_queue := ready_queue s @ [i]\<rparr>) n"
  unfolding sched_core_def
  using sched_coreD [OF assms(1)] assms(2)
  by (intro conjI allI ballI impI) (auto simp: nth_list_update_if is_runnable_def split: if_splits)

lemma requeue_current_simps [simp]:
  "length (threads (requeue_current cur s)) = length (threads s)"
  "current_idx (requeue_current cur s) = current_idx s"
  "idle_thread_idx (requeue_current cur s) = idle_thread_idx s"
  "initialized (requeue_current cur s) = initialized s"
  by (simp_all add: requeue_current_def)

lemma requeue_core:
  assumes "sched_core s None"
  shows "sched_core (requeue_current (current_idx s) s) None"
    and "\<forall>i < length (threads s). th_state (threads (requeue_current (current_idx s) s) ! i) \<noteq> Running"
proof -
  let ?cur = "current_idx s" and ?ts = "threads s"
  have run: "th_state (?ts ! i) = Running \<Longrightarrow> i = ?cur" if "i < length ?ts" for i
    using assms that by (auto simp: sched_core_def)
  show "\<forall>i < length ?ts. th_state (threads (requeue_current ?cur s) ! i) \<noteq> Running"
    using run by (auto simp: requeue_current_def is_runnable_def nth_list_update_if)
  show "sched_core (requeue_current ?cur s) None"
    using make_ready_core [OF assms sched_coreD(2) [OF assms]] assms by (simp add: requeue_current_def)
qed

lemma dequeue_core:
  assumes "sched_core s None" and "\<And>i. i \<in> set q \<Longrightarrow> i \<in> set (ready_queue s)"
    and "\<And>i. i \<in> set (ready_queue s) \<Longrightarrow> i \<in> set q \<or> i = nxt"
  shows "sched_core (s\<lparr>ready_queue := q\<rparr>) (Some nxt)"
  unfolding sched_core_def
  using sched_coreD [OF assms(1)] assms(2,3)
  by (intro conjI allI ballI impI) (simp_all, blast+)

lemma sched_core_weaken: "sched_core s None \<Longrightarrow> sched_core s n"
  unfolding sched_core_def by blast

lemma pop_ready_core:
  assumes "sched_core s None" and "pop_ready s = (nxt, s')"
  shows "sched_core s' (Some nxt) \<and> nxt < length (threads s') \<and> threads s' = threads s
       \<and> current_idx s' = current_idx s"
proof (cases "ready_queue s")
  case Nil
  then show ?thesis
    using assms sched_coreD(3) [OF assms(1)] sched_core_weaken [OF assms(1)] by (auto simp: pop_ready_def)
next
  case (Cons i q)
  then show ?thesis
    using assms(2) sched_coreD(4) [OF assms(1)] dequeue_core [OF assms(1), of q nxt]
    by (auto simp: pop_ready_def)
qed

lemma pick_donate_core:
  assumes "sched_core s None" and "pick_donate d s = (nxt, s')"
  shows "sched_core s' (Some nxt) \<and> nxt < length (threads s') \<and> threads s' = threads s
       \<and> current_idx s' = current_idx s"
proof (cases "d \<noteq> usize_MAX \<and> d < length (threads s) \<and> th_state (threads s ! d) = Ready")
  case True
  have "i \<in> set (remove1 d (ready_queue s)) \<or> i = d" if "i \<in> set (ready_queue s)" for i
    using that by (cases "i = d") simp_all
  then show ?thesis
    using True assms(2) dequeue_core [OF assms(1), of "remove1 d (ready_queue s)" d]
      set_remove1_subset [of d "ready_queue s"]
    by (auto simp: pick_donate_def)
next
  case False
  then have "pick_donate d s = pop_ready s" by (auto simp: pick_donate_def)
  then show ?thesis using assms pop_ready_core [of s nxt s'] by metis
qed

text \<open>Dispatching: the thread taken off the queue becomes the one running thread.\<close>

lemma switch_to_inv:
  assumes core: "sched_core (sched k) (Some nxt)" and nxt: "nxt < length (threads (sched k))"
    and idle: "\<forall>i < length (threads (sched k)). th_state (threads (sched k) ! i) \<noteq> Running"
    and cur: "cur = current_idx (sched k)" "current_thread_idx k = cur"
  shows "\<exists>r k'. switch_to cur nxt rsp k = Inr (r, k') \<and> sched_inv k' \<and> current_idx (sched k') = nxt
       \<and> ready_queue (sched k') = ready_queue (sched k) \<and> donate_target k' = donate_target k
       \<and> ticks_remaining (threads (sched k') ! nxt) = QUANTUM_TICKS"
proof -
  let ?run = "\<lambda>t. t\<lparr>th_state := Running, ticks_remaining := QUANTUM_TICKS\<rparr>"
  let ?s = "upd_thread nxt ?run ((sched k)\<lparr>current_idx := nxt\<rparr>)"
  have "sched_core ?s None"
    unfolding sched_core_def
    using sched_coreD [OF core] nxt idle
    by (intro conjI allI ballI impI) (auto simp: nth_list_update_if is_runnable_def split: if_splits)
  moreover have "0 < QUANTUM_TICKS" by (simp add: const_defs)
  moreover have "nxt = cur \<Longrightarrow> ?s = upd_thread cur ?run (sched k)"
    using cur by (simp add: upd_thread_def)
  ultimately show ?thesis
    using nxt cur
    by (auto simp: switch_to_def Let_def with_thread_def sched_inv_def restore_thread_state_def)
qed

text \<open>
  What the switch relies on: the picking policy keeps the invariant up to the thread it takes off
  the queue, and touches nothing but the queue.
\<close>

locale pick_policy =
  fixes pick :: "Scheduler \<Rightarrow> nat \<times> Scheduler"
  assumes pick_core: "sched_core s None \<Longrightarrow> pick s = (nxt, s') \<Longrightarrow>
      sched_core s' (Some nxt) \<and> nxt < length (threads s') \<and> threads s' = threads s
      \<and> current_idx s' = current_idx s"
begin

lemma reschedule_ok:
  assumes "sched_core (sched k) None" and "current_thread_idx k = current_idx (sched k)"
  shows "\<exists>r k'. reschedule pick rsp k = Inr (r, k') \<and> sched_inv k'
       \<and> current_idx (sched k') = fst (pick (suspend_current rsp k))
       \<and> ready_queue (sched k') = ready_queue (snd (pick (suspend_current rsp k)))
       \<and> donate_target k' = donate_target k
       \<and> ticks_remaining (threads (sched k') ! current_idx (sched k')) = QUANTUM_TICKS"
proof -
  let ?cur = "current_idx (sched k)" and ?s2 = "suspend_current rsp k"
  let ?s1 = "upd_thread ?cur (\<lambda>t. save_current_context t rsp (cpu k)) (sched k)"
  have c1: "sched_core ?s1 None" using assms(1) by (rule sched_core_upd_keep) simp
  have c2: "sched_core ?s2 None" "\<forall>i < length (threads ?s2). th_state (threads ?s2 ! i) \<noteq> Running"
    "current_idx ?s2 = ?cur"
    using requeue_core [OF c1] by (simp_all add: suspend_current_def Let_def)
  obtain nxt s3 where p: "pick ?s2 = (nxt, s3)" by fastforce
  with pick_core [OF c2(1) p] c2(2,3) assms(2)
    switch_to_inv [of "k\<lparr>sched := s3\<rparr>" nxt ?cur rsp]
  show ?thesis by (auto simp: reschedule_def Let_def)
qed

end

text \<open>The saved registers of a thread.\<close>

definition saved_context :: "nat \<Rightarrow> kernel \<Rightarrow> nat \<times> nat \<times> nat" where
  "saved_context i k =
     (let t = threads (sched k) ! i in (saved_rsp t, th_user_rsp t, th_fs_base t))"

lemma switch_to_context:
  assumes "switch_to cur nxt rsp k = Inr (r, k')" and "nxt \<noteq> cur"
  shows "current_idx (sched k') = nxt" and "\<And>i. saved_context i k' = saved_context i k"
    and "(r, cpu_user_rsp (cpu k'), cpu_fs_base (cpu k')) = saved_context nxt k"
  using assms
  by (auto simp: switch_to_def Let_def with_thread_def restore_thread_state_def saved_context_def
      nth_list_update_if split: if_splits SchedulableKind.splits)

context pick_policy
begin

lemma reschedule_context:
  assumes "sched_core (sched k) None" and "reschedule pick rsp k = Inr (r, k')"
    and "current_idx (sched k') \<noteq> current_idx (sched k)"
  shows "saved_context (current_idx (sched k)) k' = (rsp, cpu_user_rsp (cpu k), cpu_fs_base (cpu k))"
    and "(r, cpu_user_rsp (cpu k'), cpu_fs_base (cpu k')) = saved_context (current_idx (sched k')) k"
    and "\<And>i. i \<noteq> current_idx (sched k) \<Longrightarrow> saved_context i k' = saved_context i k"
proof -
  let ?cur = "current_idx (sched k)" and ?s = "suspend_current rsp k"
  obtain nxt s' where p: "pick ?s = (nxt, s')" by fastforce
  have c: "sched_core ?s None" "current_idx ?s = ?cur"
    using requeue_core(1) [OF sched_core_upd_keep [OF assms(1)]] by (simp_all add: suspend_current_def Let_def)
  have sw: "switch_to ?cur nxt rsp (k\<lparr>sched := s'\<rparr>) = Inr (r, k')"
    using assms(2) p by (simp add: reschedule_def)
  have "threads s' = threads ?s" "current_idx s' = ?cur" using pick_core [OF c(1) p] c(2) by simp_all
  then have sus: "saved_context ?cur (k\<lparr>sched := s'\<rparr>) = (rsp, cpu_user_rsp (cpu k), cpu_fs_base (cpu k))"
    "\<And>i. i \<noteq> ?cur \<Longrightarrow> saved_context i (k\<lparr>sched := s'\<rparr>) = saved_context i k"
    using sched_coreD(2) [OF assms(1)]
    by (simp_all add: saved_context_def suspend_current_def requeue_current_def save_current_context_def Let_def)
  have ne: "nxt \<noteq> ?cur"
    using sw assms(3) \<open>current_idx s' = ?cur\<close> by (auto simp: switch_to_def)
  note t = switch_to_context [OF sw ne]
  show "saved_context ?cur k' = (rsp, cpu_user_rsp (cpu k), cpu_fs_base (cpu k))"
    and "(r, cpu_user_rsp (cpu k'), cpu_fs_base (cpu k')) = saved_context (current_idx (sched k')) k"
    and "\<And>i. i \<noteq> ?cur \<Longrightarrow> saved_context i k' = saved_context i k"
    using t sus ne by simp_all
qed

lemma reschedule_stays:
  assumes "reschedule pick rsp k = Inr (r, k')" and "current_idx (sched k') = current_idx (sched k)"
    and "sched_core (sched k) None" and "i \<noteq> current_idx (sched k)"
  shows "saved_context i k' = saved_context i k"
proof -
  let ?cur = "current_idx (sched k)" and ?s = "suspend_current rsp k"
  obtain nxt s' where p: "pick ?s = (nxt, s')" by fastforce
  have c: "sched_core ?s None"
    using requeue_core(1) [OF sched_core_upd_keep [OF assms(3)]] by (simp add: suspend_current_def Let_def)
  have sw: "switch_to ?cur nxt rsp (k\<lparr>sched := s'\<rparr>) = Inr (r, k')"
    using assms(1) p by (simp add: reschedule_def)
  moreover have "nxt = ?cur" using switch_to_context(1) [OF sw] assms(2) by auto
  ultimately show ?thesis
    using pick_core [OF c p] assms(4)
    by (auto simp: switch_to_def saved_context_def suspend_current_def requeue_current_def Let_def)
qed

end

interpretation round_robin: pick_policy pop_ready
  by unfold_locales (rule pop_ready_core)

interpretation donating: pick_policy "pick_donate d" for d
  by unfold_locales (rule pick_donate_core)

text \<open>
  What a timer tick does to the queue: the quantum is counted down, or the head of the queue
  takes over with a fresh one.
\<close>

lemma suspend_queue:
  "ready_queue (suspend_current rsp k) = ready_queue (sched k) \<or>
   ready_queue (suspend_current rsp k) = ready_queue (sched k) @ [current_idx (sched k)]"
  by (simp add: suspend_current_def requeue_current_def Let_def)

lemma pop_ready_nonempty: "ready_queue s \<noteq> [] \<Longrightarrow> pop_ready s = (hd (ready_queue s), s\<lparr>ready_queue := tl (ready_queue s)\<rparr>)"
  by (cases "ready_queue s") (simp_all add: pop_ready_def)

definition head_takes_over :: "kernel \<Rightarrow> kernel \<Rightarrow> bool" where
  "head_takes_over k k' \<longleftrightarrow>
     (ready_queue (sched k) \<noteq> [] \<longrightarrow> current_idx (sched k') = hd (ready_queue (sched k))
        \<and> (ready_queue (sched k') = tl (ready_queue (sched k))
           \<or> ready_queue (sched k') = tl (ready_queue (sched k)) @ [current_idx (sched k)]))
     \<and> ticks_remaining (threads (sched k') ! current_idx (sched k')) = QUANTUM_TICKS"

lemma reschedule_round_robin:
  assumes "sched_core (sched k) None" and "current_thread_idx k = current_idx (sched k)"
  shows "\<exists>r k'. reschedule pop_ready rsp k = Inr (r, k') \<and> sched_inv k' \<and> donate_target k' = donate_target k
       \<and> head_takes_over k k'"
  using round_robin.reschedule_ok [OF assms, of rsp] suspend_queue [of rsp k]
  by (auto simp: head_takes_over_def pop_ready_nonempty)

lemma preempt_tick_inv:
  assumes "sched_inv k"
  shows "\<exists>r k'. preempt_tick rsp k = Inr (r, k') \<and> sched_inv k' \<and> donate_target k' = donate_target k
       \<and> (head_takes_over k k' \<or>
          ready_queue (sched k') = ready_queue (sched k) \<and> current_idx (sched k') = current_idx (sched k)
          \<and> Suc (ticks_remaining (threads (sched k') ! current_idx (sched k')))
              = ticks_remaining (threads (sched k) ! current_idx (sched k)))"
proof -
  let ?k = "k\<lparr>timer := tick (timer k)\<rparr>" and ?cur = "current_idx (sched k)"
  let ?k1 = "?k\<lparr>sched := upd_thread ?cur (\<lambda>t. t\<lparr>ticks_remaining := ticks_remaining (threads (sched k) ! ?cur) - 1\<rparr>) (sched k)\<rparr>"
  have c: "sched_core (sched k) None" "0 < ticks_remaining (threads (sched k) ! ?cur)"
    "current_thread_idx k = ?cur"
    using assms by (simp_all add: sched_inv_def)
  have r: "sched_core (sched ?k1) None" using c(1) by (auto intro: sched_core_upd_keep)
  have h: "head_takes_over (k\<lparr>timer := x, sched := upd_thread i f (sched k)\<rparr>) k' = head_takes_over k k'"
    "head_takes_over (k\<lparr>timer := x\<rparr>) k' = head_takes_over k k'" for k' x i f
    by (simp_all add: head_takes_over_def)
  show ?thesis
    using c sched_coreD(1,2) [OF c(1)] r reschedule_round_robin [of ?k rsp] reschedule_round_robin [of ?k1 rsp]
    by (auto simp: preempt_tick_def Let_def with_thread_def sub_u64_def sched_inv_def h)
qed

lemma yield_tick_inv:
  assumes "sched_inv k"
  shows "\<exists>r k'. yield_tick rsp k = Inr (r, k') \<and> sched_inv k' \<and> donate_target k' = usize_MAX
       \<and> (donate_target k = usize_MAX \<longrightarrow> head_takes_over k k')"
proof -
  let ?k = "k\<lparr>donate_target := usize_MAX\<rparr>"
  have c: "sched_core (sched k) None" "current_thread_idx k = current_idx (sched k)"
    using assms by (simp_all add: sched_inv_def)
  have "pick_donate usize_MAX = pop_ready" by (rule ext) (simp add: pick_donate_def)
  moreover have "head_takes_over ?k k' = head_takes_over k k'" for k'
    by (simp add: head_takes_over_def)
  ultimately show ?thesis
    using c sched_coreD(1,2) [OF c(1)] donating.reschedule_ok [of ?k "donate_target k" rsp]
      reschedule_round_robin [of ?k rsp]
    by (auto simp: yield_tick_def with_thread_def)
qed

lemma set_state_not_ready_core:
  assumes "sched_core s n" and "st = Blocked \<or> st = Dead"
  shows "sched_core (set_state i st s) n"
  unfolding sched_core_def
  using sched_coreD [OF assms(1)] assms(2)
  by (intro conjI allI ballI impI) (auto simp: nth_list_update_if split: if_splits)

lemma mark_inv:
  assumes "sched_inv k" and "f = mark_blocked \<or> f = mark_dead"
  shows "\<exists>k'. f k = Inr k' \<and> sched_inv k' \<and> ready_queue (sched k') = ready_queue (sched k)
       \<and> current_idx (sched k') = current_idx (sched k) \<and> donate_target k' = donate_target k
       \<and> ticks_remaining (threads (sched k') ! current_idx (sched k'))
           = ticks_remaining (threads (sched k) ! current_idx (sched k))"
  using assms sched_coreD(2) [of "sched k" None]
  by (auto simp: sched_inv_def mark_blocked_def mark_dead_def with_thread_def set_state_not_ready_core)

lemma unblock_inv:
  assumes "sched_inv k"
  shows "sched_inv (unblock i k)"
  using assms make_ready_core [of "sched k" None i]
  by (auto simp: sched_inv_def unblock_def Let_def nth_list_update_if)

lemma unblock_queue:
  "ready_queue (sched (unblock i k)) = ready_queue (sched k) \<or>
   ready_queue (sched (unblock i k)) = ready_queue (sched k) @ [i]"
  "current_idx (sched (unblock i k)) = current_idx (sched k)"
  "donate_target (unblock i k) = donate_target k"
  "ticks_remaining (threads (sched (unblock i k)) ! j) = ticks_remaining (threads (sched k) ! j)"
  by (auto simp: unblock_def Let_def nth_list_update_if)

subsection \<open>Bounded waiting\<close>

text \<open>
  What happens between two thread creations, without donation: the operations, and ordinary
  execution, which may leave any values in the registers.
\<close>

datatype sched_event = Tick nat | Yield nat | MarkBlocked | MarkDead | Unblock nat | Execute cpu

fun sched_exec :: "sched_event \<Rightarrow> kernel \<Rightarrow> kernel res" where
  "sched_exec (Tick rsp) k = bind_res (preempt_tick rsp k) (\<lambda>(_, k'). Inr k')"
| "sched_exec (Yield rsp) k = bind_res (yield_tick rsp k) (\<lambda>(_, k'). Inr k')"
| "sched_exec MarkBlocked k = mark_blocked k"
| "sched_exec MarkDead k = mark_dead k"
| "sched_exec (Unblock i) k = Inr (unblock i k)"
| "sched_exec (Execute c) k = Inr (k\<lparr>cpu := c\<rparr>)"

fun sched_run :: "sched_event list \<Rightarrow> kernel \<Rightarrow> kernel res" where
  "sched_run [] k = Inr k"
| "sched_run (e # es) k = bind_res (sched_exec e k) (sched_run es)"

definition is_tick :: "sched_event \<Rightarrow> bool" where
  "is_tick e \<longleftrightarrow> (case e of Tick _ \<Rightarrow> True | _ \<Rightarrow> False)"

definition queue_pos :: "nat \<Rightarrow> nat list \<Rightarrow> nat" where
  "queue_pos j q = length (takeWhile (\<lambda>i. i \<noteq> j) q)"

text \<open>The ticks a queued thread waits at most.\<close>

definition wait_bound :: "nat \<Rightarrow> kernel \<Rightarrow> nat" where
  "wait_bound j k =
     queue_pos j (ready_queue (sched k)) * QUANTUM_TICKS
     + ticks_remaining (threads (sched k) ! current_idx (sched k))"

lemma queue_pos_append [simp]: "j \<in> set q \<Longrightarrow> queue_pos j (q @ r) = queue_pos j q"
  by (simp add: queue_pos_def takeWhile_append1)

lemma queue_pos_Cons: "queue_pos j (i # q) = (if i = j then 0 else Suc (queue_pos j q))"
  by (simp add: queue_pos_def)

lemma head_takes_over_progress:
  assumes "head_takes_over k k'" and "j \<in> set (ready_queue (sched k))"
    and "0 < ticks_remaining (threads (sched k) ! current_idx (sched k))"
  shows "current_idx (sched k') = j \<or> j \<in> set (ready_queue (sched k')) \<and> wait_bound j k' < wait_bound j k"
proof -
  from assms(2) obtain i q where q: "ready_queue (sched k) = i # q" by (cases "ready_queue (sched k)") auto
  then have c: "current_idx (sched k') = i"
    and r: "ready_queue (sched k') = q \<or> ready_queue (sched k') = q @ [current_idx (sched k)]"
    and t: "ticks_remaining (threads (sched k') ! i) = QUANTUM_TICKS"
    using assms(1) by (auto simp: head_takes_over_def)
  show ?thesis
  proof (cases "i = j")
    case False
    with q assms(2) have j: "j \<in> set q" by simp
    then have "queue_pos j (ready_queue (sched k')) = queue_pos j q" using r by auto
    with j r t c q False assms(3) show ?thesis by (auto simp: wait_bound_def queue_pos_Cons)
  qed (simp add: c)
qed

lemma sched_exec_progress:
  assumes "sched_inv k" and "donate_target k = usize_MAX" and j: "j \<in> set (ready_queue (sched k))"
  shows "\<exists>k'. sched_exec e k = Inr k' \<and> sched_inv k' \<and> donate_target k' = usize_MAX
       \<and> (current_idx (sched k') = j \<or>
          j \<in> set (ready_queue (sched k')) \<and> wait_bound j k' + (if is_tick e then 1 else 0) \<le> wait_bound j k)"
proof -
  have t: "0 < ticks_remaining (threads (sched k) ! current_idx (sched k))"
    using assms(1) by (simp add: sched_inv_def)
  note prog = head_takes_over_progress [OF _ j t]
  show ?thesis
  proof (cases e)
    case (Tick rsp)
    with preempt_tick_inv [OF assms(1), of rsp] prog assms(2) j t show ?thesis
      by (fastforce simp: is_tick_def wait_bound_def)
  next
    case (Yield rsp)
    with yield_tick_inv [OF assms(1), of rsp] prog assms(2) show ?thesis
      by (fastforce simp: is_tick_def)
  next
    case MarkBlocked
    with mark_inv [OF assms(1), of mark_blocked] assms(2) j show ?thesis
      by (auto simp: is_tick_def wait_bound_def)
  next
    case MarkDead
    with mark_inv [OF assms(1), of mark_dead] assms(2) j show ?thesis
      by (auto simp: is_tick_def wait_bound_def)
  next
    case (Unblock i)
    with unblock_inv [OF assms(1), of i] unblock_queue [of i k] assms(2) j show ?thesis
      by (auto simp: is_tick_def wait_bound_def)
  next
    case (Execute c)
    with assms j show ?thesis by (auto simp: is_tick_def wait_bound_def sched_inv_def)
  qed
qed


subsection \<open>Dispatching only ready threads\<close>

text \<open>
  The discipline the queue is meant to keep: no thread queued twice, every queued thread ready,
  the current one not queued, the idle thread runnable.
\<close>

definition strict_queue :: "Scheduler \<Rightarrow> bool" where
  "strict_queue s \<longleftrightarrow>
     distinct (ready_queue s) \<and> (\<forall>i \<in> set (ready_queue s). th_state (threads s ! i) = Ready)
     \<and> is_runnable (th_state (threads s ! idle_thread_idx s))"

definition sched_strict :: "kernel \<Rightarrow> bool" where
  "sched_strict k \<longleftrightarrow>
     sched_inv k \<and> strict_queue (sched k) \<and> th_state (threads (sched k) ! current_idx (sched k)) \<noteq> Ready"

lemma suspend_strict:
  assumes "sched_core (sched k) None" and "strict_queue (sched k)"
    and "th_state (threads (sched k) ! current_idx (sched k)) \<noteq> Ready"
  shows "strict_queue (suspend_current rsp k)"
    and "th_state (threads (suspend_current rsp k) ! idle_thread_idx (sched k)) = Ready"
    and "i \<noteq> current_idx (sched k) \<Longrightarrow> threads (suspend_current rsp k) ! i = threads (sched k) ! i"
proof -
  note c = sched_coreD [OF assms(1)]
  show "i \<noteq> current_idx (sched k) \<Longrightarrow> threads (suspend_current rsp k) ! i = threads (sched k) ! i"
    by (simp add: suspend_current_def requeue_current_def Let_def)
  show idle: "th_state (threads (suspend_current rsp k) ! idle_thread_idx (sched k)) = Ready"
    using c(2,3) c(5) [OF c(3)] assms(2,3)
    by (cases "th_state (threads (sched k) ! idle_thread_idx (sched k))")
      (auto simp: suspend_current_def requeue_current_def Let_def strict_queue_def is_runnable_def nth_list_update_if)
  show "strict_queue (suspend_current rsp k)"
    using assms(2,3) c(2,4) idle
    by (auto simp: strict_queue_def suspend_current_def requeue_current_def Let_def is_runnable_def
        nth_list_update_if)
qed

lemma switch_to_sched:
  assumes "switch_to cur nxt rsp k = Inr (r, k')"
  shows "threads (sched k') = (threads (sched k))[nxt := (threads (sched k) ! nxt)
          \<lparr>th_state := Running, ticks_remaining := QUANTUM_TICKS\<rparr>]"
    and "ready_queue (sched k') = ready_queue (sched k)"
    and "idle_thread_idx (sched k') = idle_thread_idx (sched k)"
  using assms by (auto simp: switch_to_def Let_def with_thread_def restore_thread_state_def split: if_splits)

text \<open>A policy that keeps the discipline picks a ready thread and leaves it on no queue.\<close>

locale disciplined_policy = pick_policy +
  assumes pick_strict: "strict_queue s \<Longrightarrow> th_state (threads s ! idle_thread_idx s) = Ready \<Longrightarrow>
      pick s = (nxt, s') \<Longrightarrow>
      th_state (threads s ! nxt) = Ready \<and> strict_queue s' \<and> nxt \<notin> set (ready_queue s')
      \<and> idle_thread_idx s' = idle_thread_idx s"
begin

lemma reschedule_strict:
  assumes k: "sched_core (sched k) None" "strict_queue (sched k)"
      "th_state (threads (sched k) ! current_idx (sched k)) \<noteq> Ready"
      "current_thread_idx k = current_idx (sched k)"
    and run: "reschedule pick rsp k = Inr (r, k')"
  shows "sched_strict k'"
    and "current_idx (sched k') \<noteq> current_idx (sched k) \<Longrightarrow>
         th_state (threads (sched k) ! current_idx (sched k')) = Ready"
proof -
  let ?s = "suspend_current rsp k" and ?cur = "current_idx (sched k)"
  note sus = suspend_strict [OF k(1,2,3), where rsp = rsp]
  have idx: "idle_thread_idx ?s = idle_thread_idx (sched k)" "current_idx ?s = ?cur"
    by (simp_all add: suspend_current_def Let_def)
  have c: "sched_core ?s None"
    using requeue_core(1) [OF sched_core_upd_keep [OF k(1)]] by (simp add: suspend_current_def Let_def)
  obtain nxt s' where p: "pick ?s = (nxt, s')" by fastforce
  note pc = pick_core [OF c p]
  have ps: "th_state (threads ?s ! nxt) = Ready" "strict_queue s'" "nxt \<notin> set (ready_queue s')"
    using pick_strict [OF sus(1) _ p] sus(2) idx by simp_all
  have inv: "sched_inv k'" "current_idx (sched k') = nxt"
    using reschedule_ok [OF k(1,4), of rsp] run p by auto
  have "switch_to ?cur nxt rsp (k\<lparr>sched := s'\<rparr>) = Inr (r, k')"
    using run p by (simp add: reschedule_def)
  from switch_to_sched [OF this] show "sched_strict k'"
    using inv ps pc by (auto simp: sched_strict_def strict_queue_def is_runnable_def nth_list_update_if)
  show "current_idx (sched k') \<noteq> ?cur \<Longrightarrow> th_state (threads (sched k) ! current_idx (sched k')) = Ready"
    using ps(1) inv(2) sus(3) [where i = nxt] by simp
qed

end

lemma pop_ready_strict:
  "strict_queue s \<Longrightarrow> th_state (threads s ! idle_thread_idx s) = Ready \<Longrightarrow> pop_ready s = (nxt, s') \<Longrightarrow>
   th_state (threads s ! nxt) = Ready \<and> strict_queue s' \<and> nxt \<notin> set (ready_queue s')
   \<and> idle_thread_idx s' = idle_thread_idx s"
  by (auto simp: strict_queue_def pop_ready_def split: list.splits)

lemma pick_donate_strict:
  assumes "strict_queue s" and "th_state (threads s ! idle_thread_idx s) = Ready" and "pick_donate d s = (nxt, s')"
  shows "th_state (threads s ! nxt) = Ready \<and> strict_queue s' \<and> nxt \<notin> set (ready_queue s')
       \<and> idle_thread_idx s' = idle_thread_idx s"
proof (cases "d \<noteq> usize_MAX \<and> d < length (threads s) \<and> th_state (threads s ! d) = Ready")
  case True
  with assms show ?thesis by (auto simp: pick_donate_def strict_queue_def)
next
  case False
  then have "pick_donate d s = pop_ready s" by (auto simp: pick_donate_def)
  with assms pop_ready_strict show ?thesis by metis
qed

interpretation strict_round_robin: disciplined_policy pop_ready
  by unfold_locales (rule pop_ready_strict)

interpretation strict_donating: disciplined_policy "pick_donate d" for d
  by unfold_locales (rule pick_donate_strict)

lemma preempt_tick_strict:
  assumes "sched_strict k" and "preempt_tick rsp k = Inr (r, k')"
  shows "sched_strict k' \<and> (current_idx (sched k') \<noteq> current_idx (sched k) \<longrightarrow>
         th_state (threads (sched k) ! current_idx (sched k')) = Ready)"
proof -
  let ?cur = "current_idx (sched k)" and ?t = "threads (sched k) ! current_idx (sched k)"
  let ?k0 = "k\<lparr>timer := tick (timer k)\<rparr>"
  let ?k1 = "?k0\<lparr>sched := upd_thread ?cur (\<lambda>t. t\<lparr>ticks_remaining := ticks_remaining ?t - 1\<rparr>) (sched k)\<rparr>"
  have k: "sched_core (sched k) None" "strict_queue (sched k)" "th_state ?t \<noteq> Ready" "current_thread_idx k = ?cur"
    using assms(1) by (simp_all add: sched_strict_def sched_inv_def)
  have k1: "sched_core (sched ?k1) None" using k(1) by (auto intro: sched_core_upd_keep)
  have q1: "strict_queue (sched ?k1)" using k(2) by (auto simp: strict_queue_def nth_list_update_if)
  have st: "th_state (threads (sched ?k1) ! i) = th_state (threads (sched k) ! i)" for i
    by (simp add: nth_list_update_if)
  consider "is_runnable (th_state ?t)" "0 < ticks_remaining ?t - 1" "k' = ?k1"
    | "reschedule pop_ready rsp ?k1 = Inr (r, k')" | "reschedule pop_ready rsp ?k0 = Inr (r, k')"
    using assms(2) sched_coreD(1,2) [OF k(1)]
    by (auto simp: preempt_tick_def Let_def with_thread_def split: if_splits)
  then show ?thesis
  proof cases
    case 1
    then show ?thesis using k k1 q1 st sched_coreD(2) [OF k(1)]
      by (simp add: sched_strict_def sched_inv_def nth_list_update_if)
  next
    case 2
    from strict_round_robin.reschedule_strict [OF k1 q1 _ _ this] k(3,4) st show ?thesis by simp
  next
    case 3
    from strict_round_robin.reschedule_strict [OF _ _ _ _ this] k show ?thesis by simp
  qed
qed

lemma yield_tick_strict:
  assumes "sched_strict k" and "yield_tick rsp k = Inr (r, k')"
  shows "sched_strict k' \<and> (current_idx (sched k') \<noteq> current_idx (sched k) \<longrightarrow>
         th_state (threads (sched k) ! current_idx (sched k')) = Ready)"
proof -
  have "reschedule (pick_donate (donate_target k)) rsp (k\<lparr>donate_target := usize_MAX\<rparr>) = Inr (r, k')"
    using assms by (auto simp: yield_tick_def with_thread_def sched_strict_def sched_inv_def sched_core_def
        split: if_splits)
  from strict_donating.reschedule_strict [OF _ _ _ _ this] assms(1) show ?thesis
    by (simp add: sched_strict_def sched_inv_def)
qed

subsection \<open>Histories of the scheduler\<close>

text \<open>
  Everything that changes the scheduler after boot. Blocking, exiting and creating threads are
  done by a running thread other than the idle thread; ticks and wake-ups may come from an
  interrupt at any moment. \<open>racy\<close> says whether a wake-up may hit the current thread between its
  marking itself blocked and its yield. The last rule is ordinary execution: it changes registers
  and memory.
\<close>

inductive sched_reachable :: "bool \<Rightarrow> kernel \<Rightarrow> bool" for racy where
  Boot: "sched k0 = scheduler_new \<Longrightarrow> current_thread_idx k0 = 0 \<Longrightarrow> scheduler_init idle_main k0 = Inr k \<Longrightarrow>
           sched_reachable racy k"
| Tick: "sched_reachable racy k \<Longrightarrow> preempt_tick rsp k = Inr (r, k') \<Longrightarrow> sched_reachable racy k'"
| Yield: "sched_reachable racy k \<Longrightarrow> yield_tick rsp k = Inr (r, k') \<Longrightarrow> sched_reachable racy k'"
| Block: "sched_reachable racy k \<Longrightarrow> th_state (threads (sched k) ! current_idx (sched k)) = Running \<Longrightarrow>
            current_idx (sched k) \<noteq> idle_thread_idx (sched k) \<Longrightarrow> mark_blocked k = Inr k' \<Longrightarrow> sched_reachable racy k'"
| Exit: "sched_reachable racy k \<Longrightarrow> th_state (threads (sched k) ! current_idx (sched k)) = Running \<Longrightarrow>
            current_idx (sched k) \<noteq> idle_thread_idx (sched k) \<Longrightarrow> mark_dead k = Inr k' \<Longrightarrow> sched_reachable racy k'"
| Wake: "sched_reachable racy k \<Longrightarrow> racy \<or> i \<noteq> current_idx (sched k) \<Longrightarrow> sched_reachable racy (unblock i k)"
| Donate: "sched_reachable racy k \<Longrightarrow> sched_reachable racy (set_donate_target i k)"
| Spawn: "sched_reachable racy k \<Longrightarrow> th_state (threads (sched k) ! current_idx (sched k)) = Running \<Longrightarrow>
            spawn_thread entry k = Inr k' \<Longrightarrow> sched_reachable racy k'"
| SpawnUser: "sched_reachable racy k \<Longrightarrow> th_state (threads (sched k) ! current_idx (sched k)) = Running \<Longrightarrow>
            spawn_user_thread tramp ktop pid pml4 k = Inr (idx, k') \<Longrightarrow> sched_reachable racy k'"
| SpawnClone: "sched_reachable racy k \<Longrightarrow> th_state (threads (sched k) ! current_idx (sched k)) = Running \<Longrightarrow>
            spawn_clone_thread tramp ktop pid pml4 rip stack rflags r9 fs k = Inr (idx, k') \<Longrightarrow>
            sched_reachable racy k'"
| SetCr3: "sched_reachable racy k \<Longrightarrow> set_current_cr3 pml4 k = Inr k' \<Longrightarrow> sched_reachable racy k'"
| Run: "sched_reachable racy k \<Longrightarrow> sched_reachable racy (k\<lparr>cpu := c, memory := m, arena := a, timer := t\<rparr>)"

lemma position_Some: "position P xs = Some i \<Longrightarrow> i < length xs \<and> P (xs ! i)"
  by (auto simp: position_def find_Some_iff)

lemma add_thread_core:
  assumes "sched_core (sched k) None" and "th_state t = Ready" and "add_thread t k = (idx, k')"
  shows "sched_core (sched k') None"
proof -
  have core: "sched_core (s\<lparr>threads := ts, ready_queue := ready_queue s @ [i]\<rparr>) None"
    if "sched_core s None" "i < length ts" "length (threads s) \<le> length ts"
      "\<And>j. j < length ts \<Longrightarrow> th_state (ts ! j) = Running \<Longrightarrow> j < length (threads s) \<and> ts ! j = threads s ! j"
      "\<And>j. j < length ts \<Longrightarrow> th_state (ts ! j) = Ready \<Longrightarrow> j = i \<or> j < length (threads s) \<and> ts ! j = threads s ! j"
    for s ts i
  proof -
    note c = sched_coreD [OF that(1)] and running = that(4) and ready = that(5)
    have "j = current_idx s" if "j < length ts" "th_state (ts ! j) = Running" for j
      using that(1) c(5) [of j] running [OF that] that(2) by simp
    moreover have "j \<in> set (ready_queue s) \<or> j = i \<or> j = idle_thread_idx s"
      if "j < length ts" "th_state (ts ! j) = Ready" for j
      using c(6) [of j] ready [OF that] that(2) by auto
    moreover have "\<forall>j \<in> set (ready_queue s @ [i]). j < length ts"
      using c(4) that(2,3) by fastforce
    ultimately show ?thesis unfolding sched_core_def using c(1,2,3) that(2,3) by simp blast
  qed
  show ?thesis
  proof (cases "position (\<lambda>u. th_state u = Dead) (threads (sched k))")
    case None
    let ?ts = "threads (sched k) @ [t\<lparr>th_id := next_thread_id k\<rparr>]" and ?n = "length (threads (sched k))"
    have "sched_core ((sched k)\<lparr>threads := ?ts, ready_queue := ready_queue (sched k) @ [?n]\<rparr>) None"
      using assms(2) by (intro core [OF assms(1)]) (auto simp: nth_append split: if_splits)
    with None assms(3) show ?thesis by (auto simp: add_thread_def alloc_thread_slot_def)
  next
    case (Some i)
    let ?ts = "(threads (sched k))[i := t\<lparr>th_id := next_thread_id k\<rparr>]"
    have "sched_core ((sched k)\<lparr>threads := ?ts, ready_queue := ready_queue (sched k) @ [i]\<rparr>) None"
      using assms(2) position_Some [OF Some]
      by (intro core [OF assms(1)]) (auto simp: nth_list_update_if split: if_splits)
    with Some assms(3) show ?thesis by (auto simp: add_thread_def alloc_thread_slot_def)
  qed
qed

lemma add_thread_slot:
  assumes "add_thread t k = (idx, k')"
  shows "ready_queue (sched k') = ready_queue (sched k) @ [idx]"
    and "current_idx (sched k') = current_idx (sched k)" and "idle_thread_idx (sched k') = idle_thread_idx (sched k)"
    and "current_thread_idx k' = current_thread_idx k"
    and "threads (sched k') ! idx = t\<lparr>th_id := next_thread_id k\<rparr>"
    and "i < length (threads (sched k)) \<Longrightarrow> i \<noteq> idx \<Longrightarrow> threads (sched k') ! i = threads (sched k) ! i"
    and "idx < length (threads (sched k)) \<Longrightarrow> th_state (threads (sched k) ! idx) = Dead"
  using assms position_Some [of "\<lambda>u. th_state u = Dead" "threads (sched k)" idx]
  by (auto simp: add_thread_def alloc_thread_slot_def nth_append split: option.splits)

lemma add_thread_inv:
  assumes "sched_inv k" and "th_state t = Ready" and "ticks_remaining t = QUANTUM_TICKS"
    and "add_thread t k = (idx, k')"
  shows "sched_inv k'"
proof -
  have "current_idx (sched k) < length (threads (sched k))"
    using assms(1) by (simp add: sched_inv_def sched_core_def)
  with add_thread_core [of k t idx k'] add_thread_slot [OF assms(4)] assms show ?thesis
    by (cases "current_idx (sched k) = idx") (auto simp: sched_inv_def const_defs)
qed

lemma add_thread_strict:
  assumes "sched_strict k" and "th_state t = Ready" and "ticks_remaining t = QUANTUM_TICKS"
    and "th_state (threads (sched k) ! current_idx (sched k)) = Running" and "add_thread t k = (idx, k')"
  shows "sched_strict k'"
proof -
  have k: "sched_core (sched k) None" "sched_inv k" "strict_queue (sched k)"
    using assms(1) by (simp_all add: sched_strict_def sched_inv_def)
  note c = sched_coreD [OF k(1)] and a = add_thread_slot [OF assms(5)]
  have q: "i < length (threads (sched k))" "th_state (threads (sched k) ! i) = Ready"
    if "i \<in> set (ready_queue (sched k))" for i
    using that c(4) k(3) by (auto simp: strict_queue_def)
  have new: "idx \<notin> set (ready_queue (sched k))" using q a(7) by fastforce
  have old: "threads (sched k') ! i = threads (sched k) ! i" if "i \<in> set (ready_queue (sched k))" for i
    using a(6) [where i = i] q(1) [OF that] that new by blast
  have cur: "idx \<noteq> current_idx (sched k)" "idx \<noteq> idle_thread_idx (sched k)"
    using a(7) c(2,3) assms(4) k(3) by (auto simp: strict_queue_def is_runnable_def)
  have "strict_queue (sched k')"
    unfolding strict_queue_def
    using new old q(2) a(1,3,5) a(6) [where i = "idle_thread_idx (sched k)"] c(3) cur(2) k(3) assms(2)
    by (simp add: strict_queue_def ball_Un)
  moreover have "th_state (threads (sched k') ! current_idx (sched k')) = Running"
    using a(2) a(6) [where i = "current_idx (sched k)"] c(2) cur(1) assms(4) by simp
  ultimately show ?thesis
    using add_thread_inv [OF k(2) assms(2,3,5)] by (simp add: sched_strict_def)
qed

text \<open>The three ways to create a thread all end in \<^verbatim>\<open>alloc_thread_slot\<close> with a ready thread.\<close>

definition created_by :: "kernel \<Rightarrow> kernel \<Rightarrow> bool" where
  "created_by k k' \<longleftrightarrow>
     (\<exists>t k1 idx. add_thread t k1 = (idx, k') \<and> sched k1 = sched k \<and> current_thread_idx k1 = current_thread_idx k
        \<and> th_state t = Ready \<and> ticks_remaining t = QUANTUM_TICKS)"

lemma created_byI:
  "add_thread t k1 = (idx, k') \<Longrightarrow> sched k1 = sched k \<Longrightarrow> current_thread_idx k1 = current_thread_idx k \<Longrightarrow>
   th_state t = Ready \<Longrightarrow> ticks_remaining t = QUANTUM_TICKS \<Longrightarrow> created_by k k'"
  unfolding created_by_def by blast

lemma spawn_thread_created: "spawn_thread entry k = Inr k' \<Longrightarrow> created_by k k'"
  by (clarsimp simp: spawn_thread_def Let_def split: prod.splits option.splits)
    (rule created_byI [OF prod.collapse [symmetric]], simp_all)

lemma spawn_user_thread_created: "spawn_user_thread tramp ktop pid pml4 k = Inr (idx, k') \<Longrightarrow> created_by k k'"
  by (clarsimp simp: spawn_user_thread_def split: prod.splits option.splits)
    (erule created_byI, simp_all)

lemma spawn_clone_thread_created:
  "spawn_clone_thread tramp ktop pid pml4 rip stack rflags r9 fs k = Inr (idx, k') \<Longrightarrow> created_by k k'"
  by (clarsimp simp: spawn_clone_thread_def split: prod.splits option.splits)
    (erule created_byI, simp_all)

lemmas spawn_created = spawn_thread_created spawn_user_thread_created spawn_clone_thread_created

lemma created_by_inv:
  assumes "created_by k k'"
  shows "sched_inv k \<Longrightarrow> sched_inv k'"
    and "sched_strict k \<Longrightarrow> th_state (threads (sched k) ! current_idx (sched k)) = Running \<Longrightarrow> sched_strict k'"
proof -
  obtain t k1 idx where a: "add_thread t k1 = (idx, k')" and s: "sched k1 = sched k"
    "current_thread_idx k1 = current_thread_idx k" and t: "th_state t = Ready" "ticks_remaining t = QUANTUM_TICKS"
    using assms unfolding created_by_def by blast
  show "sched_inv k \<Longrightarrow> sched_inv k'" using add_thread_inv [OF _ t a] s by (simp add: sched_inv_def)
  show "sched_strict k \<Longrightarrow> th_state (threads (sched k) ! current_idx (sched k)) = Running \<Longrightarrow> sched_strict k'"
    using add_thread_strict [OF _ t _ a] s by (simp add: sched_strict_def sched_inv_def)
qed

lemma scheduler_init_strict:
  assumes "sched k0 = scheduler_new" and "current_thread_idx k0 = 0" and "scheduler_init idle_main k0 = Inr k"
  shows "sched_strict k"
proof -
  define boot where "boot = \<lparr>th_id = next_thread_id k0, th_state = Running, saved_rsp = 0,
      th_pml4 = cr3 (cpu k0), ticks_remaining = QUANTUM_TICKS, th_stack = None, th_kind = Kernel,
      kernel_stack_top = 0, th_user_rsp = 0, th_fs_base = 0\<rparr>"
  define k1 where "k1 = k0\<lparr>sched := \<lparr>initialized = True, threads = [boot], current_idx = 0,
      ready_queue = [], idle_thread_idx = 0\<rparr>, next_thread_id := next_thread_id k0 + 1\<rparr>"
  have k1: "threads (sched k1) = [boot]" "th_state boot = Running"
      "ticks_remaining boot = QUANTUM_TICKS" "ready_queue (sched k1) = []" "current_idx (sched k1) = 0"
      "initialized (sched k1)" "current_thread_idx k1 = 0"
    using assms(2) by (simp_all add: k1_def boot_def)
  obtain k2 where k2: "spawn_thread idle_main k1 = Inr k2" "ready_queue (sched k2) \<noteq> []"
    and k: "k = k2\<lparr>sched := set_state (last (ready_queue (sched k2))) Ready ((sched k2)\<lparr>
              ready_queue := butlast (ready_queue (sched k2)), idle_thread_idx := last (ready_queue (sched k2))\<rparr>)\<rparr>"
    using assms(1,3)
    by (auto simp: scheduler_init_def scheduler_new_def Let_def with_thread_def k1_def boot_def split: if_splits)
  from spawn_thread_created [OF k2(1)] obtain t k1' idx where
    a: "add_thread t k1' = (idx, k2)" "sched k1' = sched k1" "current_thread_idx k1' = current_thread_idx k1"
    "th_state t = Ready" "ticks_remaining t = QUANTUM_TICKS"
    unfolding created_by_def by blast
  have "position (\<lambda>u. th_state u = Dead) [boot] = None" using k1(2) by (simp add: position_def)
  with a k1 have "threads (sched k2) = [boot, t\<lparr>th_id := next_thread_id k1'\<rparr>]" "ready_queue (sched k2) = [1]"
    "current_idx (sched k2) = 0" "initialized (sched k2)" "current_thread_idx k2 = 0"
    by (auto simp: add_thread_def alloc_thread_slot_def)
  with k k1(2,3) a(4) show ?thesis
    by (auto simp: sched_strict_def sched_inv_def sched_core_def strict_queue_def is_runnable_def const_defs
        less_Suc_eq nth_Cons')
qed

lemma set_current_cr3_inv:
  assumes "set_current_cr3 pml4 k = Inr k'"
  shows "sched_inv k \<Longrightarrow> sched_inv k'" and "sched_strict k \<Longrightarrow> sched_strict k'"
proof -
  have k': "k' = k \<or> k' = k\<lparr>sched := upd_thread (current_idx (sched k)) (\<lambda>t. t\<lparr>th_pml4 := pml4\<rparr>) (sched k)\<rparr>"
    using assms by (auto simp: set_current_cr3_def with_thread_def split: if_splits)
  show inv: "sched_inv k \<Longrightarrow> sched_inv k'"
    using k' by (auto simp: sched_inv_def nth_list_update_if sched_core_upd_keep)
  show "sched_strict k \<Longrightarrow> sched_strict k'"
    using k' inv by (auto simp: sched_strict_def strict_queue_def nth_list_update_if split: if_splits)
qed

lemma mark_strict:
  assumes "sched_strict k" and "f = mark_blocked \<or> f = mark_dead" and "f k = Inr k'"
    and "th_state (threads (sched k) ! current_idx (sched k)) = Running"
    and "current_idx (sched k) \<noteq> idle_thread_idx (sched k)"
  shows "sched_strict k'"
  using mark_inv [of k f] assms
  by (auto simp: sched_strict_def strict_queue_def mark_blocked_def mark_dead_def with_thread_def
      nth_list_update_if split: if_splits)

lemma unblock_strict:
  assumes "sched_strict k" and "i \<noteq> current_idx (sched k)"
  shows "sched_strict (unblock i k)"
  using unblock_inv [of k i] assms
  by (auto simp: sched_strict_def strict_queue_def unblock_def Let_def nth_list_update_if is_runnable_def)

lemma sched_reachable_inv: "sched_reachable racy k \<Longrightarrow> sched_inv k"
proof (induction rule: sched_reachable.induct)
  case (Boot k0 idle_main k)
  then show ?case using scheduler_init_strict by (auto simp: sched_strict_def)
next
  case (Tick k rsp r k')
  then show ?case using preempt_tick_inv [of k rsp] by auto
next
  case (Yield k rsp r k')
  then show ?case using yield_tick_inv [of k rsp] by auto
next
  case (Block k k')
  then show ?case using mark_inv [of k mark_blocked] by auto
next
  case (Exit k k')
  then show ?case using mark_inv [of k mark_dead] by auto
next
  case (Donate k i)
  then show ?case by (simp add: sched_inv_def set_donate_target_def)
next
  case (Run k c m a t)
  then show ?case by (simp add: sched_inv_def)
qed (auto dest: spawn_created intro: unblock_inv created_by_inv(1) set_current_cr3_inv(1))

lemma sched_reachable_strict: "sched_reachable False k \<Longrightarrow> sched_strict k"
proof (induction rule: sched_reachable.induct)
  case (Boot k0 idle_main k)
  then show ?case by (rule scheduler_init_strict)
next
  case (Tick k rsp r k')
  then show ?case by (blast dest: preempt_tick_strict)
next
  case (Yield k rsp r k')
  then show ?case by (blast dest: yield_tick_strict)
next
  case (Block k k')
  then show ?case using mark_strict by blast
next
  case (Exit k k')
  then show ?case using mark_strict by blast
next
  case (Wake k i)
  then show ?case using unblock_strict by blast
next
  case (Donate k i)
  then show ?case by (simp add: sched_strict_def sched_inv_def set_donate_target_def)
next
  case (Run k c m a t)
  then show ?case by (simp add: sched_strict_def sched_inv_def)
qed (auto dest: spawn_created intro: created_by_inv(2) set_current_cr3_inv(2))

subsection \<open>Properties\<close>

text \<open>
  The first frame of a new thread is laid out as the switch stub expects it: the stack pointer
  the thread resumes from is 16-byte aligned (as FXRSTOR needs), lies 672 bytes below the top of
  the stack, the twenty register words follow the 512-byte FXSAVE area in order, MXCSR has its
  default, and no byte outside that area of the stack is touched.
\<close>

theorem initial_frame_layout:
  assumes "stack_top mod 16 = 0" and "672 \<le> stack_top" and "stack_top < 2 ^ 64"
    and "\<forall>w \<in> set (frame_words f). w < 2 ^ 64"
  shows "\<exists>m'. place_frame stack_top f m = Inr (stack_top - 672, m')
       \<and> (stack_top - 672) mod 16 = 0
       \<and> (\<forall>i < 20. load_u64 (stack_top - 672 + FXSAVE_SIZE + 8 * i) m' = frame_words f ! i)
       \<and> load_u32 (stack_top - 672 + 24) m' = 0x1F80
       \<and> (\<forall>x. x < stack_top - 672 \<or> stack_top \<le> x \<longrightarrow> m' x = m x)"
proof -
  let ?r = "stack_top - 672"
  let ?m1 = "store_u64s (?r + 512) (frame_words f) m" and ?m2 = "store_u32 (?r + 24) 0x1F80"
  have len: "length (frame_words f) = 20" by (simp add: frame_words_def)
  have "place_frame stack_top f m = Inr (?r, ?m2 ?m1)"
    using assms(2,3) by (auto simp: place_frame_def const_defs sub_u64_def add_u64_def)
  moreover have "?r mod 16 = 0" using assms(1,2) by presburger
  moreover have "load_u64 (?r + FXSAVE_SIZE + 8 * i) (?m2 ?m1) = frame_words f ! i" if "i < 20" for i
  proof -
    have "load_u64 (?r + 512 + 8 * i) (?m2 ?m1) = load_u64 (?r + 512 + 8 * i) ?m1"
      by (simp add: load_u64_def store_u32_def load_store_bytes_disjoint)
    then show ?thesis
      using that len assms(4) store_u64s_load [of i "frame_words f" "?r + 512" m] by (simp add: const_defs)
  qed
  moreover have "load_u32 (?r + 24) (?m2 ?m1) = 0x1F80"
    using load_store_bytes_same [of "?r + 24" "le_bytes 4 0x1F80" ?m1]
    by (simp add: load_u32_def store_u32_def of_le_bytes_le_bytes del: load_store_bytes_same)
  moreover have "?m2 ?m1 x = m x" if "x < ?r \<or> stack_top \<le> x" for x
  proof -
    from that assms(2) have "x < ?r + 24 \<or> ?r + 24 + 4 \<le> x" "x < ?r + 512 \<or> ?r + 512 + 8 * 20 \<le> x"
      by linarith+
    then show ?thesis
      using store_bytes_outside [of x "?r + 24" "le_bytes 4 0x1F80" ?m1]
        store_u64s_outside [of x "?r + 512" "frame_words f" m] len
      unfolding store_u32_def length_le_bytes by argo
  qed
  ultimately show ?thesis by (intro exI [of _ "?m2 ?m1"] conjI allI impI)
qed

theorem initial_frame_layout_witness:
  "\<exists>f m'. new_kernel 0x4000 0x20000 = Inr f \<and> place_frame 0x20000 f (\<lambda>_. 0) = Inr (0x20000 - 672, m')
     \<and> load_u64 (0x20000 - 672 + FXSAVE_SIZE + 8 * 15) m' = 0x4000"
proof -
  obtain f where f: "new_kernel 0x4000 0x20000 = Inr f" and fw: "frame_words f ! 15 = 0x4000"
      "\<forall>w \<in> set (frame_words f). w < 2 ^ 64"
    by (simp add: new_kernel_def sub_u64_def frame_words_def const_defs)
  obtain m' where m': "place_frame 0x20000 f (\<lambda>_. 0) = Inr (0x20000 - 672, m')"
      "\<forall>i < 20. load_u64 (0x20000 - 672 + FXSAVE_SIZE + 8 * i) m' = frame_words f ! i"
    using initial_frame_layout [of "0x20000" f "\<lambda>_. 0"] fw(2) by auto
  from m'(2) have "load_u64 (0x20000 - 672 + FXSAVE_SIZE + 8 * 15) m' = 0x4000"
    using fw(1) by (simp only: m'(2) [rule_format, of 15])
  with f m' show ?thesis by blast
qed

text \<open>
  C2: No runnable thread is ever lost and the scheduler never panics. In every reachable state
  (even when wake-ups race with a thread going to sleep) every ready thread is on the ready queue
  or is the idle thread, only the current thread is running, all queued indices are valid, the
  atomic copy of the current index agrees with the scheduler's, and the timer tick and the yield
  both return.
\<close>

theorem scheduler_loses_no_thread:
  assumes "sched_reachable racy k"
  shows "(\<forall>i < length (threads (sched k)). th_state (threads (sched k) ! i) = Ready \<longrightarrow>
            i \<in> set (ready_queue (sched k)) \<or> i = idle_thread_idx (sched k))
       \<and> (\<forall>i < length (threads (sched k)). th_state (threads (sched k) ! i) = Running \<longrightarrow> i = current_idx (sched k))
       \<and> (\<forall>i \<in> set (ready_queue (sched k)). i < length (threads (sched k)))
       \<and> current_thread_idx k = current_idx (sched k)
       \<and> (\<exists>r k'. preempt_tick rsp k = Inr (r, k')) \<and> (\<exists>r k'. yield_tick rsp k = Inr (r, k'))"
  using sched_reachable_inv [OF assms] preempt_tick_inv [of k rsp] yield_tick_inv [of k rsp]
  by (auto simp: sched_inv_def sched_core_def)

text \<open>
  As long as no wake-up hits a thread between its marking itself blocked and its yield, the
  scheduler only ever switches to a thread that is ready: never to a blocked or dead one, and no
  thread is queued twice.
\<close>

theorem switches_to_ready_thread:
  assumes "sched_reachable False k"
    and "preempt_tick rsp k = Inr (r, k') \<or> yield_tick rsp k = Inr (r, k')"
    and "current_idx (sched k') \<noteq> current_idx (sched k)"
  shows "th_state (threads (sched k) ! current_idx (sched k')) = Ready \<and> distinct (ready_queue (sched k))"
  using sched_reachable_strict [OF assms(1)] preempt_tick_strict [of k rsp r k'] yield_tick_strict [of k rsp r k'] assms(2,3)
  by (auto simp: sched_strict_def strict_queue_def)

text \<open>A machine just before the scheduler is initialised, and after it has two kernel threads.\<close>

definition boot_kernel :: kernel where
  "boot_kernel =
     \<lparr>sched = scheduler_new, next_thread_id = 0, context_switches = 0, current_thread_idx = 0,
      donate_target = usize_MAX,
      cpu = \<lparr>cpu_user_rsp = 0, cpu_fs_base = 0, tss_rsp0 = 0, cpu_kernel_rsp = 0, current_pid = 0, cr3 = 0x1000\<rparr>,
      arena = booted_arena, memory = (\<lambda>_. 0), timer = timer_init\<rparr>"

definition two_threads :: "kernel res" where
  "two_threads = bind_res (scheduler_init 0x100 boot_kernel) (\<lambda>k.
     bind_res (spawn_thread 0x200 k) (spawn_thread 0x300))"

text \<open>A tick or a yield, with the stack pointer the next thread resumes from.\<close>

definition switches :: "nat \<Rightarrow> kernel \<Rightarrow> nat \<Rightarrow> kernel \<Rightarrow> bool" where
  "switches rsp k r k' \<longleftrightarrow> preempt_tick rsp k = Inr (r, k') \<or> yield_tick rsp k = Inr (r, k')"

lemma switches_context:
  assumes "sched_inv k" and "switches rsp k r k'"
  shows "current_idx (sched k') \<noteq> current_idx (sched k) \<Longrightarrow>
           saved_context (current_idx (sched k)) k' = (rsp, cpu_user_rsp (cpu k), cpu_fs_base (cpu k))
           \<and> (r, cpu_user_rsp (cpu k'), cpu_fs_base (cpu k')) = saved_context (current_idx (sched k')) k"
    and "i \<noteq> current_idx (sched k) \<Longrightarrow> saved_context i k' = saved_context i k"
proof -
  let ?cur = "current_idx (sched k)" and ?t = "threads (sched k) ! current_idx (sched k)"
  let ?k0 = "k\<lparr>timer := tick (timer k)\<rparr>"
  let ?k1 = "?k0\<lparr>sched := upd_thread ?cur (\<lambda>t. t\<lparr>ticks_remaining := ticks_remaining ?t - 1\<rparr>) (sched k)\<rparr>"
  let ?k2 = "k\<lparr>donate_target := usize_MAX\<rparr>"
  have c: "sched_core (sched k) None" using assms(1) by (simp add: sched_inv_def)
  have c1: "sched_core (sched ?k1) None" using c by (auto intro: sched_core_upd_keep)
  have ctx: "saved_context i ?k1 = saved_context i k" "saved_context i ?k0 = saved_context i k"
    "saved_context i ?k2 = saved_context i k" for i
    by (simp_all add: saved_context_def nth_list_update_if Let_def)
  consider "k' = ?k1" | "reschedule pop_ready rsp ?k1 = Inr (r, k')" | "reschedule pop_ready rsp ?k0 = Inr (r, k')"
    | "reschedule (pick_donate (donate_target k)) rsp ?k2 = Inr (r, k')"
    using assms(2) sched_coreD(1,2) [OF c]
    by (auto simp: switches_def preempt_tick_def yield_tick_def Let_def with_thread_def split: if_splits)
  then have "(current_idx (sched k') \<noteq> ?cur \<longrightarrow>
           saved_context ?cur k' = (rsp, cpu_user_rsp (cpu k), cpu_fs_base (cpu k))
           \<and> (r, cpu_user_rsp (cpu k'), cpu_fs_base (cpu k')) = saved_context (current_idx (sched k')) k)
     \<and> (i \<noteq> ?cur \<longrightarrow> saved_context i k' = saved_context i k)" for i
  proof cases
    case 1
    then show ?thesis using ctx(1) by simp
  next
    case 2
    from round_robin.reschedule_context [OF c1 this] round_robin.reschedule_stays [OF this _ c1, of i] ctx(1)
    show ?thesis by (cases "current_idx (sched k') = ?cur") simp_all
  next
    case 3
    from round_robin.reschedule_context [OF _ this] round_robin.reschedule_stays [OF this, of i] c ctx(2)
    show ?thesis by (cases "current_idx (sched k') = ?cur") simp_all
  next
    case 4
    from donating.reschedule_context [OF _ this] donating.reschedule_stays [OF this, of i] c ctx(3)
    show ?thesis by (cases "current_idx (sched k') = ?cur") simp_all
  qed
  then show "current_idx (sched k') \<noteq> ?cur \<Longrightarrow>
           saved_context ?cur k' = (rsp, cpu_user_rsp (cpu k), cpu_fs_base (cpu k))
           \<and> (r, cpu_user_rsp (cpu k'), cpu_fs_base (cpu k')) = saved_context (current_idx (sched k')) k"
    and "i \<noteq> ?cur \<Longrightarrow> saved_context i k' = saved_context i k" by blast+
qed

lemma switches_inv: "sched_inv k \<Longrightarrow> switches rsp k r k' \<Longrightarrow> sched_inv k'"
  using preempt_tick_inv [of k rsp] yield_tick_inv [of k rsp] by (auto simp: switches_def)

lemma sched_exec_context:
  assumes "sched_inv k" and "sched_exec e k = Inr k'" and "i \<noteq> current_idx (sched k)"
  shows "saved_context i k' = saved_context i k \<and> sched_inv k'"
proof -
  have sw: ?thesis if "switches rsp k r k'" for rsp r
    using switches_context(2) [OF assms(1) that assms(3)] switches_inv [OF assms(1) that] by simp
  have mk: ?thesis if "f k = Inr k'" "f = mark_blocked \<or> f = mark_dead" for f
    using mark_inv [OF assms(1) that(2)] that assms(3)
    by (auto simp: saved_context_def mark_blocked_def mark_dead_def with_thread_def split: if_splits)
  show ?thesis
  proof (cases e)
    case (Tick rsp)
    with assms(2) sw show ?thesis by (auto simp: switches_def)
  next
    case (Yield rsp)
    with assms(2) sw show ?thesis by (auto simp: switches_def)
  next
    case (Unblock j)
    with assms(1,2) unblock_inv [of k j] show ?thesis
      by (auto simp: saved_context_def unblock_def Let_def nth_list_update_if)
  next
    case (Execute c)
    with assms(1,2) show ?thesis by (auto simp: saved_context_def sched_inv_def)
  qed (use assms(2) mk in auto)
qed

text \<open>A run during which thread \<open>i\<close> is never the current one.\<close>

fun away :: "nat \<Rightarrow> sched_event list \<Rightarrow> kernel \<Rightarrow> bool" where
  "away i [] k \<longleftrightarrow> i \<noteq> current_idx (sched k)"
| "away i (e # es) k \<longleftrightarrow>
     i \<noteq> current_idx (sched k) \<and> (case sched_exec e k of Inl _ \<Rightarrow> False | Inr k' \<Rightarrow> away i es k')"

lemma sched_run_context:
  "sched_inv k \<Longrightarrow> away i es k \<Longrightarrow> sched_run es k = Inr k' \<Longrightarrow>
   saved_context i k' = saved_context i k \<and> sched_inv k' \<and> i \<noteq> current_idx (sched k')"
proof (induction es arbitrary: k)
  case (Cons e es)
  then obtain k1 where k1: "sched_exec e k = Inr k1" "away i es k1" "sched_run es k1 = Inr k'"
    and i: "i \<noteq> current_idx (sched k)"
    by (auto split: sum.splits)
  note x = sched_exec_context [OF Cons.prems(1) k1(1) i]
  from Cons.IH [OF _ k1(2,3)] x show ?case by simp
qed simp


subsection \<open>A machine with two kernel threads\<close>

lemma example_bits:
  "trailing_zeros (0xFFFF :: u32) = 0" "clear_bit_at 0 (0xFFFF :: u32) = 0xFFFE"
  "trailing_zeros (0xFFFE :: u32) = 1" "clear_bit_at (Suc 0) (0xFFFE :: u32) = 0xFFFC"
  "trailing_zeros (0xFFFC :: u32) = 2" "clear_bit_at 2 (0xFFFC :: u32) = 0xFFF8"
  by code_simp+

lemmas spawn_eval = scheduler_init_def boot_kernel_def scheduler_new_def Let_def spawn_thread_def
  arena_alloc_def booted_arena_def example_bits slot_top_def new_kernel_def sub_u64_def add_u64_def
  place_frame_def const_defs add_thread_def alloc_thread_slot_def position_def with_thread_def run_res_def

lemmas switch_eval = yield_tick_def reschedule_def suspend_current_def requeue_current_def is_runnable_def
  pick_donate_def pop_ready_def switch_to_def restore_thread_state_def save_current_context_def
  mark_blocked_def mark_dead_def unblock_def with_thread_def run_res_def Let_def

definition thread_is :: "ThreadState \<Rightarrow> Thread \<Rightarrow> bool" where
  "thread_is st t \<longleftrightarrow>
     th_state t = st \<and> ticks_remaining t = QUANTUM_TICKS \<and> th_pml4 t = 0x1000 \<and> th_kind t = Kernel"

definition two_threads_state :: "kernel \<Rightarrow> bool" where
  "two_threads_state k \<longleftrightarrow>
     initialized (sched k) \<and> ready_queue (sched k) = [2, 3] \<and> current_idx (sched k) = 0
     \<and> idle_thread_idx (sched k) = 1 \<and> donate_target k = usize_MAX \<and> length (threads (sched k)) = 4
     \<and> list_all2 thread_is [Running, Ready, Ready, Ready] (threads (sched k))"

lemma two_threads_reachable:
  obtains k where "two_threads = Inr k" and "sched_reachable racy k" and "two_threads_state k"
proof -
  let ?run = "\<lambda>k. th_state (threads (sched k) ! current_idx (sched k)) = Running"
  have 0: "run_res (scheduler_init 0x100 boot_kernel) ?run" by (simp add: spawn_eval)
  have 1: "run_res (bind_res (scheduler_init 0x100 boot_kernel) (spawn_thread 0x200)) ?run"
    by (simp add: spawn_eval)
  have 2: "run_res two_threads two_threads_state"
    by (simp add: two_threads_def two_threads_state_def thread_is_def spawn_eval)
  from 0 obtain k0 where k0: "scheduler_init 0x100 boot_kernel = Inr k0" "?run k0"
    by (auto simp: run_res_def split: sum.splits)
  with 1 obtain k1 where k1: "spawn_thread 0x200 k0 = Inr k1" "?run k1"
    by (auto simp: run_res_def split: sum.splits)
  from 2 obtain k where k: "two_threads = Inr k" "two_threads_state k"
    by (auto simp: run_res_def split: sum.splits)
  then have 3: "spawn_thread 0x300 k1 = Inr k" using k0(1) k1(1) by (simp add: two_threads_def)
  have "sched_reachable racy k0"
    by (rule Boot [OF _ _ k0(1)]) (simp_all add: boot_kernel_def)
  then have "sched_reachable racy k1" using k0(2) k1(1) by (rule Spawn)
  then have "sched_reachable racy k" using k1(2) 3 by (rule Spawn)
  with k that show thesis by blast
qed

definition thread_states :: "kernel \<Rightarrow> ThreadState list" where
  "thread_states k = map th_state (threads (sched k))"

lemma yield_effect:
  assumes "initialized (sched k)" and "cur = current_idx (sched k)" and "cur < length (thread_states k)"
    and "ready_queue (sched k) = j # q" and "j < length (thread_states k)" and "donate_target k = usize_MAX"
  shows "\<exists>r k'. yield_tick rsp k = Inr (r, k') \<and> initialized (sched k') \<and> donate_target k' = usize_MAX
       \<and> current_idx (sched k') = j
       \<and> ready_queue (sched k') = q @ (if is_runnable (thread_states k ! cur) then [cur] else [])
       \<and> thread_states k' =
           (if is_runnable (thread_states k ! cur) then (thread_states k)[cur := Ready] else thread_states k)
             [j := Running]"
  using assms
  by (auto simp: yield_tick_def reschedule_def suspend_current_def requeue_current_def pick_donate_def
      pop_ready_def switch_to_def restore_thread_state_def with_thread_def Let_def thread_states_def
      map_update list_update_overwrite intro!: nth_equalityI simp: nth_list_update_if)

lemma block_wake_effect:
  assumes "cur = current_idx (sched k)" and "cur < length (thread_states k)"
  shows "\<exists>k'. sched_run [MarkBlocked, Unblock cur] k = Inr k' \<and> initialized (sched k') = initialized (sched k)
       \<and> donate_target k' = donate_target k \<and> current_idx (sched k') = cur
       \<and> ready_queue (sched k') = ready_queue (sched k) @ [cur] \<and> thread_states k' = (thread_states k)[cur := Ready]"
  using assms
  by (simp add: mark_blocked_def unblock_def with_thread_def Let_def thread_states_def map_update)

lemma two_threads_states:
  "two_threads_state k \<Longrightarrow> thread_states k = [Running, Ready, Ready, Ready]"
  by (auto simp: two_threads_state_def thread_states_def thread_is_def list_all2_Cons1)

lemma two_threads_stateE:
  assumes "two_threads_state k"
  obtains t0 t1 t2 t3 where "threads (sched k) = [t0, t1, t2, t3]" "thread_is Running t0" "thread_is Ready t1"
    "thread_is Ready t2" "thread_is Ready t3" "initialized (sched k)" "ready_queue (sched k) = [2, 3]"
    "current_idx (sched k) = 0" "idle_thread_idx (sched k) = 1" "donate_target k = usize_MAX"
  using assms by (auto simp: two_threads_state_def list_all2_Cons1)

theorem scheduler_loses_no_thread_witness:
  "\<exists>k. two_threads = Inr k \<and> sched_reachable True k \<and> (\<exists>r k'. yield_tick 0x5000 k = Inr (r, k'))"
  using two_threads_reachable [of True] scheduler_loses_no_thread by metis

theorem switches_to_ready_thread_witness:
  "\<exists>k r k'. two_threads = Inr k \<and> sched_reachable False k \<and> yield_tick 0x5000 k = Inr (r, k')
     \<and> current_idx (sched k') = 2 \<and> th_state (threads (sched k) ! 2) = Ready"
proof -
  obtain k where k: "two_threads = Inr k" "sched_reachable False k" "two_threads_state k"
    using two_threads_reachable by blast
  have "run_res (yield_tick 0x5000 k) (\<lambda>(r, k'). current_idx (sched k') = 2)"
    using k(3) by (elim two_threads_stateE) (simp add: switch_eval thread_is_def)
  then obtain r k' where y: "yield_tick 0x5000 k = Inr (r, k')" "current_idx (sched k') = 2"
    by (auto simp: run_res_def split: sum.splits)
  moreover have "current_idx (sched k) = 0" using k(3) by (simp add: two_threads_state_def)
  ultimately show ?thesis
    using switches_to_ready_thread [OF k(2) disjI2 [OF y(1)]] k by auto
qed



lemma stale_entry_revives:
  assumes "initialized (sched k)" and "i = current_idx (sched k)" and "i < length (thread_states k)"
    and "ready_queue (sched k) = i # q" and "donate_target k = usize_MAX"
  shows "run_res (yield_tick rsp k) (\<lambda>(_, k'). current_idx (sched k') = i \<and> thread_states k' ! i = Running)"
  using yield_effect [OF assms(1-4,3,5), of rsp] assms(3) unfolding run_res_iff by auto

text \<open>
  C7: A wake-up that arrives between \<^verbatim>\<open>mark_blocked\<close> and the yield queues the current thread, and the
  yield queues it again. The second entry outlives the thread: here the thread runs once more,
  exits, and its own exiting yield picks the stale entry and makes the dead thread running again
  (the source's \<^verbatim>\<open>unreachable!("dead thread was rescheduled")\<close>).
\<close>

theorem dead_thread_rescheduled:
  "\<exists>k. two_threads = Inr k \<and> sched_reachable True k
     \<and> run_res (sched_run [MarkBlocked, Unblock 0, Yield 0, Yield 0, Yield 0, MarkDead] k) (\<lambda>k.
         current_idx (sched k) = 0 \<and> thread_states k ! 0 = Dead
         \<and> run_res (yield_tick 0 k) (\<lambda>(_, k'). current_idx (sched k') = 0 \<and> thread_states k' ! 0 = Running))"
proof -
  obtain k where k: "two_threads = Inr k" "sched_reachable True k" "two_threads_state k"
    using two_threads_reachable by blast
  have ts: "thread_states k = [Running, Ready, Ready, Ready]" using k(3) by (rule two_threads_states)
  obtain k1 where k1: "sched_run [MarkBlocked, Unblock 0] k = Inr k1" "initialized (sched k1)"
      "donate_target k1 = usize_MAX" "current_idx (sched k1) = 0" "ready_queue (sched k1) = [2, 3, 0]"
      "thread_states k1 = [Ready, Ready, Ready, Ready]"
    using block_wake_effect [of 0 k] ts k(3) by (auto simp: two_threads_state_def)
  obtain r2 k2 where k2: "yield_tick 0 k1 = Inr (r2, k2)" "initialized (sched k2)" "donate_target k2 = usize_MAX"
      "current_idx (sched k2) = 2" "ready_queue (sched k2) = [3, 0, 0]" "thread_states k2 = [Ready, Ready, Running, Ready]"
    using yield_effect [of k1 0 2 "[3, 0]" 0] k1 by (auto simp: is_runnable_def)
  obtain r3 k3 where k3: "yield_tick 0 k2 = Inr (r3, k3)" "initialized (sched k3)" "donate_target k3 = usize_MAX"
      "current_idx (sched k3) = 3" "ready_queue (sched k3) = [0, 0, 2]" "thread_states k3 = [Ready, Ready, Ready, Running]"
    using yield_effect [of k2 2 3 "[0, 0]" 0] k2 by (auto simp: is_runnable_def)
  obtain r4 k4 where k4: "yield_tick 0 k3 = Inr (r4, k4)" "initialized (sched k4)" "donate_target k4 = usize_MAX"
      "current_idx (sched k4) = 0" "ready_queue (sched k4) = [0, 2, 3]" "thread_states k4 = [Running, Ready, Ready, Ready]"
    using yield_effect [of k3 3 0 "[0, 2]" 0] k3 by (auto simp: is_runnable_def)
  then obtain k5 where k5: "mark_dead k4 = Inr k5" "initialized (sched k5)" "donate_target k5 = usize_MAX"
      "current_idx (sched k5) = 0" "ready_queue (sched k5) = [0, 2, 3]" "thread_states k5 = [Dead, Ready, Ready, Ready]"
    by (cases "threads (sched k4)") (auto simp: mark_dead_def with_thread_def thread_states_def)
  have "sched_run [MarkBlocked, Unblock 0, Yield 0, Yield 0, Yield 0, MarkDead] k = Inr k5"
    using k1(1) k2(1) k3(1) k4(1) k5(1) by auto
  with k k5 stale_entry_revives [of k5 0 "[2, 3]" 0] show ?thesis unfolding run_res_iff by auto
qed

end
