(* ===== verification/Kernel_Types.thy ===== *)
theory Kernel_Types
  imports Prelude
begin

text \<open>
  The kernel objects a file descriptor can refer to (\<^verbatim>\<open>FdObject\<close> of \<^verbatim>\<open>libkernel/src/file.rs\<close>). The
  source holds them behind \<^verbatim>\<open>Arc<IrqMutex<..>>\<close>; here a reference is the number of the object in the
  kernel's store, so that two descriptors of one object share it.
\<close>

datatype ChannelFd = Send nat | Recv nat

datatype FdObject =
    File nat
  | Port nat
  | Irq nat
  | Channel ChannelFd
  | SharedMem nat
  | Notify nat

definition as_file :: "FdObject \<Rightarrow> nat option" where
  "as_file obj = (case obj of File h \<Rightarrow> Some h | _ \<Rightarrow> None)"

definition as_port :: "FdObject \<Rightarrow> nat option" where
  "as_port obj = (case obj of Port p \<Rightarrow> Some p | _ \<Rightarrow> None)"

definition as_irq :: "FdObject \<Rightarrow> nat option" where
  "as_irq obj = (case obj of Irq i \<Rightarrow> Some i | _ \<Rightarrow> None)"

definition as_channel :: "FdObject \<Rightarrow> ChannelFd option" where
  "as_channel obj = (case obj of Channel c \<Rightarrow> Some c | _ \<Rightarrow> None)"

definition as_shmem :: "FdObject \<Rightarrow> nat option" where
  "as_shmem obj = (case obj of SharedMem s \<Rightarrow> Some s | _ \<Rightarrow> None)"

definition as_notify :: "FdObject \<Rightarrow> nat option" where
  "as_notify obj = (case obj of Notify n \<Rightarrow> Some n | _ \<Rightarrow> None)"

text \<open>\<^verbatim>\<open>TransferFds\<close>: the four object slots that travel with a message.\<close>

type_synonym TransferFds = "FdObject option list"

end
