(* ===== verification/Completion_Port.thy ===== *)
theory Completion_Port
  imports Spsc_Ring Scheduler Kernel_Types
begin

text \<open>
  The generic completion port of \<^verbatim>\<open>completion-port/src/port.rs\<close> (a bounded queue with one waiter) and
  the kernel's port of \<^verbatim>\<open>libkernel/src/completion_port.rs\<close>, which adds the shared-memory rings and
  wakes through the scheduler. A post never leaves the registered waiter asleep, and the queue is
  the bounded queue of the contract.
\<close>

subsection \<open>The generic port\<close>

definition DEFAULT_MAX_QUEUED :: nat where
  [const_defs]: "DEFAULT_MAX_QUEUED = 256"

record 'c port =
  port_queue :: "'c list"
  waiter :: "nat option"
  max_queued :: nat

definition port_new :: "'c port" where
  "port_new = \<lparr>port_queue = [], waiter = None, max_queued = DEFAULT_MAX_QUEUED\<rparr>"

definition with_max_queued :: "nat \<Rightarrow> 'c port" where
  "with_max_queued n = \<lparr>port_queue = [], waiter = None, max_queued = n\<rparr>"

text \<open>\<open>wake\<close> is the \<^verbatim>\<open>Waker\<close> the port is built with, acting on the state \<open>w\<close>.\<close>

definition wake_waiter :: "(nat \<Rightarrow> 'w \<Rightarrow> 'w) \<Rightarrow> 'c port \<Rightarrow> 'w \<Rightarrow> nat option \<times> 'c port \<times> 'w" where
  "wake_waiter wake p w =
     (case waiter p of
        Some t \<Rightarrow> (Some t, p\<lparr>waiter := None\<rparr>, wake t w)
      | None \<Rightarrow> (None, p, w))"

definition port_post :: "(nat \<Rightarrow> 'w \<Rightarrow> 'w) \<Rightarrow> 'c \<Rightarrow> 'c port \<Rightarrow> 'w \<Rightarrow> nat option \<times> 'c port \<times> 'w" where
  "port_post wake c p w =
     wake_waiter wake
       (if length (port_queue p) < max_queued p then p\<lparr>port_queue := port_queue p @ [c]\<rparr> else p) w"

definition port_drain :: "nat \<Rightarrow> 'c port \<Rightarrow> 'c list \<times> 'c port" where
  "port_drain n p =
     (let count = min n (length (port_queue p))
      in (take count (port_queue p), p\<lparr>port_queue := drop count (port_queue p)\<rparr>))"

definition port_set_waiter :: "nat \<Rightarrow> 'c port \<Rightarrow> 'c port" where
  "port_set_waiter token p = p\<lparr>waiter := Some token\<rparr>"

definition port_pending :: "'c port \<Rightarrow> nat" where
  "port_pending p = length (port_queue p)"

text \<open>The queue of a port is the bounded queue of the contract.\<close>

definition port_enq :: "'c \<Rightarrow> 'c port \<Rightarrow> 'c port" where
  "port_enq c p = fst (snd (port_post (\<lambda>_ w. w) c p ()))"

definition port_deq :: "'c port \<Rightarrow> 'c option \<times> 'c port" where
  "port_deq p = (case port_drain 1 p of (cs, p') \<Rightarrow> (case cs of [] \<Rightarrow> None | c # _ \<Rightarrow> Some c, p'))"

definition port_inv :: "'c port \<Rightarrow> bool" where
  "port_inv p \<longleftrightarrow> length (port_queue p) \<le> max_queued p"

lemma wake_waiter_simps [simp]:
  "port_queue (fst (snd (wake_waiter wake p w))) = port_queue p"
  "max_queued (fst (snd (wake_waiter wake p w))) = max_queued p"
  "waiter (fst (snd (wake_waiter wake p w))) = None"
  "fst (wake_waiter wake p w) = waiter p"
  by (auto simp: wake_waiter_def split: option.splits)

lemma port_deq_queue: "fst (port_deq p) = fst (list_deq (port_queue p))"
  "port_queue (snd (port_deq p)) = snd (list_deq (port_queue p))"
  "max_queued (snd (port_deq p)) = max_queued p"
  by (cases "port_queue p"; simp add: port_deq_def port_drain_def Let_def)+

interpretation port: bounded_fifo port_inv port_queue max_queued port_enq port_deq
  by unfold_locales
    (auto simp: port_inv_def port_deq_queue port_enq_def port_post_def list_enq_def list_deq_def split: list.splits)

lemma port_drain_conserves:
  "port_drain n p = (cs, p') \<Longrightarrow> cs @ port_queue p' = port_queue p \<and> length cs = min n (length (port_queue p))"
  by (auto simp: port_drain_def Let_def)

subsection \<open>What waking promises\<close>

text \<open>
  The contract of the \<^verbatim>\<open>Waker\<close> trait: the thread with the given token is not asleep afterwards, and
  no other thread's sleep is touched. From it, a port never loses a wake-up: a thread that sleeps
  on the port is its registered waiter and has nothing to collect.
\<close>

locale waker =
  fixes wake :: "nat \<Rightarrow> 'w \<Rightarrow> 'w"
    and asleep :: "'w \<Rightarrow> nat \<Rightarrow> bool"
  assumes wake_wakes: "\<not> asleep (wake t w) t"
    and wake_only: "t' \<noteq> t \<Longrightarrow> asleep (wake t w) t' = asleep w t'"
begin

lemma wake_waiter_wakes:
  assumes "wake_waiter wake p w = (r, p', w')"
  shows "waiter p' = None \<and> r = waiter p \<and> (\<forall>t. r = Some t \<longrightarrow> \<not> asleep w' t)
       \<and> (\<forall>t. r \<noteq> Some t \<longrightarrow> asleep w' t = asleep w t)"
proof (cases "waiter p")
  case None
  with assms show ?thesis by (auto simp: wake_waiter_def)
next
  case (Some t)
  with assms have "w' = wake t w" "p' = p\<lparr>waiter := None\<rparr>" "r = Some t" by (auto simp: wake_waiter_def)
  with Some show ?thesis by (auto simp: wake_wakes wake_only)
qed

lemma post_keeps_wait:
  assumes "asleep w t \<longrightarrow> waiter p = Some t" and "port_post wake c p w = (r, p', w')"
  shows "\<not> asleep w' t"
proof -
  let ?q = "if length (port_queue p) < max_queued p then p\<lparr>port_queue := port_queue p @ [c]\<rparr> else p"
  have "wake_waiter wake ?q w = (r, p', w')" using assms(2) by (simp add: port_post_def)
  from wake_waiter_wakes [OF this] assms(1) show ?thesis by (auto split: if_splits)
qed

end

text \<open>The scheduler's \<^verbatim>\<open>unblock\<close> keeps that contract (\<^verbatim>\<open>SchedulerWaker\<close>).\<close>

definition asleep :: "kernel \<Rightarrow> nat \<Rightarrow> bool" where
  "asleep k t \<longleftrightarrow> t < length (threads (sched k)) \<and> th_state (threads (sched k) ! t) = Blocked"

interpretation scheduler_waker: waker unblock asleep
  by unfold_locales (auto simp: asleep_def unblock_def Let_def nth_list_update_if)

subsection \<open>The kernel's port\<close>

definition OP_NOP :: u32 where [const_defs]: "OP_NOP = 0"

definition OP_TIMEOUT :: u32 where [const_defs]: "OP_TIMEOUT = 1"

definition OP_READ :: u32 where [const_defs]: "OP_READ = 2"

definition OP_WRITE :: u32 where [const_defs]: "OP_WRITE = 3"

definition OP_IRQ_WAIT :: u32 where [const_defs]: "OP_IRQ_WAIT = 4"

definition OP_IPC_SEND :: u32 where [const_defs]: "OP_IPC_SEND = 5"

definition OP_IPC_RECV :: u32 where [const_defs]: "OP_IPC_RECV = 6"

definition OP_RING_WAIT :: u32 where [const_defs]: "OP_RING_WAIT = 7"

record Completion =
  c_user_data :: u64
  c_result :: int
  c_flags :: u32
  c_opcode :: u32
  read_buf :: "u8 list option"
  read_dest :: nat
  transfer_fds :: "TransferFds option"

text \<open>A completion without data to copy.\<close>

definition simple_completion :: "u64 \<Rightarrow> int \<Rightarrow> u32 \<Rightarrow> Completion" where
  "simple_completion ud res op =
     \<lparr>c_user_data = ud, c_result = res, c_flags = 0, c_opcode = op, read_buf = None, read_dest = 0,
      transfer_fds = None\<rparr>"

record IoRing =
  sq_phys :: "nat list"
  cq_phys :: "nat list"
  sq_entries :: u32
  cq_entries :: u32
  sq_ring :: "IoSubmission SpscRing"
  cq_ring :: "IoCompletion SpscRing"

text \<open>The entries of a zeroed page, read as submissions and as completions.\<close>

definition zero_sqe :: IoSubmission where
  "zero_sqe = default_IoSubmission\<lparr>sub_fd := 0\<rparr>"

definition zero_cqe :: IoCompletion where
  "zero_cqe = \<lparr>cqe_user_data = 0, cqe_result = 0, cqe_flags = 0, cqe_opcode = 0\<rparr>"

definition zero_header :: RingHeader where
  "zero_header = \<lparr>hdr_head = 0, hdr_tail = 0, hdr_mask = 0, hdr_flags = 0\<rparr>"

text \<open>
  \<^verbatim>\<open>IoRing::new\<close>. Allocating one page is the memory manager's operation, passed in; a failure of the
  second allocation keeps what the first has taken.
\<close>

definition IoRing_new ::
  "('m \<Rightarrow> nat option \<times> 'm) \<Rightarrow> u32 \<Rightarrow> u32 \<Rightarrow> 'm \<Rightarrow> (IoRing option \<times> 'm) res" where
  "IoRing_new alloc_page sqn cqn m =
     (case alloc_page m of
        (None, m1) \<Rightarrow> Inr (None, m1)
      | (Some sq, m1) \<Rightarrow>
          (case alloc_page m1 of
             (None, m2) \<Rightarrow> Inr (None, m2)
           | (Some cq, m2) \<Rightarrow>
               bind_res (from_raw_parts zero_header (replicate (unat sqn) zero_sqe) sqn) (\<lambda>sr.
               bind_res (from_raw_parts zero_header (replicate (unat cqn) zero_cqe) cqn) (\<lambda>cr.
                 Inr (Some \<lparr>sq_phys = [sq], cq_phys = [cq], sq_entries = sqn, cq_entries = cqn,
                            sq_ring = init_header sr, cq_ring = init_header cr\<rparr>, m2)))))"

definition read_sqe :: "u32 \<Rightarrow> IoRing \<Rightarrow> IoSubmission" where
  "read_sqe index r = read_entry (sq_ring r) index"

definition post_cqe :: "IoCompletion \<Rightarrow> IoRing \<Rightarrow> bool \<times> IoRing" where
  "post_cqe cqe r = (case push cqe (cq_ring r) of (ok, cr) \<Rightarrow> (ok, r\<lparr>cq_ring := cr\<rparr>))"

definition sq_pending :: "IoRing \<Rightarrow> u32" where
  "sq_pending r = tail (sq_ring r) - head (sq_ring r)"

definition sq_head :: "IoRing \<Rightarrow> u32" where
  "sq_head r = head (sq_ring r)"

definition sq_tail :: "IoRing \<Rightarrow> u32" where
  "sq_tail r = tail (sq_ring r)"

definition advance_sq_head :: "u32 \<Rightarrow> IoRing \<Rightarrow> IoRing" where
  "advance_sq_head n r = r\<lparr>sq_ring := set_head (head (sq_ring r) + n) (sq_ring r)\<rparr>"

definition cq_available :: "IoRing \<Rightarrow> u32" where
  "cq_available r = tail (cq_ring r) - head (cq_ring r)"

text \<open>\<^verbatim>\<open>Drop for IoRing\<close>: release every frame, submission ring first.\<close>

definition drop_IoRing :: "(nat \<Rightarrow> 'm \<Rightarrow> 'm) \<Rightarrow> IoRing \<Rightarrow> 'm \<Rightarrow> 'm" where
  "drop_IoRing release_shared_frame r m =
     fold release_shared_frame (cq_phys r) (fold release_shared_frame (sq_phys r) m)"

record CompletionPort =
  inner :: "Completion port"
  io_ring :: "IoRing option"

definition CompletionPort_new :: CompletionPort where
  "CompletionPort_new = \<lparr>inner = port_new, io_ring = None\<rparr>"

definition to_cqe :: "Completion \<Rightarrow> IoCompletion" where
  "to_cqe c = \<lparr>cqe_user_data = c_user_data c, cqe_result = c_result c, cqe_flags = c_flags c, cqe_opcode = c_opcode c\<rparr>"

definition post :: "Completion \<Rightarrow> CompletionPort \<Rightarrow> kernel \<Rightarrow> nat option \<times> CompletionPort \<times> kernel" where
  "post c p k =
     (case io_ring p of
        Some rg \<Rightarrow>
          if read_buf c = None \<and> transfer_fds c = None then
            (case wake_waiter unblock (inner p) k of (woken, inn, k') \<Rightarrow>
               (woken, p\<lparr>inner := inn, io_ring := Some (snd (post_cqe (to_cqe c) rg))\<rparr>, k'))
          else
            (case port_post unblock c (inner p) k of (woken, inn, k') \<Rightarrow> (woken, p\<lparr>inner := inn\<rparr>, k'))
      | None \<Rightarrow>
          (case port_post unblock c (inner p) k of (woken, inn, k') \<Rightarrow> (woken, p\<lparr>inner := inn\<rparr>, k')))"

definition drain :: "nat \<Rightarrow> CompletionPort \<Rightarrow> Completion list \<times> CompletionPort" where
  "drain n p = (case port_drain n (inner p) of (cs, inn) \<Rightarrow> (cs, p\<lparr>inner := inn\<rparr>))"

definition set_waiter :: "nat \<Rightarrow> CompletionPort \<Rightarrow> CompletionPort" where
  "set_waiter t p = p\<lparr>inner := port_set_waiter t (inner p)\<rparr>"

definition pending :: "CompletionPort \<Rightarrow> nat" where
  "pending p = port_pending (inner p)"

definition has_ring :: "CompletionPort \<Rightarrow> bool" where
  "has_ring p \<longleftrightarrow> io_ring p \<noteq> None"

definition setup_ring :: "IoRing \<Rightarrow> CompletionPort \<Rightarrow> CompletionPort" where
  "setup_ring rg p = p\<lparr>io_ring := Some rg\<rparr>"

text \<open>
  The ports of the kernel, each behind a reference; posting through one, and a sequence of posts.
\<close>

type_synonym ports = "nat \<Rightarrow> CompletionPort"

definition post_at :: "nat \<Rightarrow> Completion \<Rightarrow> ports \<Rightarrow> kernel \<Rightarrow> nat option \<times> ports \<times> kernel" where
  "post_at i c ps k = (case post c (ps i) k of (woken, p', k') \<Rightarrow> (woken, ps(i := p'), k'))"

fun post_all :: "(nat \<times> Completion) list \<Rightarrow> ports \<times> kernel \<Rightarrow> ports \<times> kernel" where
  "post_all [] s = s"
| "post_all ((i, c) # cs) (ps, k) = post_all cs (snd (post_at i c ps k))"

lemma post_all_append: "post_all (xs @ ys) s = post_all ys (post_all xs s)"
  by (induction xs s rule: post_all.induct) auto

subsection \<open>Properties\<close>

text \<open>What a port holds for its consumer: the entries of the shared ring and the kernel queue.\<close>

definition cq_contents :: "CompletionPort \<Rightarrow> IoCompletion list" where
  "cq_contents p = (case io_ring p of None \<Rightarrow> [] | Some rg \<Rightarrow> ring_contents (cq_ring rg))"

definition is_simple :: "Completion \<Rightarrow> bool" where
  "is_simple c \<longleftrightarrow> read_buf c = None \<and> transfer_fds c = None"

definition cport_inv :: "CompletionPort \<Rightarrow> bool" where
  "cport_inv p \<longleftrightarrow> port_inv (inner p) \<and> (\<forall>rg. io_ring p = Some rg \<longrightarrow> ring_inv (cq_ring rg))"

text \<open>Where a completion goes, and whether there is room for it.\<close>

definition goes_to_ring :: "Completion \<Rightarrow> CompletionPort \<Rightarrow> bool" where
  "goes_to_ring c p \<longleftrightarrow> has_ring p \<and> is_simple c"

definition has_room :: "Completion \<Rightarrow> CompletionPort \<Rightarrow> bool" where
  "has_room c p \<longleftrightarrow>
     (if goes_to_ring c p
      then (\<forall>rg. io_ring p = Some rg \<longrightarrow> length (ring_contents (cq_ring rg)) < unat (entry_count (cq_ring rg)))
      else port_pending (inner p) < max_queued (inner p))"

lemma post_result:
  assumes "post c p k = (woken, p', k')"
  shows "woken = waiter (inner p) \<and> waiter (inner p') = None
       \<and> k' = (case waiter (inner p) of None \<Rightarrow> k | Some t \<Rightarrow> unblock t k)"
  using assms
  by (auto simp: post_def port_post_def wake_waiter_def split: option.splits if_splits prod.splits)

lemma post_contents:
  assumes "cport_inv p" and "post c p k = (woken, p', k')"
  shows "port_queue (inner p') =
           (if \<not> goes_to_ring c p \<and> has_room c p then port_queue (inner p) @ [c] else port_queue (inner p))"
    and "cq_contents p' = (if goes_to_ring c p \<and> has_room c p then cq_contents p @ [to_cqe c] else cq_contents p)"
    and "cport_inv p'"
proof -
  have enq: "ring_contents (push_fifo e r) = list_enq (unat (entry_count r)) e (ring_contents r)"
    "ring_inv (push_fifo e r)" if "ring_inv r" for e and r :: "IoCompletion SpscRing"
    using that by (simp_all add: spsc.contents_enq spsc.inv_enq)
  have cqe: "snd (post_cqe e r) = r\<lparr>cq_ring := push_fifo e (cq_ring r)\<rparr>" for e r
    by (simp add: post_cqe_def push_fifo_def split: prod.splits)
  show "port_queue (inner p') =
           (if \<not> goes_to_ring c p \<and> has_room c p then port_queue (inner p) @ [c] else port_queue (inner p))"
    and "cq_contents p' = (if goes_to_ring c p \<and> has_room c p then cq_contents p @ [to_cqe c] else cq_contents p)"
    and "cport_inv p'"
    using assms enq
    by (auto simp: post_def port_post_def wake_waiter_def goes_to_ring_def has_ring_def is_simple_def
        has_room_def port_pending_def cq_contents_def cport_inv_def port_inv_def cqe list_enq_def
        split: option.splits if_splits)
qed

text \<open>
  A posted completion reaches the consumer or is dropped whole. With room it is appended,
  unchanged, at the end of the shared completion ring (simple completions of a port with rings) or
  of the kernel queue (all others), and nothing else moves; without room both are left as they
  are. Either way the registered waiter, if any, is woken, and is no longer registered.
\<close>

theorem post_appends_and_wakes:
  assumes "cport_inv p" and "post c p k = (woken, p', k')"
  shows "cport_inv p' \<and> waiter (inner p') = None \<and> woken = waiter (inner p)
       \<and> (\<forall>t. waiter (inner p) = Some t \<longrightarrow> \<not> asleep k' t)
       \<and> (if has_room c p
          then if goes_to_ring c p
               then cq_contents p' = cq_contents p @ [to_cqe c] \<and> port_queue (inner p') = port_queue (inner p)
               else port_queue (inner p') = port_queue (inner p) @ [c] \<and> cq_contents p' = cq_contents p
          else cq_contents p' = cq_contents p \<and> port_queue (inner p') = port_queue (inner p))"
  using post_contents [OF assms] post_result [OF assms(2)] scheduler_waker.wake_wakes
  by (auto split: if_splits)

definition waiting_port :: CompletionPort where
  "waiting_port = CompletionPort_new\<lparr>inner := port_set_waiter 3 port_new\<rparr>"

theorem post_appends_and_wakes_witness:
  "cport_inv waiting_port
   \<and> (\<exists>p' k'. post (simple_completion 9 0 OP_NOP) waiting_port boot_kernel = (Some 3, p', k')
        \<and> port_queue (inner p') = [simple_completion 9 0 OP_NOP])"
proof -
  have inv: "cport_inv waiting_port"
    by (simp add: cport_inv_def waiting_port_def CompletionPort_new_def port_inv_def port_set_waiter_def port_new_def)
  obtain w p' k' where p: "post (simple_completion 9 0 OP_NOP) waiting_port boot_kernel = (w, p', k')"
    using prod_cases3 by blast
  have "has_room (simple_completion 9 0 OP_NOP) waiting_port" "\<not> goes_to_ring (simple_completion 9 0 OP_NOP) waiting_port"
    by (simp_all add: has_room_def goes_to_ring_def has_ring_def waiting_port_def CompletionPort_new_def
        port_set_waiter_def port_new_def port_pending_def const_defs)
  with post_appends_and_wakes [OF inv p] inv p show ?thesis
    by (auto simp: waiting_port_def CompletionPort_new_def port_set_waiter_def port_new_def)
qed

end
