(* ===== verification/Channel.thy ===== *)
theory Channel
  imports Completion_Port "HOL-Library.Multiset"
begin

text \<open>
  The IPC channels of \<^verbatim>\<open>libkernel/src/channel.rs\<close>. Every operation runs under the channel's lock and
  is one function from the channel and the scheduler's state to their new values, the action the
  caller has to take after releasing the lock, and the envelopes the operation drops (an envelope
  overwritten in its slot is dropped on the spot, which closes the descriptors in it). A buffered
  channel delivers in order what it accepts; messages are conserved in both kinds of channel, and
  the exact cases in which one is dropped are stated; a registered receiver never sleeps while there is
  something for it to receive.
\<close>

subsection \<open>Messages\<close>

record IpcMessage =
  msg_tag :: u64
  msg_data :: "u64 list"
  msg_fds :: "int list"

definition IpcMessage_ZERO :: IpcMessage where
  "IpcMessage_ZERO = \<lparr>msg_tag = 0, msg_data = replicate 3 0, msg_fds = replicate 4 (-1)\<rparr>"

record EnvelopedMessage =
  msg :: IpcMessage
  env_fds :: "TransferFds option"

definition plain :: "IpcMessage \<Rightarrow> EnvelopedMessage" where
  "plain m = \<lparr>msg = m, env_fds = None\<rparr>"

text \<open>The objects that dropping an envelope closes, in order.\<close>

definition drop_env :: "EnvelopedMessage \<Rightarrow> FdObject list" where
  "drop_env e = (case env_fds e of None \<Rightarrow> [] | Some slots \<Rightarrow> List.map_filter id slots)"

record PendingPortRecv =
  recv_port :: nat
  recv_user_data :: u64
  recv_buf_dest :: nat

record PendingPortSend =
  send_port :: nat
  send_user_data :: u64
  envelope :: EnvelopedMessage

datatype ArmSendAction =
    ArmSend_Ready
  | ReadyDonate nat
  | ReadyToRecvPort PendingPortRecv EnvelopedMessage
  | ArmSend_Armed
  | ArmSend_PeerClosed

datatype ArmRecvAction =
    ArmRecv_Ready EnvelopedMessage
  | ReadyAndNotifySendPort EnvelopedMessage nat u64
  | ArmRecv_Armed
  | ArmRecv_PeerClosed

datatype SendAction =
    Done
  | Donated nat
  | Send_Block
  | BlockWithMsg EnvelopedMessage
  | Send_WouldBlock EnvelopedMessage
  | Send_PeerClosed EnvelopedMessage
  | PostToPort PendingPortRecv EnvelopedMessage

datatype RecvAction =
    Message EnvelopedMessage
  | MessageAndNotifySendPort EnvelopedMessage nat u64
  | Recv_Block
  | Recv_WouldBlock
  | Recv_PeerClosed

datatype CloseSendAction = CloseSend_None | CloseSend_WakeThread nat | CloseSend_NotifyPort PendingPortRecv

datatype CloseRecvAction = CloseRecv_None | CloseRecv_WakeThread nat | CloseRecv_NotifyPort PendingPortSend

subsection \<open>The channel\<close>

record ChannelInner =
  ch_queue :: "EnvelopedMessage list"
  capacity :: nat
  pending_send :: "EnvelopedMessage option"
  blocked_sender :: "nat option"
  blocked_receiver :: "nat option"
  send_count :: nat
  recv_count :: nat
  pending_port :: "PendingPortRecv option"
  pending_send_port :: "PendingPortSend option"
  send_closed :: bool
  recv_closed :: bool

definition channel_new :: "nat \<Rightarrow> ChannelInner" where
  "channel_new cap =
     \<lparr>ch_queue = [], capacity = cap, pending_send = None, blocked_sender = None, blocked_receiver = None,
      send_count = 1, recv_count = 1, pending_port = None, pending_send_port = None,
      send_closed = False, recv_closed = False\<rparr>"

definition dup_send :: "ChannelInner \<Rightarrow> ChannelInner res" where
  "dup_send c = bind_res (add_u64 (send_count c) 1) (\<lambda>n. Inr (c\<lparr>send_count := n\<rparr>))"

definition dup_recv :: "ChannelInner \<Rightarrow> ChannelInner res" where
  "dup_recv c = bind_res (add_u64 (recv_count c) 1) (\<lambda>n. Inr (c\<lparr>recv_count := n\<rparr>))"

text \<open>Storing into a slot drops what it held.\<close>

definition opt_list :: "'a option \<Rightarrow> 'a list" where
  "opt_list x = (case x of None \<Rightarrow> [] | Some y \<Rightarrow> [y])"

definition wake_opt :: "nat option \<Rightarrow> kernel \<Rightarrow> kernel" where
  "wake_opt t k = (case t of None \<Rightarrow> k | Some i \<Rightarrow> unblock i k)"

definition try_send_sync ::
  "EnvelopedMessage \<Rightarrow> bool \<Rightarrow> ChannelInner \<Rightarrow> kernel \<Rightarrow> (SendAction \<times> ChannelInner \<times> kernel \<times> EnvelopedMessage list) res" where
  "try_send_sync env nonblock c k =
     (case blocked_receiver c of
        Some t \<Rightarrow>
          Inr (Donated t, c\<lparr>blocked_receiver := None, pending_send := Some env\<rparr>, unblock t k,
               opt_list (pending_send c))
      | None \<Rightarrow>
          (case pending_port c of
             Some pr \<Rightarrow> Inr (PostToPort pr env, c\<lparr>pending_port := None\<rparr>, k, [])
           | None \<Rightarrow>
               if nonblock then Inr (Send_WouldBlock env, c, k, [])
               else bind_res (mark_blocked k) (\<lambda>k'.
                 Inr (Send_Block,
                      c\<lparr>pending_send := Some env, blocked_sender := Some (current_thread_idx k)\<rparr>, k',
                      opt_list (pending_send c)))))"

definition try_send_async ::
  "EnvelopedMessage \<Rightarrow> bool \<Rightarrow> ChannelInner \<Rightarrow> kernel \<Rightarrow> (SendAction \<times> ChannelInner \<times> kernel \<times> EnvelopedMessage list) res" where
  "try_send_async env nonblock c k =
     (if length (ch_queue c) < capacity c then
        let c1 = c\<lparr>ch_queue := ch_queue c @ [env]\<rparr> in
        (case blocked_receiver c1 of
           Some t \<Rightarrow> Inr (Donated t, c1\<lparr>blocked_receiver := None\<rparr>, unblock t k, [])
         | None \<Rightarrow>
             (case pending_port c1 of
                Some pr \<Rightarrow>
                  (case ch_queue c1 of
                     [] \<Rightarrow> Inl UnwrapNone
                   | e # q \<Rightarrow> Inr (PostToPort pr e, c1\<lparr>pending_port := None, ch_queue := q\<rparr>, k, []))
              | None \<Rightarrow> Inr (Done, c1, k, [])))
      else if nonblock then Inr (Send_WouldBlock env, c, k, [])
      else bind_res (mark_blocked k) (\<lambda>k'.
        Inr (BlockWithMsg env, c\<lparr>blocked_sender := Some (current_thread_idx k)\<rparr>, k', [])))"

definition try_send ::
  "EnvelopedMessage \<Rightarrow> bool \<Rightarrow> ChannelInner \<Rightarrow> kernel \<Rightarrow> (SendAction \<times> ChannelInner \<times> kernel \<times> EnvelopedMessage list) res" where
  "try_send env nonblock c k =
     (if recv_closed c then Inr (Send_PeerClosed env, c, k, [])
      else if capacity c = 0 then try_send_sync env nonblock c k
      else try_send_async env nonblock c k)"

text \<open>The tail of both branches of \<^verbatim>\<open>try_recv\<close> when there is no message.\<close>

definition recv_nothing ::
  "bool \<Rightarrow> ChannelInner \<Rightarrow> kernel \<Rightarrow> (RecvAction \<times> ChannelInner \<times> kernel) res" where
  "recv_nothing nonblock c k =
     (if send_closed c then Inr (Recv_PeerClosed, c, k)
      else if nonblock then Inr (Recv_WouldBlock, c, k)
      else bind_res (mark_blocked k) (\<lambda>k'.
        Inr (Recv_Block, c\<lparr>blocked_receiver := Some (current_thread_idx k)\<rparr>, k')))"

definition try_recv :: "bool \<Rightarrow> ChannelInner \<Rightarrow> kernel \<Rightarrow> (RecvAction \<times> ChannelInner \<times> kernel) res" where
  "try_recv nonblock c k =
     (if capacity c = 0 then
        (case pending_send c of
           Some env \<Rightarrow>
             Inr (Message env, c\<lparr>pending_send := None, blocked_sender := None\<rparr>, wake_opt (blocked_sender c) k)
         | None \<Rightarrow>
             (case pending_send_port c of
                Some ps \<Rightarrow>
                  Inr (MessageAndNotifySendPort (envelope ps) (send_port ps) (send_user_data ps),
                       c\<lparr>pending_send_port := None\<rparr>, k)
              | None \<Rightarrow> recv_nothing nonblock c k))
      else
        (case ch_queue c of
           env # q \<Rightarrow>
             (case blocked_sender c of
                Some t \<Rightarrow> Inr (Message env, c\<lparr>ch_queue := q, blocked_sender := None\<rparr>, unblock t k)
              | None \<Rightarrow>
                  (case pending_send_port c of
                     Some ps \<Rightarrow>
                       Inr (MessageAndNotifySendPort env (send_port ps) (send_user_data ps),
                            c\<lparr>pending_send_port := None, ch_queue := q @ [envelope ps]\<rparr>, k)
                   | None \<Rightarrow> Inr (Message env, c\<lparr>ch_queue := q\<rparr>, k)))
         | [] \<Rightarrow> recv_nothing nonblock c k))"

definition is_recv_closed :: "ChannelInner \<Rightarrow> bool" where
  "is_recv_closed c = recv_closed c"

definition is_send_closed :: "ChannelInner \<Rightarrow> bool" where
  "is_send_closed c = send_closed c"

definition arm_send ::
  "PendingPortSend \<Rightarrow> ChannelInner \<Rightarrow> kernel \<Rightarrow> (ArmSendAction \<times> ChannelInner \<times> kernel \<times> EnvelopedMessage list) res" where
  "arm_send info c k =
     (if recv_closed c then Inr (ArmSend_PeerClosed, c, k, [envelope info])
      else if capacity c = 0 then
        (case blocked_receiver c of
           Some t \<Rightarrow>
             Inr (ReadyDonate t, c\<lparr>blocked_receiver := None, pending_send := Some (envelope info)\<rparr>, unblock t k,
                  opt_list (pending_send c))
         | None \<Rightarrow>
             (case pending_port c of
                Some pr \<Rightarrow> Inr (ReadyToRecvPort pr (envelope info), c\<lparr>pending_port := None\<rparr>, k, [])
              | None \<Rightarrow>
                  Inr (ArmSend_Armed, c\<lparr>pending_send_port := Some info\<rparr>, k,
                       map envelope (opt_list (pending_send_port c)))))
      else if length (ch_queue c) < capacity c then
        let c1 = c\<lparr>ch_queue := ch_queue c @ [envelope info]\<rparr> in
        (case blocked_receiver c1 of
           Some t \<Rightarrow> Inr (ReadyDonate t, c1\<lparr>blocked_receiver := None\<rparr>, unblock t k, [])
         | None \<Rightarrow>
             (case pending_port c1 of
                Some pr \<Rightarrow>
                  (case ch_queue c1 of
                     [] \<Rightarrow> Inl UnwrapNone
                   | e # q \<Rightarrow> Inr (ReadyToRecvPort pr e, c1\<lparr>pending_port := None, ch_queue := q\<rparr>, k, []))
              | None \<Rightarrow> Inr (ArmSend_Ready, c1, k, [])))
      else Inr (ArmSend_Armed, c\<lparr>pending_send_port := Some info\<rparr>, k,
                map envelope (opt_list (pending_send_port c))))"

text \<open>The common end of \<^verbatim>\<open>arm_recv\<close>.\<close>

definition arm_recv_nothing ::
  "PendingPortRecv \<Rightarrow> ChannelInner \<Rightarrow> kernel \<Rightarrow> ArmRecvAction \<times> ChannelInner \<times> kernel" where
  "arm_recv_nothing info c k =
     (if send_closed c then (ArmRecv_PeerClosed, c, k)
      else (ArmRecv_Armed, c\<lparr>pending_port := Some info\<rparr>, k))"

definition arm_recv ::
  "PendingPortRecv \<Rightarrow> ChannelInner \<Rightarrow> kernel \<Rightarrow> ArmRecvAction \<times> ChannelInner \<times> kernel" where
  "arm_recv info c k =
     (if capacity c = 0 then
        (case pending_send c of
           Some env \<Rightarrow>
             (ArmRecv_Ready env, c\<lparr>pending_send := None, blocked_sender := None\<rparr>, wake_opt (blocked_sender c) k)
         | None \<Rightarrow>
             (case pending_send_port c of
                Some ps \<Rightarrow>
                  (ReadyAndNotifySendPort (envelope ps) (send_port ps) (send_user_data ps),
                   c\<lparr>pending_send_port := None\<rparr>, k)
              | None \<Rightarrow> arm_recv_nothing info c k))
      else
        (case ch_queue c of
           env # q \<Rightarrow>
             (case blocked_sender c of
                Some t \<Rightarrow> (ArmRecv_Ready env, c\<lparr>ch_queue := q, blocked_sender := None\<rparr>, unblock t k)
              | None \<Rightarrow>
                  (case pending_send_port c of
                     Some ps \<Rightarrow>
                       (ReadyAndNotifySendPort env (send_port ps) (send_user_data ps),
                        c\<lparr>pending_send_port := None, ch_queue := q @ [envelope ps]\<rparr>, k)
                   | None \<Rightarrow> (ArmRecv_Ready env, c\<lparr>ch_queue := q\<rparr>, k)))
         | [] \<Rightarrow> arm_recv_nothing info c k))"

definition close_send :: "ChannelInner \<Rightarrow> kernel \<Rightarrow> (CloseSendAction \<times> ChannelInner \<times> kernel) res" where
  "close_send c k =
     bind_res (sub_u64 (send_count c) 1) (\<lambda>n.
       let c1 = c\<lparr>send_count := n\<rparr> in
       if n > 0 then Inr (CloseSend_None, c1, k)
       else
         (case blocked_receiver c1 of
            Some t \<Rightarrow> Inr (CloseSend_WakeThread t, c1\<lparr>send_closed := True, blocked_receiver := None\<rparr>, unblock t k)
          | None \<Rightarrow>
              (case pending_port c1 of
                 Some pr \<Rightarrow> Inr (CloseSend_NotifyPort pr, c1\<lparr>send_closed := True, pending_port := None\<rparr>, k)
               | None \<Rightarrow> Inr (CloseSend_None, c1\<lparr>send_closed := True\<rparr>, k))))"

definition close_recv :: "ChannelInner \<Rightarrow> kernel \<Rightarrow> (CloseRecvAction \<times> ChannelInner \<times> kernel) res" where
  "close_recv c k =
     bind_res (sub_u64 (recv_count c) 1) (\<lambda>n.
       let c1 = c\<lparr>recv_count := n\<rparr> in
       if n > 0 then Inr (CloseRecv_None, c1, k)
       else
         (case blocked_sender c1 of
            Some t \<Rightarrow> Inr (CloseRecv_WakeThread t, c1\<lparr>recv_closed := True, blocked_sender := None\<rparr>, unblock t k)
          | None \<Rightarrow>
              (case pending_send_port c1 of
                 Some ps \<Rightarrow> Inr (CloseRecv_NotifyPort ps, c1\<lparr>recv_closed := True, pending_send_port := None\<rparr>, k)
               | None \<Rightarrow> Inr (CloseRecv_None, c1\<lparr>recv_closed := True\<rparr>, k))))"

subsection \<open>Operations and what flows through them\<close>

datatype chan_op =
    Op_Send EnvelopedMessage bool
  | Op_Recv bool
  | Op_ArmSend PendingPortSend
  | Op_ArmRecv PendingPortRecv
  | Op_CloseSend
  | Op_CloseRecv
  | Op_DupSend
  | Op_DupRecv

text \<open>
  The messages an operation was given, took into the buffer, handed to a receiver, gave back to the
  sender, and dropped.
\<close>

record flow =
  fl_in :: "EnvelopedMessage list"
  fl_acc :: "EnvelopedMessage list"
  fl_out :: "EnvelopedMessage list"
  fl_back :: "EnvelopedMessage list"
  fl_drop :: "EnvelopedMessage list"

definition no_flow :: flow where
  "no_flow = \<lparr>fl_in = [], fl_acc = [], fl_out = [], fl_back = [], fl_drop = []\<rparr>"

fun send_flow :: "EnvelopedMessage \<Rightarrow> SendAction \<Rightarrow> flow" where
  "send_flow env Done = no_flow\<lparr>fl_in := [env], fl_acc := [env]\<rparr>"
| "send_flow env (Donated t) = no_flow\<lparr>fl_in := [env], fl_acc := [env]\<rparr>"
| "send_flow env Send_Block = no_flow\<lparr>fl_in := [env], fl_acc := [env]\<rparr>"
| "send_flow env (BlockWithMsg e) = no_flow\<lparr>fl_in := [env], fl_back := [e]\<rparr>"
| "send_flow env (Send_WouldBlock e) = no_flow\<lparr>fl_in := [env], fl_back := [e]\<rparr>"
| "send_flow env (Send_PeerClosed e) = no_flow\<lparr>fl_in := [env], fl_back := [e]\<rparr>"
| "send_flow env (PostToPort pr e) = no_flow\<lparr>fl_in := [env], fl_acc := [env], fl_out := [e]\<rparr>"

fun arm_send_flow :: "EnvelopedMessage \<Rightarrow> ArmSendAction \<Rightarrow> flow" where
  "arm_send_flow env ArmSend_Ready = no_flow\<lparr>fl_in := [env], fl_acc := [env]\<rparr>"
| "arm_send_flow env (ReadyDonate t) = no_flow\<lparr>fl_in := [env], fl_acc := [env]\<rparr>"
| "arm_send_flow env (ReadyToRecvPort pr e) = no_flow\<lparr>fl_in := [env], fl_acc := [env], fl_out := [e]\<rparr>"
| "arm_send_flow env ArmSend_Armed = no_flow\<lparr>fl_in := [env]\<rparr>"
| "arm_send_flow env ArmSend_PeerClosed = no_flow\<lparr>fl_in := [env]\<rparr>"

text \<open>A receive that satisfies an armed sender takes that sender's message into the buffer.\<close>

fun recv_flow :: "ChannelInner \<Rightarrow> RecvAction \<Rightarrow> flow" where
  "recv_flow c (Message e) = no_flow\<lparr>fl_out := [e]\<rparr>"
| "recv_flow c (MessageAndNotifySendPort e p ud) =
     no_flow\<lparr>fl_acc := map envelope (opt_list (pending_send_port c)), fl_out := [e]\<rparr>"
| "recv_flow c Recv_Block = no_flow"
| "recv_flow c Recv_WouldBlock = no_flow"
| "recv_flow c Recv_PeerClosed = no_flow"

fun arm_recv_flow :: "ChannelInner \<Rightarrow> ArmRecvAction \<Rightarrow> flow" where
  "arm_recv_flow c (ArmRecv_Ready e) = no_flow\<lparr>fl_out := [e]\<rparr>"
| "arm_recv_flow c (ReadyAndNotifySendPort e p ud) =
     no_flow\<lparr>fl_acc := map envelope (opt_list (pending_send_port c)), fl_out := [e]\<rparr>"
| "arm_recv_flow c ArmRecv_Armed = no_flow"
| "arm_recv_flow c ArmRecv_PeerClosed = no_flow"

fun close_recv_flow :: "CloseRecvAction \<Rightarrow> flow" where
  "close_recv_flow (CloseRecv_NotifyPort ps) = no_flow\<lparr>fl_back := [envelope ps]\<rparr>"
| "close_recv_flow CloseRecv_None = no_flow"
| "close_recv_flow (CloseRecv_WakeThread t) = no_flow"

fun chan_exec :: "chan_op \<Rightarrow> ChannelInner \<Rightarrow> kernel \<Rightarrow> (flow \<times> ChannelInner \<times> kernel) res" where
  "chan_exec (Op_Send env nb) c k =
     bind_res (try_send env nb c k) (\<lambda>(a, c', k', d). Inr ((send_flow env a)\<lparr>fl_drop := d\<rparr>, c', k'))"
| "chan_exec (Op_Recv nb) c k = bind_res (try_recv nb c k) (\<lambda>(a, c', k'). Inr (recv_flow c a, c', k'))"
| "chan_exec (Op_ArmSend ps) c k =
     bind_res (arm_send ps c k) (\<lambda>(a, c', k', d). Inr ((arm_send_flow (envelope ps) a)\<lparr>fl_drop := d\<rparr>, c', k'))"
| "chan_exec (Op_ArmRecv pr) c k = (case arm_recv pr c k of (a, c', k') \<Rightarrow> Inr (arm_recv_flow c a, c', k'))"
| "chan_exec Op_CloseSend c k = bind_res (close_send c k) (\<lambda>(a, c', k'). Inr (no_flow, c', k'))"
| "chan_exec Op_CloseRecv c k = bind_res (close_recv c k) (\<lambda>(a, c', k'). Inr (close_recv_flow a, c', k'))"
| "chan_exec Op_DupSend c k = bind_res (dup_send c) (\<lambda>c'. Inr (no_flow, c', k))"
| "chan_exec Op_DupRecv c k = bind_res (dup_recv c) (\<lambda>c'. Inr (no_flow, c', k))"

text \<open>The messages a channel holds, and one slot per kind of waiting party.\<close>

definition chan_messages :: "ChannelInner \<Rightarrow> EnvelopedMessage list" where
  "chan_messages c = ch_queue c @ opt_list (pending_send c) @ map envelope (opt_list (pending_send_port c))"

text \<open>
  A registered receiver has nothing to receive and its peer is open; a registered sender has a
  reason to wait (its message is still in the slot, or the buffer is full) and its peer is open;
  the closed flags say that the last descriptor of that end is gone.
\<close>

definition chan_inv :: "ChannelInner \<Rightarrow> bool" where
  "chan_inv c \<longleftrightarrow>
     (capacity c = 0 \<longrightarrow> ch_queue c = [])
   \<and> (capacity c > 0 \<longrightarrow> length (ch_queue c) \<le> capacity c \<and> pending_send c = None)
   \<and> (blocked_receiver c \<noteq> None \<longrightarrow>
        ch_queue c = [] \<and> pending_send c = None \<and> (capacity c = 0 \<longrightarrow> pending_send_port c = None) \<and> \<not> send_closed c)
   \<and> (blocked_sender c \<noteq> None \<longrightarrow>
        (if capacity c = 0 then pending_send c \<noteq> None else length (ch_queue c) = capacity c) \<and> \<not> recv_closed c)
   \<and> send_closed c = (send_count c = 0)
   \<and> recv_closed c = (recv_count c = 0)"

lemmas chan_op_defs = try_send_def try_send_sync_def try_send_async_def try_recv_def recv_nothing_def
  arm_send_def arm_recv_def arm_recv_nothing_def close_send_def close_recv_def dup_send_def dup_recv_def Let_def

lemma case_snoc [simp]:
  "(case xs @ [x] of [] \<Rightarrow> a | y # ys \<Rightarrow> f y ys) = f (hd (xs @ [x])) (tl (xs @ [x]))"
  by (cases xs) simp_all

lemma opt_list_simps [simp]: "opt_list None = []" "opt_list (Some x) = [x]"
  by (simp_all add: opt_list_def)

lemma no_flow_simps [simp]:
  "fl_in no_flow = []" "fl_acc no_flow = []" "fl_out no_flow = []" "fl_back no_flow = []" "fl_drop no_flow = []"
  by (simp_all add: no_flow_def)

lemma chan_inv_new: "chan_inv (channel_new cap)"
  by (simp add: chan_inv_def channel_new_def)

lemma try_send_inv:
  assumes "try_send env nb c k = Inr (a, c', k', d)" and "chan_inv c"
  shows "chan_inv c'"
  using assms
  by (clarsimp simp: chan_op_defs split: if_splits option.splits; simp add: chan_inv_def; auto)

lemma arm_send_inv:
  assumes "arm_send ps c k = Inr (a, c', k', d)" and "chan_inv c"
  shows "chan_inv c'"
  using assms
  by (clarsimp simp: chan_op_defs split: if_splits option.splits; simp add: chan_inv_def; auto)

lemma recv_nothing_inv:
  assumes "recv_nothing nb c k = Inr (a, c', k')" and "chan_inv c"
    and "ch_queue c = []" and "pending_send c = None" and "capacity c = 0 \<longrightarrow> pending_send_port c = None"
  shows "chan_inv c'"
  using assms
  by (clarsimp simp: recv_nothing_def split: if_splits; simp add: chan_inv_def; auto)

lemma arm_recv_nothing_inv:
  assumes "arm_recv_nothing pr c k = (a, c', k')" and "chan_inv c"
  shows "chan_inv c'"
  using assms by (auto simp: arm_recv_nothing_def chan_inv_def split: if_splits)

text \<open>Taking a message out keeps the invariant.\<close>

lemma take_inv:
  assumes "chan_inv c"
  shows "capacity c = 0 \<Longrightarrow> chan_inv (c\<lparr>pending_send := None, blocked_sender := None\<rparr>)"
    and "capacity c = 0 \<Longrightarrow> chan_inv (c\<lparr>pending_send_port := None\<rparr>)"
    and "ch_queue c = e # q \<Longrightarrow> chan_inv (c\<lparr>ch_queue := q, blocked_sender := None\<rparr>)"
    and "ch_queue c = e # q \<Longrightarrow> blocked_sender c = None \<Longrightarrow> chan_inv (c\<lparr>ch_queue := q\<rparr>)"
    and "ch_queue c = e # q \<Longrightarrow> blocked_sender c = None \<Longrightarrow>
           chan_inv (c\<lparr>pending_send_port := None, ch_queue := q @ [e']\<rparr>)"
  using assms by (simp_all add: chan_inv_def; auto)+

lemma chan_inv_slots:
  "chan_inv c \<Longrightarrow> 0 < capacity c \<Longrightarrow> pending_send c = None"
  "chan_inv c \<Longrightarrow> capacity c = 0 \<Longrightarrow> ch_queue c = []"
  by (simp_all add: chan_inv_def)

lemma try_recv_inv:
  assumes "try_recv nb c k = Inr (a, c', k')" and "chan_inv c"
  shows "chan_inv c'"
  using assms(1) take_inv [OF assms(2)] recv_nothing_inv [OF _ assms(2)] chan_inv_slots [OF assms(2)]
  by (auto simp: try_recv_def split: if_splits option.splits list.splits)

lemma arm_recv_inv:
  assumes "arm_recv pr c k = (a, c', k')" and "chan_inv c"
  shows "chan_inv c'"
  using assms(1) take_inv [OF assms(2)] arm_recv_nothing_inv [OF _ assms(2)]
  by (auto simp: arm_recv_def split: if_splits option.splits list.splits)

lemma close_inv:
  assumes "chan_inv c"
  shows "close_send c k = Inr (a, c', k') \<Longrightarrow> chan_inv c'"
    and "close_recv c k = Inr (b, c', k') \<Longrightarrow> chan_inv c'"
  using assms
  by (clarsimp simp: close_send_def close_recv_def Let_def split: if_splits option.splits;
      simp add: chan_inv_def; auto)+

text \<open>A descriptor is duplicated while it is open.\<close>

definition dup_live :: "chan_op \<Rightarrow> ChannelInner \<Rightarrow> bool" where
  "dup_live op c \<longleftrightarrow> (op = Op_DupSend \<longrightarrow> 0 < send_count c) \<and> (op = Op_DupRecv \<longrightarrow> 0 < recv_count c)"

lemma dup_inv:
  "chan_inv c \<Longrightarrow> dup_send c = Inr c' \<Longrightarrow> 0 < send_count c \<Longrightarrow> chan_inv c'"
  "chan_inv c \<Longrightarrow> dup_recv c = Inr c' \<Longrightarrow> 0 < recv_count c \<Longrightarrow> chan_inv c'"
  by (clarsimp simp: dup_send_def dup_recv_def; simp add: chan_inv_def; auto)+

lemma chan_exec_inv:
  assumes "chan_exec op c k = Inr (fl, c', k')" and "chan_inv c" and "dup_live op c"
  shows "chan_inv c'"
  using assms
  by (cases op) (auto simp: dup_live_def
      dest: try_send_inv try_recv_inv arm_send_inv arm_recv_inv close_inv dup_inv split: prod.splits)

lemma chan_exec_capacity:
  assumes "chan_exec op c k = Inr (fl, c', k')"
  shows "capacity c' = capacity c"
  using assms by (cases op; clarsimp simp: chan_op_defs split: if_splits option.splits list.splits)

lemma chan_exec_conserves:
  assumes "chan_exec op c k = Inr (fl, c', k')"
  shows "mset (chan_messages c) + mset (fl_in fl) =
           mset (chan_messages c') + mset (fl_out fl) + mset (fl_back fl) + mset (fl_drop fl)"
  using assms
  by (cases op; clarsimp simp: chan_op_defs chan_messages_def split: if_splits option.splits list.splits;
      (cases "ch_queue c"; simp add: chan_messages_def)?)

lemma chan_exec_fifo:
  assumes "chan_exec op c k = Inr (fl, c', k')" and "0 < capacity c"
  shows "ch_queue c @ fl_acc fl = fl_out fl @ ch_queue c'"
  using assms
  by (cases op; clarsimp simp: chan_op_defs split: if_splits option.splits list.splits;
      (cases "ch_queue c"; simp)?)

subsection \<open>Histories\<close>

text \<open>
  A history of a channel: operations of any threads, each in the scheduler state at its time.
\<close>

definition add_flow :: "flow \<Rightarrow> flow \<Rightarrow> flow" where
  "add_flow f g =
     \<lparr>fl_in = fl_in f @ fl_in g, fl_acc = fl_acc f @ fl_acc g, fl_out = fl_out f @ fl_out g,
      fl_back = fl_back f @ fl_back g, fl_drop = fl_drop f @ fl_drop g\<rparr>"

lemma add_flow_simps [simp]:
  "fl_in (add_flow f g) = fl_in f @ fl_in g" "fl_acc (add_flow f g) = fl_acc f @ fl_acc g"
  "fl_out (add_flow f g) = fl_out f @ fl_out g" "fl_back (add_flow f g) = fl_back f @ fl_back g"
  "fl_drop (add_flow f g) = fl_drop f @ fl_drop g"
  by (simp_all add: add_flow_def)

fun chan_run :: "(chan_op \<times> kernel) list \<Rightarrow> ChannelInner \<Rightarrow> (flow \<times> ChannelInner) res" where
  "chan_run [] c = Inr (no_flow, c)"
| "chan_run ((op, k) # evs) c =
     bind_res (chan_exec op c k) (\<lambda>(fl, c1, _).
     bind_res (chan_run evs c1) (\<lambda>(fl', c'). Inr (add_flow fl fl', c')))"

lemma chan_run_fifo:
  assumes "chan_run evs c = Inr (fl, c')" and "0 < capacity c"
  shows "ch_queue c @ fl_acc fl = fl_out fl @ ch_queue c' \<and> capacity c' = capacity c"
  using assms
proof (induction evs arbitrary: c fl)
  case (Cons ev evs)
  obtain op k where ev: "ev = (op, k)" by fastforce
  with Cons.prems(1) obtain f1 c1 k1 f2 where
    1: "chan_exec op c k = Inr (f1, c1, k1)" and 2: "chan_run evs c1 = Inr (f2, c')" and fl: "fl = add_flow f1 f2"
    by auto
  have "capacity c1 = capacity c" by (rule chan_exec_capacity [OF 1])
  with Cons.IH [OF 2] Cons.prems(2)
  have "ch_queue c1 @ fl_acc f2 = fl_out f2 @ ch_queue c' \<and> capacity c' = capacity c" by simp
  with chan_exec_fifo [OF 1 Cons.prems(2)] fl show ?case by (metis add_flow_simps(2,3) append.assoc)
qed simp

lemma chan_run_capacity: "chan_run evs c = Inr (fl, c') \<Longrightarrow> capacity c' = capacity c"
  by (induction evs arbitrary: c fl) (auto simp: chan_exec_capacity)

lemma chan_run_conserves:
  assumes "chan_run evs c = Inr (fl, c')"
  shows "mset (chan_messages c) + mset (fl_in fl) =
           mset (chan_messages c') + mset (fl_out fl) + mset (fl_back fl) + mset (fl_drop fl)"
  using assms
proof (induction evs arbitrary: c fl)
  case (Cons ev evs)
  obtain op k where ev: "ev = (op, k)" by fastforce
  with Cons.prems obtain f1 c1 k1 f2 where
    1: "chan_exec op c k = Inr (f1, c1, k1)" and 2: "chan_run evs c1 = Inr (f2, c')" and fl: "fl = add_flow f1 f2"
    by auto
  have "mset (chan_messages c) + mset (fl_in f1) + mset (fl_in f2) =
      (mset (chan_messages c1) + mset (fl_in f2)) + mset (fl_out f1) + mset (fl_back f1) + mset (fl_drop f1)"
    by (simp only: chan_exec_conserves [OF 1] ac_simps)
  also have "\<dots> = (mset (chan_messages c') + mset (fl_out f2) + mset (fl_back f2) + mset (fl_drop f2))
      + mset (fl_out f1) + mset (fl_back f1) + mset (fl_drop f1)"
    by (simp only: Cons.IH [OF 2])
  finally show ?case by (simp add: fl ac_simps)
qed simp

fun run_live :: "(chan_op \<times> kernel) list \<Rightarrow> ChannelInner \<Rightarrow> bool" where
  "run_live [] c = True"
| "run_live ((op, k) # evs) c =
     (dup_live op c \<and> (case chan_exec op c k of Inl _ \<Rightarrow> True | Inr (fl, c1, _) \<Rightarrow> run_live evs c1))"

lemma chan_run_inv:
  assumes "chan_run evs c = Inr (fl, c')" and "run_live evs c" and "chan_inv c"
  shows "chan_inv c'"
  using assms
proof (induction evs arbitrary: c fl)
  case (Cons ev evs)
  obtain op k where ev: "ev = (op, k)" by fastforce
  with Cons.prems obtain f1 c1 k1 f2 where
    1: "chan_exec op c k = Inr (f1, c1, k1)" and 2: "chan_run evs c1 = Inr (f2, c')"
    and "dup_live op c" "run_live evs c1"
    by auto
  from Cons.IH [OF 2 this(4) chan_exec_inv [OF 1 Cons.prems(3) this(3)]] show ?case .
qed simp

lemma chan_exec_dropped:
  assumes "chan_exec op c k = Inr (fl, c', k')" and "chan_inv c" and "fl_drop fl \<noteq> []"
  shows "(\<exists>env. op = Op_Send env False \<and> capacity c = 0 \<and> fl_drop fl = opt_list (pending_send c))
       \<or> (\<exists>ps. op = Op_ArmSend ps \<and> (fl_drop fl = [envelope ps] \<and> recv_closed c
                 \<or> fl_drop fl = map envelope (opt_list (pending_send_port c))))"
  using assms
  apply (cases op; clarsimp simp: chan_op_defs split: if_splits option.splits list.splits)
  apply (simp_all add: chan_inv_def)
  done

text \<open>A thread that an operation takes off the channel's books is awake, unless another thread registers in its place.\<close>

lemma chan_exec_wakes:
  assumes "chan_exec op c k = Inr (fl, c', k')"
  shows "blocked_receiver c = Some t \<Longrightarrow> blocked_receiver c' = Some t \<or> \<not> asleep k' t \<or> op = Op_Recv False"
    and "blocked_sender c = Some t \<Longrightarrow> blocked_sender c' = Some t \<or> \<not> asleep k' t \<or> (\<exists>env. op = Op_Send env False)"
  using assms
  by (cases op; clarsimp simp: chan_op_defs wake_opt_def scheduler_waker.wake_wakes split: if_splits option.splits list.splits)+

subsection \<open>Properties\<close>

text \<open>
  C8: A buffered channel delivers in order. In every history of a new channel of capacity at least
  one, whatever the operations and the threads, the messages accepted into the buffer, in the order
  of acceptance, are exactly those handed to receivers, in that order, followed by those still in
  the buffer: nothing accepted is lost, duplicated, reordered or dropped, and the buffer never
  exceeds its capacity.
\<close>

theorem channel_delivers_in_order:
  assumes "chan_run evs (channel_new cap) = Inr (fl, c)" and "run_live evs (channel_new cap)" and "0 < cap"
  shows "fl_acc fl = fl_out fl @ ch_queue c \<and> length (ch_queue c) \<le> cap"
proof -
  have "chan_inv c" by (rule chan_run_inv [OF assms(1,2) chan_inv_new])
  moreover from chan_run_fifo [OF assms(1)] assms(3)
  have "fl_acc fl = fl_out fl @ ch_queue c" "capacity c = cap" by (simp_all add: channel_new_def)
  ultimately show ?thesis using assms(3) by (simp add: chan_inv_def)
qed

definition hello :: EnvelopedMessage where
  "hello = plain (IpcMessage_ZERO\<lparr>msg_tag := 1\<rparr>)"

definition world :: EnvelopedMessage where
  "world = plain (IpcMessage_ZERO\<lparr>msg_tag := 2\<rparr>)"

lemma hello_world [simp]: "hello \<noteq> world"
  by (simp add: hello_def world_def plain_def IpcMessage_ZERO_def)

lemmas chan_eval = chan_op_defs sub_u64_def add_u64_def channel_new_def add_flow_def no_flow_def dup_live_def

definition exchange :: "(chan_op \<times> kernel) list" where
  "exchange = map (\<lambda>op. (op, boot_kernel)) [Op_Send hello False, Op_Send world True, Op_Recv False, Op_Send hello True, Op_CloseSend]"

theorem channel_delivers_in_order_witness:
  "\<exists>fl c. chan_run exchange (channel_new 2) = Inr (fl, c) \<and> fl_acc fl = fl_out fl @ ch_queue c
     \<and> fl_out fl = [hello] \<and> ch_queue c = [world, hello]"
proof -
  have live: "run_live exchange (channel_new 2)" by (simp add: exchange_def chan_eval)
  have "\<exists>fl c. chan_run exchange (channel_new 2) = Inr (fl, c) \<and> fl_out fl = [hello] \<and> ch_queue c = [world, hello]"
    by (simp add: exchange_def chan_eval)
  with channel_delivers_in_order [OF _ live] show ?thesis by auto
qed

text \<open>
  C9: Messages are conserved. Over any history of a channel of either kind, the messages it held
  and was given are those it holds, delivered, gave back and dropped, each as often as it came in; and one operation
  drops a message only in these cases: a blocking send on a rendezvous channel drops the message
  already in the slot, arming a send drops the message of the send armed before it, or arming
  a send drops its own message because the receive end is closed.
\<close>

theorem channel_conserves_messages:
  assumes "chan_run evs (channel_new cap) = Inr (fl, c)" and "run_live evs (channel_new cap)"
    and "chan_exec op c k = Inr (fl', c', k')"
  shows "mset (fl_in fl @ fl_in fl') =
           mset (chan_messages c' @ fl_out fl @ fl_out fl' @ fl_back fl @ fl_back fl' @ fl_drop fl @ fl_drop fl')
       \<and> (fl_drop fl' \<noteq> [] \<longrightarrow>
            (\<exists>env. op = Op_Send env False \<and> cap = 0 \<and> fl_drop fl' = opt_list (pending_send c))
          \<or> (\<exists>ps. op = Op_ArmSend ps \<and> fl_drop fl' = map envelope (opt_list (pending_send_port c)))
          \<or> (\<exists>ps. op = Op_ArmSend ps \<and> fl_drop fl' = [envelope ps] \<and> recv_closed c))"
proof -
  have inv: "chan_inv c" by (rule chan_run_inv [OF assms(1,2) chan_inv_new])
  have cap: "capacity c = cap" using chan_run_capacity [OF assms(1)] by (simp add: channel_new_def)
  have "mset (fl_in fl) = mset (chan_messages c) + mset (fl_out fl) + mset (fl_back fl) + mset (fl_drop fl)"
    using chan_run_conserves [OF assms(1)] by (simp add: chan_messages_def channel_new_def)
  with chan_exec_conserves [OF assms(3)] have
    "mset (fl_in fl @ fl_in fl') =
       mset (chan_messages c' @ fl_out fl @ fl_out fl' @ fl_back fl @ fl_back fl' @ fl_drop fl @ fl_drop fl')"
    by (simp add: ac_simps)
  with chan_exec_dropped [OF assms(3) inv] cap show ?thesis by blast
qed

definition one_thread :: kernel where
  "one_thread = boot_kernel\<lparr>sched := scheduler_new\<lparr>threads :=
     [\<lparr>th_id = 0, th_state = Running, saved_rsp = 0, th_pml4 = 0, ticks_remaining = 1, th_stack = None,
       th_kind = Kernel, kernel_stack_top = 0, th_user_rsp = 0, th_fs_base = 0\<rparr>]\<rparr>\<rparr>"

lemma mark_one_thread: "mark_blocked one_thread = Inr (one_thread\<lparr>sched := set_state 0 Blocked (sched one_thread)\<rparr>)"
  by (simp add: mark_blocked_def with_thread_def one_thread_def scheduler_new_def)

theorem channel_conserves_messages_witness:
  "\<exists>fl c fl' c' k'. chan_run [(Op_Send hello False, one_thread)] (channel_new 0) = Inr (fl, c)
     \<and> chan_exec (Op_Send world False) c one_thread = Inr (fl', c', k')
     \<and> fl_drop fl' = [hello] \<and> mset (fl_in fl @ fl_in fl') = mset (chan_messages c' @ fl_drop fl')"
proof -
  let ?evs = "[(Op_Send hello False, one_thread)]"
  obtain fl c where r: "chan_run ?evs (channel_new 0) = Inr (fl, c)" and c: "c = (channel_new 0)\<lparr>pending_send := Some hello, blocked_sender := Some (current_thread_idx one_thread)\<rparr>"
    and f: "fl_out fl = []" "fl_back fl = []" "fl_drop fl = []"
    by (simp add: chan_eval mark_one_thread)
  obtain fl' c' k' where e: "chan_exec (Op_Send world False) c one_thread = Inr (fl', c', k')"
    and f': "fl_out fl' = []" "fl_back fl' = []" "fl_drop fl' = [hello]"
    by (simp add: c chan_eval mark_one_thread)
  have "run_live ?evs (channel_new 0)" by (simp add: dup_live_def split: sum.splits)
  from channel_conserves_messages [OF r this e] r e f f' show ?thesis by auto
qed



text \<open>
  C14: A second blocking sender on a rendezvous channel defeats the first. When a sender sleeps on a
  rendezvous channel, with its message in the slot and no receiver there, another
  thread's blocking send overwrites both the message, which is dropped, and the record of the
  sleeping thread, which then stays asleep with nothing left in the channel that would wake it.
\<close>

theorem rendezvous_second_sender:
  assumes "capacity c = 0" and "\<not> recv_closed c" and "blocked_receiver c = None" and "pending_port c = None"
    and "pending_send c = Some e" and "blocked_sender c = Some t" and "asleep k t"
    and "current_idx (sched k) < length (threads (sched k))" and "current_thread_idx k \<noteq> t"
  shows "\<exists>c' k'. try_send env False c k = Inr (Send_Block, c', k', [e]) \<and> pending_send c' = Some env
            \<and> blocked_sender c' = Some (current_thread_idx k) \<and> blocked_receiver c' = None \<and> asleep k' t"
  using assms
  by (auto simp: try_send_def try_send_sync_def mark_blocked_def with_thread_def asleep_def set_state_def upd_thread_def
      nth_list_update_if)

definition second_thread :: kernel where
  "second_thread = one_thread\<lparr>current_thread_idx := 1,
     sched := (sched one_thread)\<lparr>current_idx := 1,
       threads := map (\<lambda>t. t\<lparr>th_state := Blocked\<rparr>) (threads (sched one_thread)) @ threads (sched one_thread)\<rparr>\<rparr>"

theorem rendezvous_second_sender_witness:
  "\<exists>fl c c' k'. chan_run [(Op_Send hello False, one_thread)] (channel_new 0) = Inr (fl, c)
     \<and> try_send world False c second_thread = Inr (Send_Block, c', k', [hello])
     \<and> blocked_sender c' = Some 1 \<and> asleep k' 0"
proof -
  obtain fl c where r: "chan_run [(Op_Send hello False, one_thread)] (channel_new 0) = Inr (fl, c)"
    and c: "c = (channel_new 0)\<lparr>pending_send := Some hello, blocked_sender := Some 0\<rparr>"
    by (simp add: chan_eval mark_one_thread) (simp add: one_thread_def boot_kernel_def)
  have k: "asleep second_thread 0" "current_idx (sched second_thread) < length (threads (sched second_thread))"
    "current_thread_idx second_thread = 1"
    by (simp_all add: second_thread_def one_thread_def asleep_def scheduler_new_def boot_kernel_def)
  have "\<exists>c' k'. try_send world False c second_thread = Inr (Send_Block, c', k', [hello]) \<and> pending_send c' = Some world
            \<and> blocked_sender c' = Some (current_thread_idx second_thread) \<and> blocked_receiver c' = None \<and> asleep k' 0"
    by (rule rendezvous_second_sender) (use k in \<open>simp_all add: c channel_new_def\<close>)
  with r k(3) show ?thesis by auto
qed

end
