(* ===== verification/Path.thy ===== *)
theory Path
  imports Prelude
begin

text \<open>
  Path normalisation and resolution (\<^verbatim>\<open>libkernel/src/path.rs\<close>). Strings are character lists;
  \<^verbatim>\<open>str::split\<close> at a separator is the function below. The result of \<^verbatim>\<open>normalize\<close> is canonical,
  normalising twice changes nothing, and resolving in two steps is resolving once.
\<close>

subsection \<open>Strings\<close>

fun split_at_char :: "char \<Rightarrow> string \<Rightarrow> string list" where
  "split_at_char c [] = [[]]"
| "split_at_char c (x # xs) =
     (if x = c then [] # split_at_char c xs
      else (case split_at_char c xs of [] \<Rightarrow> [[x]] | s # ss \<Rightarrow> (x # s) # ss))"

abbreviation slash :: char where
  "slash \<equiv> CHR ''/''"

definition starts_with :: "string \<Rightarrow> string \<Rightarrow> bool" where
  "starts_with p s \<longleftrightarrow> take (length p) s = p"

definition ends_with_slash :: "string \<Rightarrow> bool" where
  "ends_with_slash s \<longleftrightarrow> s \<noteq> [] \<and> last s = slash"

subsection \<open>Normalisation\<close>

definition path_step :: "string list \<Rightarrow> string \<Rightarrow> string list" where
  "path_step parts seg =
     (if seg = '''' \<or> seg = ''.'' then parts
      else if seg = ''..'' then butlast parts
      else parts @ [seg])"

definition show_parts :: "string list \<Rightarrow> string" where
  "show_parts parts = (if parts = [] then ''/'' else concat (map (\<lambda>p. slash # p) parts))"

definition path_parts :: "string \<Rightarrow> string list" where
  "path_parts path = foldl path_step [] (split_at_char slash path)"

definition normalize :: "string \<Rightarrow> string" where
  "normalize path = show_parts (path_parts path)"

definition resolve :: "string \<Rightarrow> string \<Rightarrow> string" where
  "resolve cwd path =
     normalize (if starts_with ''/'' path then path
                else if path = '''' then cwd
                else (if ends_with_slash cwd then cwd else cwd @ ''/'') @ path)"

subsection \<open>Splitting and joining\<close>

lemma split_at_char_nonempty [simp]: "split_at_char c s \<noteq> []"
  by (induction s) (auto split: list.splits)

lemma split_at_char_append: "split_at_char c (s @ c # t) = split_at_char c s @ split_at_char c t"
  by (induction s) (auto split: list.splits)

lemma join_split: "concat (map (\<lambda>p. c # p) (split_at_char c s)) = c # s"
  by (induction s) (auto split: list.splits)

lemma split_at_char_plain: "c \<notin> set s \<Longrightarrow> split_at_char c s = [s]"
  by (induction s) auto

lemma split_at_char_pieces: "p \<in> set (split_at_char c s) \<Longrightarrow> c \<notin> set p"
  by (induction s arbitrary: p) (auto split: list.splits if_splits)

lemma split_show_parts:
  "\<forall>p\<in>set parts. slash \<notin> set p \<Longrightarrow> split_at_char slash (concat (map (\<lambda>p. slash # p) parts)) = [] # parts"
  by (induction parts rule: rev_induct) (auto simp: split_at_char_append split_at_char_plain)

subsection \<open>Canonical paths\<close>

text \<open>A component that survives normalisation: no separator in it, and not one of the special names.\<close>

definition proper_name :: "string \<Rightarrow> bool" where
  "proper_name p \<longleftrightarrow> p \<noteq> '''' \<and> p \<noteq> ''.'' \<and> p \<noteq> ''..'' \<and> slash \<notin> set p"

definition canonical :: "string \<Rightarrow> bool" where
  "canonical s \<longleftrightarrow> s = ''/'' \<or> (\<exists>ps. ps \<noteq> [] \<and> split_at_char slash s = [] # ps \<and> (\<forall>p\<in>set ps. proper_name p))"

lemma path_step_proper:
  "\<forall>p\<in>set parts. proper_name p \<Longrightarrow> slash \<notin> set s \<Longrightarrow> \<forall>p\<in>set (path_step parts s). proper_name p"
  by (cases "s = '''' \<or> s = ''.'' \<or> s = ''..''") (auto simp: path_step_def proper_name_def [of s] dest: in_set_butlastD)

lemma foldl_path_step_proper:
  "\<forall>p\<in>set parts. proper_name p \<Longrightarrow> \<forall>s\<in>set segs. slash \<notin> set s \<Longrightarrow>
   \<forall>p\<in>set (foldl path_step parts segs). proper_name p"
proof (induction segs arbitrary: parts)
  case (Cons s segs)
  from Cons.prems have "\<forall>p\<in>set (path_step parts s). proper_name p" by (intro path_step_proper) simp_all
  from Cons.IH [OF this] Cons.prems(2) show ?case by simp
qed simp

lemma path_parts_proper: "\<forall>p\<in>set (path_parts path). proper_name p"
  unfolding path_parts_def by (rule foldl_path_step_proper) (auto dest: split_at_char_pieces)

lemma foldl_path_step_keep: "\<forall>p\<in>set segs. proper_name p \<Longrightarrow> foldl path_step parts segs = parts @ segs"
  by (induction segs arbitrary: parts) (simp_all add: path_step_def proper_name_def)

lemma path_parts_show: "\<forall>p\<in>set ps. proper_name p \<Longrightarrow> path_parts (show_parts ps) = ps"
proof (cases "ps = []")
  case False
  assume "\<forall>p\<in>set ps. proper_name p"
  with False show ?thesis
    by (simp add: path_parts_def show_parts_def split_show_parts proper_name_def foldl_path_step_keep path_step_def)
qed (simp add: path_parts_def show_parts_def path_step_def)

lemma path_parts_normalize [simp]: "path_parts (normalize p) = path_parts p"
  by (simp add: normalize_def path_parts_show path_parts_proper)

text \<open>The parts of a path that continues another.\<close>

lemma path_parts_join: "path_parts (a @ slash # b) = foldl path_step (path_parts a) (split_at_char slash b)"
  by (simp add: path_parts_def split_at_char_append)

definition join_path :: "string \<Rightarrow> string \<Rightarrow> string" where
  "join_path cwd path = cwd @ slash # path"

lemma foldl_path_step_empty [simp]: "foldl path_step parts ([] # segs) = foldl path_step parts segs"
  by (simp add: path_step_def)

lemma resolve_relative:
  assumes "\<not> starts_with ''/'' path"
  shows "resolve cwd path = normalize (join_path cwd path)"
proof -
  consider (empty) "path = ''''" | (slash) "path \<noteq> ''''" "ends_with_slash cwd" | (plain) "path \<noteq> ''''" "\<not> ends_with_slash cwd"
    by blast
  then show ?thesis
  proof cases
    case empty
    then show ?thesis
      by (simp add: resolve_def starts_with_def join_path_def normalize_def path_parts_join path_step_def)
  next
    case slash
    then obtain c where "cwd = c @ [slash]" by (metis append_butlast_last_id ends_with_slash_def)
    then have "path_parts (cwd @ path) = path_parts (join_path cwd path)"
      by (simp add: join_path_def path_parts_join path_step_def)
    with slash assms show ?thesis by (simp add: resolve_def normalize_def)
  next
    case plain
    with assms show ?thesis by (simp add: resolve_def join_path_def)
  qed
qed

subsection \<open>Properties\<close>

text \<open>
  C13: Normalisation gives a canonical path: the root, or a slash before each of its components,
  none of which is empty, a dot or two dots; and it changes no canonical path, so that normalising twice is
  normalising once.
\<close>

theorem normalize_canonical:
  "canonical (normalize path) \<and> normalize (normalize path) = normalize path
   \<and> (canonical s \<longrightarrow> normalize s = s)"
proof -
  have can: "canonical (show_parts ps)" if "\<forall>p\<in>set ps. proper_name p" for ps
    using that by (auto simp: canonical_def show_parts_def split_show_parts proper_name_def)
  have "normalize s = s" if "canonical s"
    using that unfolding canonical_def
  proof (elim disjE exE conjE)
    fix ps assume s: "ps \<noteq> []" "split_at_char slash s = [] # ps" and ps: "\<forall>p\<in>set ps. proper_name p"
    have "normalize s = show_parts ps"
      by (simp add: normalize_def path_parts_def s foldl_path_step_keep ps path_step_def)
    with join_split [of slash s] s show "normalize s = s" by (simp add: show_parts_def)
  qed (simp add: normalize_def path_parts_def path_step_def show_parts_def)
  with can path_parts_proper show ?thesis by (simp add: normalize_def path_parts_show)
qed

theorem normalize_canonical_witness:
  "canonical ''/foo/bar'' \<and> normalize ''/foo/bar'' = ''/foo/bar'' \<and> normalize ''/foo/./x/../bar/'' = ''/foo/bar''"
proof -
  have "canonical ''/foo/bar''" by (simp add: canonical_def proper_name_def)
  moreover from this normalize_canonical [of "''''" "''/foo/bar''"] have "normalize ''/foo/bar'' = ''/foo/bar''" by simp
  moreover have "normalize ''/foo/./x/../bar/'' = ''/foo/bar''"
    by (simp add: normalize_def path_parts_def path_step_def show_parts_def)
  ultimately show ?thesis by simp
qed

text \<open>
  Resolving in steps is resolving at once. Resolving a path against the result of resolving a
  non-empty one is resolving their concatenation; an absolute path does not depend on the
  directory.
\<close>

theorem resolve_compose:
  assumes "p \<noteq> ''''"
  shows "resolve (resolve cwd p) q =
     (if starts_with ''/'' q then normalize q else resolve cwd (p @ ''/'' @ q))"
proof (cases "starts_with ''/'' q")
  case False
  have abs: "starts_with ''/'' (p @ ''/'' @ q) = starts_with ''/'' p"
    using assms by (cases p) (auto simp: starts_with_def)
  have "resolve (resolve cwd p) q = show_parts (foldl path_step (path_parts (resolve cwd p)) (split_at_char slash q))"
    by (simp add: resolve_relative [OF False] normalize_def join_path_def path_parts_join)
  also have "\<dots> = resolve cwd (p @ ''/'' @ q)"
  proof (cases "starts_with ''/'' p")
    case True
    then show ?thesis by (simp add: resolve_def abs [simplified]) (simp add: normalize_def path_parts_join)
  next
    case rel: False
    then have rel': "\<not> starts_with ''/'' (p @ ''/'' @ q)" using abs by simp
    show ?thesis
      unfolding resolve_relative [OF rel] resolve_relative [OF rel']
      by (simp add: path_parts_show path_parts_proper normalize_def join_path_def
          path_parts_join [of "cwd @ slash # p", simplified])
  qed
  finally show ?thesis using False by simp
qed (simp add: resolve_def)

theorem resolve_compose_witness:
  "''../baz'' \<noteq> '''' \<and> resolve (resolve ''/foo/bar'' ''../baz'') ''x/..'' = ''/foo/baz''"
  using resolve_compose [of "''../baz''" "''/foo/bar''" "''x/..''"]
  by (simp add: starts_with_def resolve_def ends_with_slash_def normalize_def path_parts_def path_step_def show_parts_def)

end
