(* ===== verification/Signal.thy ===== *)
theory Signal
  imports Prelude
begin

text \<open>
  POSIX signal state (\<^verbatim>\<open>libkernel/src/signal.rs\<close>): dispositions, the pending and the blocked mask.
  The masks refine sets of signal numbers, and the dequeued signal is the least deliverable one.
\<close>

definition NUM_SIGNALS :: nat where [const_defs]: "NUM_SIGNALS = 64"

definition SIGHUP :: u8 where [const_defs]: "SIGHUP = 1"
definition SIGINT :: u8 where [const_defs]: "SIGINT = 2"
definition SIGQUIT :: u8 where [const_defs]: "SIGQUIT = 3"
definition SIGILL :: u8 where [const_defs]: "SIGILL = 4"
definition SIGTRAP :: u8 where [const_defs]: "SIGTRAP = 5"
definition SIGABRT :: u8 where [const_defs]: "SIGABRT = 6"
definition SIGBUS :: u8 where [const_defs]: "SIGBUS = 7"
definition SIGFPE :: u8 where [const_defs]: "SIGFPE = 8"
definition SIGKILL :: u8 where [const_defs]: "SIGKILL = 9"
definition SIGUSR1 :: u8 where [const_defs]: "SIGUSR1 = 10"
definition SIGSEGV :: u8 where [const_defs]: "SIGSEGV = 11"
definition SIGUSR2 :: u8 where [const_defs]: "SIGUSR2 = 12"
definition SIGPIPE :: u8 where [const_defs]: "SIGPIPE = 13"
definition SIGALRM :: u8 where [const_defs]: "SIGALRM = 14"
definition SIGTERM :: u8 where [const_defs]: "SIGTERM = 15"
definition SIGCHLD :: u8 where [const_defs]: "SIGCHLD = 17"
definition SIGCONT :: u8 where [const_defs]: "SIGCONT = 18"
definition SIGSTOP :: u8 where [const_defs]: "SIGSTOP = 19"

definition SIG_DFL :: u64 where [const_defs]: "SIG_DFL = 0"
definition SIG_IGN :: u64 where [const_defs]: "SIG_IGN = 1"
definition SA_SIGINFO :: u64 where [const_defs]: "SA_SIGINFO = 4"
definition SIG_BLOCK :: u64 where [const_defs]: "SIG_BLOCK = 0"
definition SIG_UNBLOCK :: u64 where [const_defs]: "SIG_UNBLOCK = 1"
definition SIG_SETMASK :: u64 where [const_defs]: "SIG_SETMASK = 2"

record SigAction =
  handler :: u64
  sa_flags :: u64
  restorer :: u64
  sa_mask :: u64

definition default_SigAction :: SigAction where
  "default_SigAction = \<lparr>handler = SIG_DFL, sa_flags = 0, restorer = 0, sa_mask = 0\<rparr>"

record SignalState =
  actions :: "SigAction list"
  sig_pending :: u64
  sig_blocked :: u64

definition SignalState_new :: SignalState where
  "SignalState_new = \<lparr>actions = replicate NUM_SIGNALS default_SigAction, sig_pending = 0, sig_blocked = 0\<rparr>"

definition queue :: "u8 \<Rightarrow> SignalState \<Rightarrow> SignalState" where
  "queue signum st =
     (if signum \<ge> 1 \<and> unat signum \<le> NUM_SIGNALS
      then st\<lparr>sig_pending := set_bit_at (unat (signum - 1)) (sig_pending st)\<rparr> else st)"

definition dequeue :: "SignalState \<Rightarrow> u8 option \<times> SignalState" where
  "dequeue st =
     (let deliverable = sig_pending st AND NOT (sig_blocked st) in
      if deliverable = 0 then (None, st)
      else
        let b = trailing_zeros deliverable
        in (Some (word_of_nat b + 1), st\<lparr>sig_pending := clear_bit_at b (sig_pending st)\<rparr>))"

definition is_default_terminate :: "u8 \<Rightarrow> bool" where
  "is_default_terminate signum \<longleftrightarrow>
     signum \<in> {SIGHUP, SIGINT, SIGQUIT, SIGILL, SIGTRAP, SIGABRT, SIGBUS, SIGFPE,
               SIGKILL, SIGUSR1, SIGSEGV, SIGUSR2, SIGPIPE, SIGALRM, SIGTERM}"

definition is_default_ignore :: "u8 \<Rightarrow> bool" where
  "is_default_ignore signum \<longleftrightarrow> signum \<in> {SIGCHLD, SIGCONT}"

subsection \<open>The masks as sets of signal numbers\<close>

definition signal_set :: "u64 \<Rightarrow> nat set" where
  "signal_set m = {n. 1 \<le> n \<and> n \<le> NUM_SIGNALS \<and> bit m (n - 1)}"

definition deliverable :: "SignalState \<Rightarrow> nat set" where
  "deliverable st = signal_set (sig_pending st) - signal_set (sig_blocked st)"

lemma finite_signal_set [simp]: "finite (signal_set m)"
  by (rule finite_subset [of _ "{..NUM_SIGNALS}"]) (auto simp: signal_set_def)

lemma signal_set_queue:
  "signal_set (sig_pending (queue signum st)) =
     (if 1 \<le> unat signum \<and> unat signum \<le> NUM_SIGNALS
      then insert (unat signum) (signal_set (sig_pending st)) else signal_set (sig_pending st))"
proof -
  have ge: "signum \<ge> 1 \<longleftrightarrow> 1 \<le> unat signum" by (simp add: word_le_nat_alt)
  have "unat (signum - 1) = unat signum - 1" if "1 \<le> unat signum"
    using that ge unat_sub [of 1 signum] by simp
  then show ?thesis
    unfolding queue_def ge
    by (auto simp: signal_set_def NUM_SIGNALS_def)
qed

lemma deliverable_mask: "deliverable st = signal_set (sig_pending st AND NOT (sig_blocked st))"
  by (auto simp: deliverable_def signal_set_def bit_and_iff bit_not_iff NUM_SIGNALS_def)

lemma signal_set_empty: "signal_set m = {} \<longleftrightarrow> m = 0"
proof
  assume e: "signal_set m = {}"
  show "m = 0"
  proof (rule ccontr)
    assume "m \<noteq> 0"
    from trailing_zeros_bit(1,2) [OF this] have "trailing_zeros m + 1 \<in> signal_set m"
      by (simp add: signal_set_def NUM_SIGNALS_def)
    with e show False by simp
  qed
qed (simp add: signal_set_def)

lemma Min_signal_set: "m \<noteq> 0 \<Longrightarrow> Min (signal_set m) = trailing_zeros m + 1"
proof (rule Min_eqI)
  assume m: "m \<noteq> 0"
  from trailing_zeros_bit [OF m] show "trailing_zeros m + 1 \<in> signal_set m"
    by (simp add: signal_set_def NUM_SIGNALS_def)
  fix n assume "n \<in> signal_set m"
  with trailing_zeros_bit(3) [OF m, of "n - 1"] show "trailing_zeros m + 1 \<le> n"
    by (fastforce simp: signal_set_def not_less)
qed simp

text \<open>
  Pending signals form a set. Queueing a valid number adds it and queueing an invalid one changes nothing; dequeueing
  returns nothing exactly when no pending signal is unblocked, and otherwise returns the
  least deliverable number, removes that one alone, and leaves mask and dispositions as they were.
\<close>

theorem signal_queue_refines_set:
  "signal_set (sig_pending (queue signum st)) =
     (if 1 \<le> unat signum \<and> unat signum \<le> NUM_SIGNALS
      then insert (unat signum) (signal_set (sig_pending st)) else signal_set (sig_pending st))
   \<and> (case dequeue st of
        (None, st') \<Rightarrow> deliverable st = {} \<and> st' = st
      | (Some s, st') \<Rightarrow>
          deliverable st \<noteq> {} \<and> unat s = Min (deliverable st)
        \<and> signal_set (sig_pending st') = signal_set (sig_pending st) - {unat s}
        \<and> sig_blocked st' = sig_blocked st \<and> actions st' = actions st)"
proof (cases "sig_pending st AND NOT (sig_blocked st) = 0")
  case True
  then show ?thesis
    by (simp add: signal_set_queue dequeue_def deliverable_mask signal_set_empty)
next
  case False
  let ?b = "trailing_zeros (sig_pending st AND NOT (sig_blocked st))"
  have lt: "?b < 64" using trailing_zeros_bit(2) [OF False] by simp
  then have s: "unat (word_of_nat ?b + 1 :: u8) = ?b + 1"
    by (simp add: unat_word_ariths unat_of_nat)
  have "signal_set (clear_bit_at ?b (sig_pending st)) = signal_set (sig_pending st) - {?b + 1}"
    using lt by (auto simp: signal_set_def NUM_SIGNALS_def)
  with False s Min_signal_set [OF False] show ?thesis
    by (simp add: signal_set_queue dequeue_def deliverable_mask signal_set_empty Let_def)
qed

end
