(* ===== verification/BTree_Map.thy ===== *)
theory BTree_Map
  imports Prelude
begin

text \<open>
  \<^verbatim>\<open>alloc::collections::BTreeMap\<close> as the source uses it: the entries in ascending order of their
  keys. A lookup is that of the association list; inserting replaces an entry of the same key.
\<close>

type_synonym ('k, 'v) btree = "('k \<times> 'v) list"

definition btree_ok :: "('k::linorder, 'v) btree \<Rightarrow> bool" where
  "btree_ok m \<longleftrightarrow> sorted_wrt (<) (map fst m)"

fun btree_insert :: "'k::linorder \<Rightarrow> 'v \<Rightarrow> ('k, 'v) btree \<Rightarrow> ('k, 'v) btree" where
  "btree_insert k v [] = [(k, v)]"
| "btree_insert k v ((k', v') # m) =
     (if k < k' then (k, v) # (k', v') # m
      else if k = k' then (k, v) # m
      else (k', v') # btree_insert k v m)"

definition btree_remove :: "'k \<Rightarrow> ('k, 'v) btree \<Rightarrow> ('k, 'v) btree" where
  "btree_remove k m = filter (\<lambda>e. fst e \<noteq> k) m"

definition btree_get :: "('k, 'v) btree \<Rightarrow> 'k \<Rightarrow> 'v option" where
  "btree_get m k = map_of m k"

definition btree_update :: "'k \<Rightarrow> ('v \<Rightarrow> 'v) \<Rightarrow> ('k, 'v) btree \<Rightarrow> ('k, 'v) btree" where
  "btree_update k f m = map (\<lambda>(k', v). (k', if k' = k then f v else v)) m"

lemma btree_ok_simps [simp]:
  "btree_ok []"
  "btree_ok (e # m) \<longleftrightarrow> (\<forall>e'\<in>set m. fst e < fst e') \<and> btree_ok m"
  by (auto simp: btree_ok_def)

lemma btree_ok_distinct: "btree_ok m \<Longrightarrow> distinct (map fst m)"
  by (induction m) auto

lemma set_btree_insert:
  "btree_ok m \<Longrightarrow> set (btree_insert k v m) = insert (k, v) {e \<in> set m. fst e \<noteq> k}"
  by (induction k v m rule: btree_insert.induct) (auto split: if_splits)

lemma btree_ok_insert [simp]: "btree_ok m \<Longrightarrow> btree_ok (btree_insert k v m)"
  by (induction k v m rule: btree_insert.induct) (auto simp: set_btree_insert)

lemma btree_get_iff: "btree_ok m \<Longrightarrow> btree_get m k = Some v \<longleftrightarrow> (k, v) \<in> set m"
  by (simp add: btree_get_def btree_ok_distinct)

lemma btree_get_insert [simp]: "btree_get (btree_insert k v m) k' = (if k' = k then Some v else btree_get m k')"
  by (induction m) (auto simp: btree_get_def)

lemma btree_ok_remove [simp]: "btree_ok m \<Longrightarrow> btree_ok (btree_remove k m)"
  by (induction m) (auto simp: btree_remove_def)

lemma btree_get_remove [simp]: "btree_get (btree_remove k m) k' = (if k' = k then None else btree_get m k')"
  by (induction m) (auto simp: btree_get_def btree_remove_def)

lemma btree_keys_update [simp]: "map fst (btree_update k f m) = map fst m"
  by (induction m) (auto simp: btree_update_def)

lemma btree_ok_update [simp]: "btree_ok (btree_update k f m) = btree_ok m"
  by (simp add: btree_ok_def)

lemma btree_get_update [simp]:
  "btree_get (btree_update k f m) k' = (if k' = k then map_option f (btree_get m k) else btree_get m k')"
  by (induction m) (auto simp: btree_get_def btree_update_def)

text \<open>Removing several keys, and inserting several entries with new keys.\<close>

lemma fold_btree_remove:
  "btree_ok m \<Longrightarrow> btree_ok (fold btree_remove ks m)
     \<and> set (fold btree_remove ks m) = {e \<in> set m. fst e \<notin> set ks}"
proof (induction ks arbitrary: m)
  case (Cons k ks)
  have "set (btree_remove k m) = {e \<in> set m. fst e \<noteq> k}" by (auto simp: btree_remove_def)
  with Cons.IH [of "btree_remove k m"] Cons.prems show ?case by auto
qed simp

lemma fold_btree_insert:
  assumes "btree_ok m" and "distinct (map fst es)" and "\<forall>e\<in>set es. fst e \<notin> fst ` set m"
  shows "btree_ok (fold (\<lambda>(k, v). btree_insert k v) es m)
       \<and> set (fold (\<lambda>(k, v). btree_insert k v) es m) = set m \<union> set es"
  using assms
proof (induction es arbitrary: m)
  case (Cons e es)
  obtain k v where e: "e = (k, v)" by fastforce
  have ok: "btree_ok (btree_insert k v m)" using Cons.prems(1) by simp
  have st: "set (btree_insert k v m) = insert (k, v) (set m)"
    using Cons.prems(1,3) e by (auto simp: set_btree_insert image_iff)
  have "\<forall>e'\<in>set es. fst e' \<notin> fst ` set (btree_insert k v m)"
    using Cons.prems(2,3) e by (auto simp: st)
  from Cons.IH [OF ok _ this] Cons.prems(2) e st show ?case by auto
qed simp

end
