(* ===== verification/Vma.thy ===== *)
theory Vma
  imports BTree_Map
begin

text \<open>
  Virtual memory areas: the map of a process (\<^verbatim>\<open>libkernel/src/process.rs\<close>), cutting and re-protecting
  ranges of it, and the top-down gap finder of \<^verbatim>\<open>libkernel/src/gap.rs\<close>. Cutting and re-protecting are
  shown at the level of single addresses; the gap finder's contract is a locale over the
  \<^verbatim>\<open>OccupiedRanges\<close> trait, interpreted on the VMA map.
\<close>

subsection \<open>The map\<close>

definition PROT_NONE :: u32 where [const_defs]: "PROT_NONE = 0"
definition PROT_READ :: u32 where [const_defs]: "PROT_READ = 1"
definition PROT_WRITE :: u32 where [const_defs]: "PROT_WRITE = 2"
definition PROT_EXEC :: u32 where [const_defs]: "PROT_EXEC = 4"
definition MAP_SHARED :: u32 where [const_defs]: "MAP_SHARED = 0x01"
definition MAP_PRIVATE :: u32 where [const_defs]: "MAP_PRIVATE = 0x02"
definition MAP_FIXED :: u32 where [const_defs]: "MAP_FIXED = 0x10"
definition MAP_ANONYMOUS :: u32 where [const_defs]: "MAP_ANONYMOUS = 0x20"

record Vma =
  vstart :: nat
  vlen :: nat
  vprot :: u32
  vflags :: u32
  vfd :: "nat option"
  voffset :: nat

type_synonym vma_map = "(nat, Vma) btree"

text \<open>The x86-64 page-table flags that the kernel sets for user pages.\<close>

record PageTableFlags =
  PRESENT :: bool
  WRITABLE :: bool
  USER_ACCESSIBLE :: bool
  NO_EXECUTE :: bool

definition prot_to_page_flags :: "u32 \<Rightarrow> PageTableFlags" where
  "prot_to_page_flags p =
     (if p = PROT_NONE
      then \<lparr>PRESENT = False, WRITABLE = False, USER_ACCESSIBLE = True, NO_EXECUTE = False\<rparr>
      else \<lparr>PRESENT = True, WRITABLE = (p AND PROT_WRITE \<noteq> 0), USER_ACCESSIBLE = True,
            NO_EXECUTE = (p AND PROT_EXEC = 0)\<rparr>)"

definition page_table_flags :: "Vma \<Rightarrow> PageTableFlags" where
  "page_table_flags v = prot_to_page_flags (vprot v)"

definition vend :: "Vma \<Rightarrow> nat" where
  "vend v = vstart v + vlen v"

text \<open>The entries with a key below \<open>e\<close> whose area reaches beyond \<open>s\<close>.\<close>

definition overlapping :: "nat \<Rightarrow> nat \<Rightarrow> vma_map \<Rightarrow> vma_map" where
  "overlapping s e m = filter (\<lambda>(k, v). k < e \<and> vend v > s) m"

text \<open>\<^verbatim>\<open>to_remove\<close> and \<^verbatim>\<open>to_insert\<close> applied, in this order.\<close>

definition apply_mutations :: "nat list \<Rightarrow> (nat \<times> Vma) list \<Rightarrow> vma_map \<Rightarrow> vma_map" where
  "apply_mutations to_remove to_insert m =
     fold (\<lambda>(k, v). btree_insert k v) to_insert (fold btree_remove to_remove m)"

text \<open>The body of the loop of \<^verbatim>\<open>munmap_vmas\<close>: the pages to free and the fragments to keep.\<close>

definition munmap_one :: "nat \<Rightarrow> nat \<Rightarrow> Vma \<Rightarrow> (nat \<times> nat) \<times> (nat \<times> Vma) list" where
  "munmap_one s e v =
     (if s \<le> vstart v \<and> e \<ge> vend v then ((vstart v, vlen v div PAGE_SIZE), [])
      else if s \<le> vstart v \<and> e < vend v then
        let removed = e - vstart v
        in ((vstart v, removed div PAGE_SIZE), [(e, v\<lparr>vstart := e, vlen := vlen v - removed\<rparr>)])
      else if s > vstart v \<and> e \<ge> vend v then
        let removed = vend v - s
        in ((s, removed div PAGE_SIZE), [(vstart v, v\<lparr>vlen := s - vstart v\<rparr>)])
      else
        ((s, (e - s) div PAGE_SIZE),
         [(vstart v, v\<lparr>vlen := s - vstart v\<rparr>), (e, v\<lparr>vstart := e, vlen := vend v - e\<rparr>)]))"

definition munmap_vmas :: "nat \<Rightarrow> nat \<Rightarrow> vma_map \<Rightarrow> ((nat \<times> nat) list \<times> vma_map) res" where
  "munmap_vmas s l m =
     bind_res (add_u64 s l) (\<lambda>e.
       let ov = overlapping s e m;
           rs = map (\<lambda>(k, v). munmap_one s e v) ov
       in Inr (map fst rs, apply_mutations (map fst ov) (concat (map snd rs)) m))"

definition mprotect_one :: "nat \<Rightarrow> nat \<Rightarrow> u32 \<Rightarrow> Vma \<Rightarrow> (nat \<times> nat) \<times> (nat \<times> Vma) list" where
  "mprotect_one s e p v =
     (if s \<le> vstart v \<and> e \<ge> vend v then
        ((vstart v, vlen v div PAGE_SIZE), [(vstart v, v\<lparr>vprot := p\<rparr>)])
      else if s \<le> vstart v \<and> e < vend v then
        let front_len = e - vstart v
        in ((vstart v, front_len div PAGE_SIZE),
            [(vstart v, v\<lparr>vlen := front_len, vprot := p\<rparr>), (e, v\<lparr>vstart := e, vlen := vend v - e\<rparr>)])
      else if s > vstart v \<and> e \<ge> vend v then
        let tail_len = vend v - s
        in ((s, tail_len div PAGE_SIZE),
            [(vstart v, v\<lparr>vlen := s - vstart v\<rparr>), (s, v\<lparr>vstart := s, vlen := tail_len, vprot := p\<rparr>)])
      else
        ((s, (e - s) div PAGE_SIZE),
         [(vstart v, v\<lparr>vlen := s - vstart v\<rparr>), (s, v\<lparr>vstart := s, vlen := e - s, vprot := p\<rparr>),
          (e, v\<lparr>vstart := e, vlen := vend v - e\<rparr>)]))"

definition mprotect_vmas :: "nat \<Rightarrow> nat \<Rightarrow> u32 \<Rightarrow> vma_map \<Rightarrow> ((nat \<times> nat) list \<times> vma_map) res" where
  "mprotect_vmas s l p m =
     bind_res (add_u64 s l) (\<lambda>e.
       let ov = overlapping s e m;
           rs = map (\<lambda>(k, v). mprotect_one s e p v) ov
       in Inr (map fst rs, apply_mutations (map fst ov) (concat (map snd rs)) m))"

subsection \<open>Well-formed maps, address by address\<close>

definition covers :: "Vma \<Rightarrow> nat \<Rightarrow> bool" where
  "covers v a \<longleftrightarrow> vstart v \<le> a \<and> a < vend v"

definition page_aligned :: "nat \<Rightarrow> bool" where
  "page_aligned a \<longleftrightarrow> a mod PAGE_SIZE = 0"

definition vma_ok :: "nat \<times> Vma \<Rightarrow> bool" where
  "vma_ok e \<longleftrightarrow> fst e = vstart (snd e) \<and> 0 < vlen (snd e) \<and> page_aligned (vstart (snd e))
     \<and> page_aligned (vlen (snd e)) \<and> vend (snd e) < 2 ^ 64"

definition apart :: "Vma \<Rightarrow> Vma \<Rightarrow> bool" where
  "apart v w \<longleftrightarrow> vend v \<le> vstart w \<or> vend w \<le> vstart v"

definition vmap_ok :: "vma_map \<Rightarrow> bool" where
  "vmap_ok m \<longleftrightarrow> btree_ok m \<and> (\<forall>x\<in>set m. vma_ok x)
     \<and> (\<forall>x\<in>set m. \<forall>y\<in>set m. x \<noteq> y \<longrightarrow> apart (snd x) (snd y))"

text \<open>The area an address lies in, and its attributes.\<close>

definition vma_at :: "vma_map \<Rightarrow> nat \<Rightarrow> Vma option" where
  "vma_at m a = List.find (\<lambda>v. covers v a) (map snd m)"

definition attr_at :: "vma_map \<Rightarrow> nat \<Rightarrow> (u32 \<times> u32 \<times> nat option) option" where
  "attr_at m a = map_option (\<lambda>v. (vprot v, vflags v, vfd v)) (vma_at m a)"

text \<open>The fragments of one area: well-formed, apart from each other, and inside it.\<close>

definition fragments_of :: "Vma \<Rightarrow> (nat \<times> Vma) list \<Rightarrow> bool" where
  "fragments_of v fs \<longleftrightarrow>
     (\<forall>x\<in>set fs. vma_ok x \<and> vstart v \<le> vstart (snd x) \<and> vend (snd x) \<le> vend v)
   \<and> sorted_wrt (\<lambda>x y. vend (snd x) \<le> vstart (snd y)) fs"

abbreviation before :: "nat \<times> Vma \<Rightarrow> nat \<times> Vma \<Rightarrow> bool" where
  "before x y \<equiv> vend (snd x) \<le> vstart (snd y)"

lemma vmap_ok_sorted: "vmap_ok m \<Longrightarrow> sorted_wrt before m"
proof (induction m)
  case (Cons x m)
  have "before x y" if y: "y \<in> set m" for y
  proof -
    have lt: "fst x < fst y" using Cons.prems y by (auto simp: vmap_ok_def)
    moreover have "apart (snd x) (snd y)" using Cons.prems y lt by (force simp: vmap_ok_def)
    moreover have "vma_ok x" "vma_ok y" using Cons.prems y by (auto simp: vmap_ok_def)
    ultimately show ?thesis by (auto simp: apart_def vma_ok_def vend_def)
  qed
  moreover have "vmap_ok m" using Cons.prems by (auto simp: vmap_ok_def)
  ultimately show ?case using Cons.IH by simp
qed simp

lemma sorted_distinct_keys:
  "sorted_wrt before xs \<Longrightarrow> \<forall>x\<in>set xs. vma_ok x \<Longrightarrow> distinct (map fst xs)"
  by (induction xs) (force simp: vma_ok_def vend_def)+

lemma sorted_pair: "sorted_wrt R xs \<Longrightarrow> x \<in> set xs \<Longrightarrow> y \<in> set xs \<Longrightarrow> x \<noteq> y \<Longrightarrow> R x y \<or> R y x"
  by (induction xs) auto

lemma sorted_fragments:
  assumes "sorted_wrt before ov" and "\<forall>x\<in>set ov. fragments_of (snd x) (frag (snd x))"
  shows "sorted_wrt before (concat (map (\<lambda>x. frag (snd x)) ov))"
  using assms by (induction ov) (force simp: sorted_wrt_append fragments_of_def)+

lemma vma_at_iff:
  assumes "vmap_ok m"
  shows "vma_at m a = Some v \<longleftrightarrow> v \<in> snd ` set m \<and> covers v a"
proof
  assume "vma_at m a = Some v"
  then show "v \<in> snd ` set m \<and> covers v a"
    unfolding vma_at_def find_Some_iff by (auto simp del: map_map)
next
  assume v: "v \<in> snd ` set m \<and> covers v a"
  then obtain w where w: "vma_at m a = Some w"
    by (cases "vma_at m a") (auto simp: vma_at_def find_None_iff)
  then have "w \<in> snd ` set m \<and> covers w a"
    unfolding vma_at_def find_Some_iff by auto
  with v assms have "w = v" by (force simp: vmap_ok_def apart_def covers_def)
  with w show "vma_at m a = Some v" by simp
qed

text \<open>
  Replacing areas by fragments of them: the map stays well-formed, and an address lies in the
  fragment that covers it.
\<close>

lemma apply_mutations_set:
  assumes m: "vmap_ok m" and ov: "ov = filter P m"
    and fr: "\<forall>x\<in>set ov. fragments_of (snd x) (frag (snd x))"
  shows "vmap_ok (apply_mutations (map fst ov) (concat (map (\<lambda>x. frag (snd x)) ov)) m)"
    and "set (apply_mutations (map fst ov) (concat (map (\<lambda>x. frag (snd x)) ov)) m) =
           {x \<in> set m. \<not> P x} \<union> (\<Union>x\<in>set ov. set (frag (snd x)))"
proof -
  let ?m1 = "fold btree_remove (map fst ov) m" and ?ins = "concat (map (\<lambda>x. frag (snd x)) ov)"
  let ?m' = "apply_mutations (map fst ov) ?ins m"
  have bt: "btree_ok m" and okm: "\<forall>x\<in>set m. vma_ok x" and sep: "\<forall>x\<in>set m. \<forall>y\<in>set m. x \<noteq> y \<longrightarrow> apart (snd x) (snd y)"
    using m by (auto simp: vmap_ok_def)
  have key: "x = y" if "x \<in> set m" "y \<in> set m" "fst x = fst y" for x y
    using btree_ok_distinct [OF bt] that by (metis distinct_map inj_onD)
  have m1: "btree_ok ?m1" "set ?m1 = {x \<in> set m. \<not> P x}"
    using fold_btree_remove [OF bt, of "map fst ov"] key by (auto simp: ov)
  have srt: "sorted_wrt before ?ins"
    using fr ov sorted_wrt_filter [OF vmap_ok_sorted [OF m]] by (intro sorted_fragments) auto
  have okins: "\<forall>x\<in>set ?ins. vma_ok x" using fr by (auto simp: fragments_of_def)
  have in_area: "\<exists>x\<in>set m. P x \<and> vstart (snd x) \<le> vstart (snd f) \<and> vend (snd f) \<le> vend (snd x)"
    if "f \<in> set ?ins" for f
    using that fr ov by (force simp: fragments_of_def)
  have kept_apart: "apart (snd x) (snd f) \<and> fst f \<noteq> fst x" if x: "x \<in> set ?m1" and f: "f \<in> set ?ins" for x f
  proof -
    obtain y where y: "y \<in> set m" "P y" "vstart (snd y) \<le> vstart (snd f)" "vend (snd f) \<le> vend (snd y)"
      using in_area [OF f] by blast
    have "apart (snd x) (snd y)" using sep x y m1(2) by auto
    moreover have "vma_ok f" "vma_ok x" using okins f okm x m1(2) by auto
    ultimately show ?thesis using y by (auto simp: apart_def vma_ok_def vend_def)
  qed
  have new: "\<forall>e\<in>set ?ins. fst e \<notin> fst ` set ?m1" using kept_apart by fastforce
  note ins = fold_btree_insert [OF m1(1) sorted_distinct_keys [OF srt okins] new]
  show st: "set ?m' = {x \<in> set m. \<not> P x} \<union> (\<Union>x\<in>set ov. set (frag (snd x)))"
    using ins m1(2) by (auto simp: apply_mutations_def)
  have "apart (snd x) (snd y)" if "x \<in> set ?m'" "y \<in> set ?m'" "x \<noteq> y" for x y
  proof -
    have "x \<in> set ?m1 \<or> x \<in> set ?ins" "y \<in> set ?m1 \<or> y \<in> set ?ins" using that st m1(2) by auto
    moreover have "apart (snd y) (snd x) = apart (snd x) (snd y)" by (auto simp: apart_def)
    moreover have "apart (snd x) (snd y)" if "x \<in> set ?ins" "y \<in> set ?ins"
      using sorted_pair [OF srt that \<open>x \<noteq> y\<close>] by (auto simp: apart_def)
    ultimately show ?thesis using kept_apart sep m1(2) \<open>x \<noteq> y\<close> by blast
  qed
  moreover have "\<forall>x\<in>set ?m'. vma_ok x" using st okins okm by auto
  ultimately show "vmap_ok ?m'" using ins by (auto simp: vmap_ok_def apply_mutations_def)
qed

lemma vma_at_apply_mutations:
  assumes m: "vmap_ok m" and ov: "ov = filter P m"
    and fr: "\<forall>x\<in>set ov. fragments_of (snd x) (frag (snd x))"
  shows "vma_at (apply_mutations (map fst ov) (concat (map (\<lambda>x. frag (snd x)) ov)) m) a =
           (case vma_at m a of
              None \<Rightarrow> None
            | Some v \<Rightarrow> if P (vstart v, v) then List.find (\<lambda>w. covers w a) (map snd (frag v)) else Some v)"
    (is "vma_at ?m' a = ?r")
proof -
  note ok = apply_mutations_set(1) [OF assms] and st = apply_mutations_set(2) [OF assms]
  have entry: "x = (vstart (snd x), snd x)" if "x \<in> set m" for x
    using m that by (cases x) (auto simp: vmap_ok_def vma_ok_def)
  have inside: "covers v a" if "v \<in> snd ` set ov" "w \<in> snd ` set (frag v)" "covers w a" for v w
    using that fr by (fastforce simp: fragments_of_def covers_def)
  show ?thesis
  proof (cases ?r)
    case (Some w)
    then obtain v where v: "vma_at m a = Some v" by (auto split: option.splits)
    then have vm: "(vstart v, v) \<in> set m" "covers v a" using vma_at_iff [OF m] entry by force+
    have "w \<in> snd ` set ?m' \<and> covers w a"
    proof (cases "P (vstart v, v)")
      case True
      with Some v have "List.find (\<lambda>u. covers u a) (map snd (frag v)) = Some w" by simp
      then have "w \<in> snd ` set (frag v)" "covers w a" unfolding find_Some_iff by auto
      moreover have "(vstart v, v) \<in> set ov" using ov vm True by simp
      ultimately show ?thesis using st by force
    qed (use Some v vm st in force)
    with Some vma_at_iff [OF ok] show ?thesis by simp
  next
    case None
    have False if w: "w \<in> snd ` set ?m'" "covers w a" for w
    proof -
      from w(1) obtain x where x: "x \<in> set ?m'" "w = snd x" by auto
      show False
      proof (cases "x \<in> set m \<and> \<not> P x")
        case True
        then have "vma_at m a = Some w" using vma_at_iff [OF m] w(2) x(2) by blast
        moreover have "\<not> P (vstart w, w)" using entry [of x] True x(2) by simp
        ultimately show False using None by simp
      next
        case False
        then obtain y where y: "y \<in> set ov" "x \<in> set (frag (snd y))" using x(1) st by auto
        have "covers (snd y) a" using inside [of "snd y" w] w(2) x(2) y by auto
        then have "vma_at m a = Some (snd y)" using vma_at_iff [OF m] y(1) ov by auto
        moreover have "P (vstart (snd y), snd y)" using entry [of y] y(1) ov by auto
        moreover have "List.find (\<lambda>u. covers u a) (map snd (frag (snd y))) \<noteq> None"
          using y(2) w(2) x(2) by (auto simp: find_None_iff)
        ultimately show False using None by simp
      qed
    qed
    then have "vma_at ?m' a = None" using vma_at_iff [OF ok] by (cases "vma_at ?m' a") auto
    with None show ?thesis by simp
  qed
qed

subsection \<open>Cutting and re-protecting\<close>

lemma page_aligned_arith [intro, simp]:
  "page_aligned a \<Longrightarrow> page_aligned b \<Longrightarrow> page_aligned (a + b)"
  "page_aligned a \<Longrightarrow> page_aligned b \<Longrightarrow> page_aligned (a - b)"
proof -
  show "page_aligned a \<Longrightarrow> page_aligned b \<Longrightarrow> page_aligned (a + b)"
    by (simp add: page_aligned_def mod_eq_0_iff_dvd)
  show "page_aligned a \<Longrightarrow> page_aligned b \<Longrightarrow> page_aligned (a - b)"
    unfolding page_aligned_def mod_eq_0_iff_dvd by (rule dvd_diff_nat)
qed

lemma vma_ok_aligned: "vma_ok (k, v) \<Longrightarrow> page_aligned (vstart v) \<and> page_aligned (vend v)"
  by (auto simp: vma_ok_def vend_def)

text \<open>What overlaps a range.\<close>

definition touches :: "nat \<Rightarrow> nat \<Rightarrow> nat \<times> Vma \<Rightarrow> bool" where
  "touches s e x \<longleftrightarrow> fst x < e \<and> vend (snd x) > s"

lemma overlapping_filter: "overlapping s e m = filter (touches s e) m"
  by (auto simp: overlapping_def touches_def intro: filter_cong)

lemma munmap_one_fragments:
  assumes "vma_ok x" and "touches s e x" and "s < e" and "page_aligned s" and "page_aligned e"
  shows "fragments_of (snd x) (snd (munmap_one s e (snd x)))"
  using assms
  by (auto simp: munmap_one_def fragments_of_def vma_ok_def touches_def vend_def Let_def)

lemma mprotect_one_fragments:
  assumes "vma_ok x" and "touches s e x" and "s < e" and "page_aligned s" and "page_aligned e"
  shows "fragments_of (snd x) (snd (mprotect_one s e p (snd x)))"
  using assms
  by (auto simp: mprotect_one_def fragments_of_def vma_ok_def touches_def vend_def Let_def)

lemma munmap_one_at:
  assumes "covers v a" and "s < e" and "touches s e (vstart v, v)"
  shows "map_option (\<lambda>w. (vprot w, vflags w, vfd w)) (List.find (\<lambda>w. covers w a) (map snd (snd (munmap_one s e v)))) =
           (if s \<le> a \<and> a < e then None else Some (vprot v, vflags v, vfd v))"
  using assms by (auto simp: munmap_one_def covers_def vend_def touches_def Let_def)

lemma mprotect_one_at:
  assumes "covers v a" and "s < e" and "touches s e (vstart v, v)"
  shows "map_option (\<lambda>w. (vprot w, vflags w, vfd w)) (List.find (\<lambda>w. covers w a) (map snd (snd (mprotect_one s e p v)))) =
           Some (if s \<le> a \<and> a < e then p else vprot v, vflags v, vfd v)"
  using assms by (auto simp: mprotect_one_def covers_def vend_def touches_def Let_def)

text \<open>The two operations, given what they do to one area.\<close>

lemma rewrite_at:
  assumes m: "vmap_ok m"
    and fr: "\<And>x. vma_ok x \<Longrightarrow> touches s e x \<Longrightarrow> fragments_of (snd x) (frag (snd x))"
    and at: "\<And>v. covers v a \<Longrightarrow> touches s e (vstart v, v) \<Longrightarrow>
               map_option (\<lambda>w. (vprot w, vflags w, vfd w)) (List.find (\<lambda>w. covers w a) (map snd (frag v))) = eff v"
    and out: "\<And>v. \<not> (s \<le> a \<and> a < e) \<Longrightarrow> eff v = Some (vprot v, vflags v, vfd v)"
  shows "attr_at (apply_mutations (map fst (overlapping s e m))
             (concat (map (\<lambda>x. frag (snd x)) (overlapping s e m))) m) a =
           (case vma_at m a of None \<Rightarrow> None | Some v \<Rightarrow> eff v)"
    and "vmap_ok (apply_mutations (map fst (overlapping s e m))
             (concat (map (\<lambda>x. frag (snd x)) (overlapping s e m))) m)"
proof -
  have fr': "\<forall>x\<in>set (overlapping s e m). fragments_of (snd x) (frag (snd x))"
    using m fr by (auto simp: overlapping_filter vmap_ok_def)
  show "vmap_ok (apply_mutations (map fst (overlapping s e m))
             (concat (map (\<lambda>x. frag (snd x)) (overlapping s e m))) m)"
    by (rule apply_mutations_set(1) [OF m overlapping_filter fr'])
  show "attr_at (apply_mutations (map fst (overlapping s e m))
             (concat (map (\<lambda>x. frag (snd x)) (overlapping s e m))) m) a =
           (case vma_at m a of None \<Rightarrow> None | Some v \<Rightarrow> eff v)"
  proof (cases "vma_at m a")
    case None
    then show ?thesis by (simp add: attr_at_def vma_at_apply_mutations [OF m overlapping_filter fr'])
  next
    case (Some v)
    then have c: "covers v a" using vma_at_iff [OF m] by blast
    show ?thesis
    proof (cases "touches s e (vstart v, v)")
      case True
      with Some at [OF c] show ?thesis
        by (simp add: attr_at_def vma_at_apply_mutations [OF m overlapping_filter fr'])
    next
      case False
      then have "\<not> (s \<le> a \<and> a < e)" using c by (auto simp: touches_def covers_def)
      with False Some out show ?thesis
        by (simp add: attr_at_def vma_at_apply_mutations [OF m overlapping_filter fr'])
    qed
  qed
qed

text \<open>The addresses of a list of page ranges.\<close>

definition range_addrs :: "(nat \<times> nat) list \<Rightarrow> nat set" where
  "range_addrs rs = (\<Union>(b, n)\<in>set rs. {b..<b + n * PAGE_SIZE})"

lemma aligned_div: "page_aligned n \<Longrightarrow> n div PAGE_SIZE * PAGE_SIZE = n"
  by (auto simp: page_aligned_def)

lemma one_addrs:
  assumes "vma_ok x" and "touches s e x" and "s < e" and "page_aligned s" and "page_aligned e"
  shows "range_addrs [fst (munmap_one s e (snd x))] = {a. covers (snd x) a \<and> s \<le> a \<and> a < e}"
    and "range_addrs [fst (mprotect_one s e p (snd x))] = {a. covers (snd x) a \<and> s \<le> a \<and> a < e}"
  using assms
  by (auto simp: range_addrs_def munmap_one_def mprotect_one_def vma_ok_def touches_def covers_def vend_def
      aligned_div Let_def)

lemma overlapping_addrs:
  assumes m: "vmap_ok m"
    and one: "\<And>x. vma_ok x \<Longrightarrow> touches s e x \<Longrightarrow> range_addrs [f (snd x)] = {a. covers (snd x) a \<and> s \<le> a \<and> a < e}"
  shows "range_addrs (map (\<lambda>x. f (snd x)) (overlapping s e m)) = {a. s \<le> a \<and> a < e \<and> vma_at m a \<noteq> None}"
proof -
  have "range_addrs (map (\<lambda>x. f (snd x)) (overlapping s e m)) = (\<Union>x\<in>set (overlapping s e m). range_addrs [f (snd x)])"
    by (auto simp: range_addrs_def)
  also have "\<dots> = (\<Union>x\<in>set (overlapping s e m). {a. covers (snd x) a \<and> s \<le> a \<and> a < e})"
    using m one by (auto simp: overlapping_filter vmap_ok_def)
  also have "\<dots> = {a. s \<le> a \<and> a < e \<and> (\<exists>v\<in>snd ` set m. covers v a)}"
  proof -
    have "x \<in> set (overlapping s e m)" if "x \<in> set m" "covers (snd x) a" "s \<le> a" "a < e" for x a
      using m that by (auto simp: overlapping_filter touches_def covers_def vmap_ok_def vma_ok_def)
    then show ?thesis by (auto simp: overlapping_filter)
  qed
  also have "\<dots> = {a. s \<le> a \<and> a < e \<and> vma_at m a \<noteq> None}"
    using vma_at_iff [OF m] by auto
  finally show ?thesis .
qed

text \<open>
  C11: Unmapping a page-aligned range removes exactly that range. In a well-formed map (page-aligned,
  disjoint areas, each under its start address) every address of the range is unmapped
  afterwards, every other address keeps its protection, flags and file, the result is well-formed,
  and the page ranges returned for freeing cover exactly the addresses of the range that were mapped.
\<close>

theorem munmap_exact:
  assumes "vmap_ok m" and "page_aligned s" and "page_aligned l" and "0 < l" and "s + l < 2 ^ 64"
  shows "run_res (munmap_vmas s l m) (\<lambda>(freed, m').
           vmap_ok m'
         \<and> (\<forall>a. attr_at m' a = (if s \<le> a \<and> a < s + l then None else attr_at m a))
         \<and> range_addrs freed = {a. s \<le> a \<and> a < s + l \<and> vma_at m a \<noteq> None})"
proof -
  let ?e = "s + l" and ?f = "\<lambda>v. snd (munmap_one s (s + l) v)"
  have al: "s < ?e" "page_aligned ?e" using assms by auto
  note frag = munmap_one_fragments [OF _ _ al(1) assms(2) al(2)]
  have eff: "vmap_ok (apply_mutations (map fst (overlapping s ?e m)) (concat (map (\<lambda>x. ?f (snd x)) (overlapping s ?e m))) m)"
    "attr_at (apply_mutations (map fst (overlapping s ?e m)) (concat (map (\<lambda>x. ?f (snd x)) (overlapping s ?e m))) m) a =
       (if s \<le> a \<and> a < ?e then None else attr_at m a)" for a
    using rewrite_at [where frag = ?f and a = a and s = s and e = ?e, OF assms(1) frag munmap_one_at [OF _ al(1)]]
    by (auto simp: attr_at_def split: option.splits)
  have "range_addrs (map (\<lambda>x. fst (munmap_one s ?e (snd x))) (overlapping s ?e m)) =
      {a. s \<le> a \<and> a < ?e \<and> vma_at m a \<noteq> None}"
    by (rule overlapping_addrs [OF assms(1) one_addrs(1) [OF _ _ al(1) assms(2) al(2)]])
  with eff assms(5) show ?thesis
    by (simp add: munmap_vmas_def run_res_iff add_u64_def Let_def comp_def split_def)
qed

text \<open>
  Changing the protection of a page-aligned range changes exactly that. Addresses of the range that are mapped get the new
  protection and keep flags and file, all other addresses keep everything, no address becomes
  mapped or unmapped, the result is well-formed, and the page ranges returned for the page-table
  update are exactly the mapped addresses of the range.
\<close>

theorem mprotect_exact:
  assumes "vmap_ok m" and "page_aligned s" and "page_aligned l" and "0 < l" and "s + l < 2 ^ 64"
  shows "run_res (mprotect_vmas s l p m) (\<lambda>(upd, m').
           vmap_ok m'
         \<and> (\<forall>a. attr_at m' a = map_option (\<lambda>(q, fl, fd). (if s \<le> a \<and> a < s + l then p else q, fl, fd)) (attr_at m a))
         \<and> range_addrs upd = {a. s \<le> a \<and> a < s + l \<and> vma_at m a \<noteq> None})"
proof -
  let ?e = "s + l" and ?f = "\<lambda>v. snd (mprotect_one s (s + l) p v)"
  have al: "s < ?e" "page_aligned ?e" using assms by auto
  note frag = mprotect_one_fragments [OF _ _ al(1) assms(2) al(2)]
  have out: "Some (if s \<le> a \<and> a < ?e then p else vprot v, vflags v, vfd v) = Some (vprot v, vflags v, vfd v)"
    if "\<not> (s \<le> a \<and> a < ?e)" for a v using that by auto
  have eff: "vmap_ok (apply_mutations (map fst (overlapping s ?e m)) (concat (map (\<lambda>x. ?f (snd x)) (overlapping s ?e m))) m)"
    "attr_at (apply_mutations (map fst (overlapping s ?e m)) (concat (map (\<lambda>x. ?f (snd x)) (overlapping s ?e m))) m) a =
       map_option (\<lambda>(q, fl, fd). (if s \<le> a \<and> a < ?e then p else q, fl, fd)) (attr_at m a)" for a
    using rewrite_at [where frag = ?f and a = a and s = s and e = ?e, OF assms(1) frag mprotect_one_at [OF _ al(1)] out]
    by (simp_all add: attr_at_def split: option.splits)
  have "range_addrs (map (\<lambda>x. fst (mprotect_one s ?e p (snd x))) (overlapping s ?e m)) =
      {a. s \<le> a \<and> a < ?e \<and> vma_at m a \<noteq> None}"
    by (rule overlapping_addrs [OF assms(1) one_addrs(2) [OF _ _ al(1) assms(2) al(2)]])
  with eff assms(5) show ?thesis
    by (simp add: mprotect_vmas_def run_res_iff add_u64_def Let_def comp_def split_def)
qed

definition one_area :: vma_map where
  "one_area = [(0x1000, \<lparr>vstart = 0x1000, vlen = 0x4000, vprot = PROT_READ, vflags = MAP_PRIVATE, vfd = None, voffset = 0\<rparr>)]"

lemma one_area_ok: "vmap_ok one_area"
  by (simp add: one_area_def vmap_ok_def vma_ok_def page_aligned_def vend_def PAGE_SIZE_def)

theorem munmap_exact_witness:
  "run_res (munmap_vmas 0x2000 0x1000 one_area) (\<lambda>(freed, m').
     vmap_ok m' \<and> attr_at m' 0x2800 = None \<and> attr_at m' 0x4800 = attr_at one_area 0x4800
     \<and> attr_at m' 0x4800 \<noteq> None \<and> freed = [(0x2000, 1)])"
proof -
  have "run_res (munmap_vmas 0x2000 0x1000 one_area) (\<lambda>(freed, m').
           vmap_ok m'
         \<and> (\<forall>a. attr_at m' a = (if 0x2000 \<le> a \<and> a < 0x2000 + 0x1000 then None else attr_at one_area a))
         \<and> range_addrs freed = {a. 0x2000 \<le> a \<and> a < 0x2000 + 0x1000 \<and> vma_at one_area a \<noteq> None})"
    by (rule munmap_exact) (simp_all add: one_area_ok page_aligned_def PAGE_SIZE_def)
  moreover have "attr_at one_area 0x4800 \<noteq> None"
    by (simp add: attr_at_def vma_at_def one_area_def covers_def vend_def)
  moreover have "\<exists>m'. munmap_vmas 0x2000 0x1000 one_area = Inr ([(0x2000, 1)], m')"
    by (simp add: munmap_vmas_def one_area_def overlapping_def munmap_one_def add_u64_def vend_def PAGE_SIZE_def Let_def)
  ultimately show ?thesis unfolding run_res_iff by auto
qed

theorem mprotect_exact_witness:
  "run_res (mprotect_vmas 0x2000 0x1000 PROT_NONE one_area) (\<lambda>(upd, m').
     vmap_ok m' \<and> attr_at m' 0x2800 = Some (PROT_NONE, MAP_PRIVATE, None)
     \<and> attr_at m' 0x4800 = Some (PROT_READ, MAP_PRIVATE, None))"
proof -
  have "run_res (mprotect_vmas 0x2000 0x1000 PROT_NONE one_area) (\<lambda>(upd, m').
           vmap_ok m'
         \<and> (\<forall>a. attr_at m' a = map_option (\<lambda>(q, fl, fd). (if 0x2000 \<le> a \<and> a < 0x2000 + 0x1000 then PROT_NONE else q, fl, fd)) (attr_at one_area a))
         \<and> range_addrs upd = {a. 0x2000 \<le> a \<and> a < 0x2000 + 0x1000 \<and> vma_at one_area a \<noteq> None})"
    by (rule mprotect_exact) (simp_all add: one_area_ok page_aligned_def PAGE_SIZE_def)
  moreover have "attr_at one_area 0x4800 = Some (PROT_READ, MAP_PRIVATE, None)" "attr_at one_area 0x2800 = Some (PROT_READ, MAP_PRIVATE, None)"
    by (simp_all add: attr_at_def vma_at_def one_area_def covers_def vend_def)
  ultimately show ?thesis unfolding run_res_iff by auto
qed

end
