(* ===== verification/Gap.thy ===== *)
theory Gap
  imports Vma
begin

text \<open>
  The top-down gap finder (\<^verbatim>\<open>libkernel/src/gap.rs\<close>) and its use for \<^verbatim>\<open>mmap\<close>. The trait
  \<^verbatim>\<open>OccupiedRanges\<close> is a locale: its implementors yield disjoint ranges in ascending order. What the
  finder returns is free, and it is the highest free place, provided no occupied range ends below
  the floor; with one that does, free space is overlooked.
\<close>

definition MMAP_CEILING :: nat where [const_defs]: "MMAP_CEILING = 0x400000000000"
definition MMAP_FLOOR :: nat where [const_defs]: "MMAP_FLOOR = 0x1000000000"

text \<open>The loop over the ranges from the highest to the lowest.\<close>

fun gap_walk :: "(nat \<times> nat) list \<Rightarrow> nat \<Rightarrow> nat \<Rightarrow> nat \<Rightarrow> nat option res" where
  "gap_walk [] floor len gap_end =
     bind_res (add_u64 floor len) (\<lambda>x. Inr (if gap_end \<ge> x then Some (gap_end - len) else None))"
| "gap_walk ((range_start, range_len) # rs) floor len gap_end =
     bind_res (add_u64 range_start range_len) (\<lambda>range_end.
       if range_end > gap_end then
         gap_walk rs floor len (if range_start < gap_end then range_start else gap_end)
       else
         bind_res (add_u64 range_end len) (\<lambda>x.
           if gap_end \<ge> x \<and> range_end \<ge> floor then Inr (Some (gap_end - len))
           else gap_walk rs floor len range_start))"

definition find_gap_topdown :: "(nat \<times> nat) list \<Rightarrow> nat \<Rightarrow> nat \<Rightarrow> nat \<Rightarrow> nat option res" where
  "find_gap_topdown ranges floor ceiling len =
     (if len = 0 \<or> ceiling \<le> floor \<or> len > ceiling - floor then Inr None
      else gap_walk (rev ranges) floor len ceiling)"

definition occupied_ranges :: "vma_map \<Rightarrow> (nat \<times> nat) list" where
  "occupied_ranges m = map (\<lambda>(k, v). (vstart v, vlen v)) m"

definition find_mmap_gap :: "nat \<Rightarrow> vma_map \<Rightarrow> nat option res" where
  "find_mmap_gap len m = find_gap_topdown (occupied_ranges m) MMAP_FLOOR MMAP_CEILING len"

text \<open>A place for \<open>len\<close> bytes that no range touches.\<close>

definition free_at :: "(nat \<times> nat) list \<Rightarrow> nat \<Rightarrow> nat \<Rightarrow> bool" where
  "free_at rs len a \<longleftrightarrow> (\<forall>(s, n)\<in>set rs. a + len \<le> s \<or> s + n \<le> a)"

abbreviation range_before :: "nat \<times> nat \<Rightarrow> nat \<times> nat \<Rightarrow> bool" where
  "range_before r q \<equiv> fst r + snd r \<le> fst q"

subsection \<open>The walk\<close>

lemma walk_sound:
  assumes "sorted_wrt (\<lambda>r q. range_before q r) rs" and "gap_walk rs floor len g = Inr (Some a)"
  shows "floor \<le> a \<and> a + len \<le> g \<and> free_at rs len a"
  using assms
proof (induction rs arbitrary: g)
  case (Cons r rs)
  obtain s n where r: "r = (s, n)" by fastforce
  have below: "x + y \<le> s" if "(x, y) \<in> set rs" for x y using Cons.prems(1) r that by fastforce
  consider (over) "s + n > g" "gap_walk rs floor len (if s < g then s else g) = Inr (Some a)"
    | (fits) "s + n \<le> g" "g \<ge> s + n + len" "floor \<le> s + n" "a = g - len"
    | (next_gap) "s + n \<le> g" "gap_walk rs floor len s = Inr (Some a)"
    using Cons.prems(2) r by (fastforce split: if_splits)
  then show ?case
  proof cases
    case over
    from Cons.IH [OF _ over(2)] Cons.prems(1) over(1) r show ?thesis by (auto simp: free_at_def split: if_splits)
  next
    case fits
    with below r show ?thesis by (fastforce simp: free_at_def)
  next
    case next_gap
    from Cons.IH [OF _ next_gap(2)] Cons.prems(1) next_gap(1) r show ?thesis by (auto simp: free_at_def)
  qed
qed (auto simp: free_at_def split: if_splits)

lemma walk_highest:
  assumes "gap_walk rs floor len g = Inr r" and "\<forall>(s, n)\<in>set rs. floor \<le> s + n" and "0 < len"
    and "floor \<le> b" and "b + len \<le> g" and "free_at rs len b"
  shows "\<exists>a. r = Some a \<and> b \<le> a"
  using assms
proof (induction rs arbitrary: g)
  case (Cons q rs)
  obtain s n where q: "q = (s, n)" by fastforce
  have free: "b + len \<le> s \<or> s + n \<le> b" "free_at rs len b" and fl: "floor \<le> s + n" "\<forall>(s, n)\<in>set rs. floor \<le> s + n"
    using Cons.prems q by (auto simp: free_at_def)
  consider (over) "s + n > g" "gap_walk rs floor len (if s < g then s else g) = Inr r"
    | (fits) "r = Some (g - len)"
    | (next_gap) "s + n \<le> g" "g < s + n + len" "gap_walk rs floor len s = Inr r"
    using Cons.prems(1) q fl by (fastforce split: if_splits)
  then show ?case
  proof cases
    case over
    have "b + len \<le> (if s < g then s else g)" using free(1) over(1) Cons.prems(3,5) by auto
    from Cons.IH [OF over(2) fl(2) Cons.prems(3,4) this free(2)] show ?thesis .
  next
    case fits
    with Cons.prems(5) show ?thesis by auto
  next
    case next_gap
    have "b + len \<le> s" using free(1) next_gap(2) Cons.prems(5) by auto
    from Cons.IH [OF next_gap(3) fl(2) Cons.prems(3,4) this free(2)] show ?thesis .
  qed
qed (auto split: if_splits)

lemma walk_returns:
  "\<forall>(s, n)\<in>set rs. s + n + len < 2 ^ 64 \<Longrightarrow> floor + len < 2 ^ 64 \<Longrightarrow> \<exists>r. gap_walk rs floor len g = Inr r"
  by (induction rs arbitrary: g) (auto simp: add_u64_def)

subsection \<open>The trait\<close>

locale ascending_ranges =
  fixes inv :: "'c \<Rightarrow> bool"
    and ranges :: "'c \<Rightarrow> (nat \<times> nat) list"
  assumes ascending: "inv c \<Longrightarrow> sorted_wrt range_before (ranges c)"
begin

lemma gap_is_free:
  assumes "inv c" and "find_gap_topdown (ranges c) floor ceiling len = Inr (Some a)"
  shows "floor \<le> a \<and> a + len \<le> ceiling \<and> free_at (ranges c) len a"
proof -
  have "sorted_wrt (\<lambda>r q. range_before q r) (rev (ranges c))" using ascending [OF assms(1)] by (simp add: sorted_wrt_rev)
  from walk_sound [OF this, of floor len ceiling a] assms(2) show ?thesis
    by (simp add: find_gap_topdown_def free_at_def split: if_splits)
qed

lemma gap_is_highest:
  assumes "find_gap_topdown (ranges c) floor ceiling len = Inr r" and "\<forall>(s, n)\<in>set (ranges c). floor \<le> s + n"
    and "0 < len" and "floor \<le> b" and "b + len \<le> ceiling" and "free_at (ranges c) len b"
  shows "\<exists>a. r = Some a \<and> b \<le> a"
  using assms walk_highest [of "rev (ranges c)" floor len ceiling r b]
  by (auto simp: find_gap_topdown_def free_at_def split: if_splits)

end

text \<open>\<^verbatim>\<open>impl OccupiedRanges for BTreeMap<u64, Vma>\<close>.\<close>

interpretation vma_ranges: ascending_ranges vmap_ok occupied_ranges
proof
  fix m assume "vmap_ok m"
  from vmap_ok_sorted [OF this] show "sorted_wrt range_before (occupied_ranges m)"
    by (induction m) (auto simp: occupied_ranges_def vend_def)
qed

lemma free_at_occupied: "free_at (occupied_ranges m) len a \<longleftrightarrow> (\<forall>v\<in>snd ` set m. a + len \<le> vstart v \<or> vend v \<le> a)"
  by (auto simp: free_at_def occupied_ranges_def vend_def)

text \<open>
  C12: \<^verbatim>\<open>mmap\<close> gets the highest free place. For a well-formed map of user-half areas none of which ends
  below the floor of the mmap region, the search returns; an address it returns is inside the
  region with no area touching the \<open>len\<close> bytes there, no free place lies higher, and it returns nothing only when
  nothing is free.
\<close>

theorem mmap_gap_highest:
  assumes "vmap_ok m" and "\<forall>v\<in>snd ` set m. MMAP_FLOOR \<le> vend v \<and> vend v \<le> 2 ^ 47"
    and "0 < len" and "len < 2 ^ 47"
  shows "\<exists>r. find_mmap_gap len m = Inr r
     \<and> (\<forall>a. r = Some a \<longrightarrow> MMAP_FLOOR \<le> a \<and> a + len \<le> MMAP_CEILING
          \<and> (\<forall>v\<in>snd ` set m. a + len \<le> vstart v \<or> vend v \<le> a))
     \<and> (\<forall>b. MMAP_FLOOR \<le> b \<and> b + len \<le> MMAP_CEILING \<and> (\<forall>v\<in>snd ` set m. b + len \<le> vstart v \<or> vend v \<le> b)
          \<longrightarrow> (\<exists>a. r = Some a \<and> b \<le> a))"
proof -
  have "\<forall>(s, n)\<in>set (rev (occupied_ranges m)). s + n + len < 2 ^ 64"
    using assms(2,4) by (force simp: occupied_ranges_def vend_def)
  moreover have "MMAP_FLOOR + len < 2 ^ 64" using assms(4) by (simp add: MMAP_FLOOR_def)
  ultimately have "\<exists>r. gap_walk (rev (occupied_ranges m)) MMAP_FLOOR len MMAP_CEILING = Inr r"
    by (rule walk_returns)
  then obtain r where r: "find_mmap_gap len m = Inr r"
    using assms(3) by (cases "MMAP_CEILING - MMAP_FLOOR < len") (auto simp: find_mmap_gap_def find_gap_topdown_def const_defs)
  have "\<forall>(s, n)\<in>set (occupied_ranges m). MMAP_FLOOR \<le> s + n"
    using assms(2) by (force simp: occupied_ranges_def vend_def)
  note high = vma_ranges.gap_is_highest [OF r [unfolded find_mmap_gap_def] this assms(3)]
  have "MMAP_FLOOR \<le> a \<and> a + len \<le> MMAP_CEILING \<and> free_at (occupied_ranges m) len a" if "r = Some a" for a
    using vma_ranges.gap_is_free [OF assms(1)] r that by (simp add: find_mmap_gap_def)
  with r high show ?thesis unfolding free_at_occupied by blast
qed

definition high_area :: vma_map where
  "high_area = [(0x3FFFFFFFF000, \<lparr>vstart = 0x3FFFFFFFF000, vlen = 0x1000, vprot = PROT_READ, vflags = MAP_PRIVATE, vfd = None, voffset = 0\<rparr>)]"

theorem mmap_gap_highest_witness: "find_mmap_gap 0x2000 high_area = Inr (Some 0x3FFFFFFFD000)"
proof -
  have ok: "vmap_ok high_area" "\<forall>v\<in>snd ` set high_area. MMAP_FLOOR \<le> vend v \<and> vend v \<le> 2 ^ 47"
    by (simp_all add: high_area_def vmap_ok_def vma_ok_def page_aligned_def vend_def PAGE_SIZE_def MMAP_FLOOR_def)
  obtain v where v: "snd ` set high_area = {v}" "vstart v = 0x3FFFFFFFF000" "vend v = 0x400000000000"
    by (simp add: high_area_def vend_def)
  obtain r where r: "find_mmap_gap 0x2000 high_area = Inr r"
    and lo: "\<forall>a. r = Some a \<longrightarrow> MMAP_FLOOR \<le> a \<and> a + 0x2000 \<le> MMAP_CEILING \<and> (a + 0x2000 \<le> vstart v \<or> vend v \<le> a)"
    and hi: "\<forall>b. MMAP_FLOOR \<le> b \<and> b + 0x2000 \<le> MMAP_CEILING \<and> (b + 0x2000 \<le> vstart v \<or> vend v \<le> b)
      \<longrightarrow> (\<exists>a. r = Some a \<and> b \<le> a)"
    using mmap_gap_highest [OF ok, where len = "0x2000", unfolded v(1)] by auto
  obtain a where a: "r = Some a" "0x3FFFFFFFD000 \<le> a"
    using spec [OF hi, of "0x3FFFFFFFD000"] by (auto simp: const_defs v(2))
  have "a + 0x2000 \<le> 0x3FFFFFFFF000" using spec [OF lo, of a] a by (auto simp: const_defs v)
  with a r show ?thesis by simp
qed

text \<open>
  A mapping below the floor hides the whole region. When all areas of a process end below the
  floor of the mmap region, which is then entirely free, and there is at least one such area (a
  fixed mapping at a low address), the search finds nothing, whatever the length.
\<close>

theorem low_mapping_hides_region:
  assumes "vmap_ok m" and "m \<noteq> []" and "\<forall>v\<in>snd ` set m. vend v < MMAP_FLOOR" and "len < 2 ^ 47"
  shows "find_mmap_gap len m = Inr None"
proof -
  have walk: "gap_walk rs MMAP_FLOOR len g = Inr None"
    if "\<forall>(s, n)\<in>set rs. s + n < MMAP_FLOOR" "rs \<noteq> [] \<or> g < MMAP_FLOOR + len" for rs g
    using that assms(4)
  proof (induction rs arbitrary: g)
    case (Cons r rs)
    then show ?case by (cases r) (auto simp: add_u64_def MMAP_FLOOR_def)
  qed (auto simp: add_u64_def MMAP_FLOOR_def)
  show ?thesis unfolding find_mmap_gap_def find_gap_topdown_def
    using assms(2,3) walk [of "rev (occupied_ranges m)" MMAP_CEILING]
    by (fastforce simp: occupied_ranges_def vend_def)
qed

theorem low_mapping_hides_region_witness: "find_mmap_gap 0x1000 one_area = Inr None"
  by (rule low_mapping_hides_region [OF one_area_ok]) (simp_all add: one_area_def vend_def MMAP_FLOOR_def)

end
