(* ===== verification/Notify.thy ===== *)
theory Notify
  imports Completion_Port
begin

text \<open>
  Notification descriptors (\<^verbatim>\<open>libkernel/src/notify.rs\<close>): one process arms, another signals. The object
  refines a three-state machine; signals before an arm coalesce into one event, and none is lost.
\<close>

record NotifyInner =
  ntf_pending :: "(nat \<times> u64) option"
  notified :: bool

definition NotifyInner_new :: NotifyInner where
  "NotifyInner_new = \<lparr>ntf_pending = None, notified = False\<rparr>"

definition arm_notify ::
  "nat \<Rightarrow> u64 \<Rightarrow> NotifyInner \<Rightarrow> ports \<Rightarrow> kernel \<Rightarrow> nat option \<times> NotifyInner \<times> ports \<times> kernel" where
  "arm_notify port user_data n ps k =
     (if notified n then
        (case post_at port (simple_completion user_data 0 OP_RING_WAIT) ps k of (woken, ps', k') \<Rightarrow>
           (woken, n\<lparr>notified := False\<rparr>, ps', k'))
      else (None, n\<lparr>ntf_pending := Some (port, user_data)\<rparr>, ps, k))"

definition signal_notify :: "NotifyInner \<Rightarrow> ports \<Rightarrow> kernel \<Rightarrow> nat option \<times> NotifyInner \<times> ports \<times> kernel" where
  "signal_notify n ps k =
     (case ntf_pending n of
        Some (port, user_data) \<Rightarrow>
          (case post_at port (simple_completion user_data 0 OP_RING_WAIT) ps k of (woken, ps', k') \<Rightarrow>
             (woken, n\<lparr>ntf_pending := None\<rparr>, ps', k'))
      | None \<Rightarrow> (None, n\<lparr>notified := True\<rparr>, ps, k))"

subsection \<open>The specification\<close>

datatype notify_state = Idle | Buffered | Waiting nat u64

datatype notify_op = ArmOp nat u64 | SignalOp

fun notify_spec :: "notify_op \<Rightarrow> notify_state \<Rightarrow> notify_state \<times> (nat \<times> u64) list" where
  "notify_spec (ArmOp p ud) Buffered = (Idle, [(p, ud)])"
| "notify_spec (ArmOp p ud) _ = (Waiting p ud, [])"
| "notify_spec SignalOp (Waiting p ud) = (Idle, [(p, ud)])"
| "notify_spec SignalOp _ = (Buffered, [])"

fun notify_spec_run :: "notify_op list \<Rightarrow> notify_state \<Rightarrow> notify_state \<times> (nat \<times> u64) list" where
  "notify_spec_run [] s = (s, [])"
| "notify_spec_run (op # ops) s =
     (case notify_spec op s of (s1, e1) \<Rightarrow> (case notify_spec_run ops s1 of (s2, e2) \<Rightarrow> (s2, e1 @ e2)))"

definition notify_abs :: "NotifyInner \<Rightarrow> notify_state" where
  "notify_abs n = (case ntf_pending n of Some (p, ud) \<Rightarrow> Waiting p ud | None \<Rightarrow> if notified n then Buffered else Idle)"

definition notify_inv :: "NotifyInner \<Rightarrow> bool" where
  "notify_inv n \<longleftrightarrow> \<not> (notified n \<and> ntf_pending n \<noteq> None)"

fun notify_exec :: "notify_op \<Rightarrow> NotifyInner \<times> ports \<times> kernel \<Rightarrow> NotifyInner \<times> ports \<times> kernel" where
  "notify_exec (ArmOp p ud) (n, ps, k) = snd (arm_notify p ud n ps k)"
| "notify_exec SignalOp (n, ps, k) = snd (signal_notify n ps k)"

fun notify_run :: "notify_op list \<Rightarrow> NotifyInner \<times> ports \<times> kernel \<Rightarrow> NotifyInner \<times> ports \<times> kernel" where
  "notify_run [] s = s"
| "notify_run (op # ops) s = notify_run ops (notify_exec op s)"

definition ring_wait_post :: "nat \<times> u64 \<Rightarrow> nat \<times> Completion" where
  "ring_wait_post e = (fst e, simple_completion (snd e) 0 OP_RING_WAIT)"

lemma notify_exec_simps:
  "notify_exec (ArmOp p ud) (n, ps, k) =
     (if notified n then (n\<lparr>notified := False\<rparr>, post_all [ring_wait_post (p, ud)] (ps, k))
      else (n\<lparr>ntf_pending := Some (p, ud)\<rparr>, ps, k))"
  "notify_exec SignalOp (n, ps, k) =
     (case ntf_pending n of
        Some e \<Rightarrow> (n\<lparr>ntf_pending := None\<rparr>, post_all [ring_wait_post e] (ps, k))
      | None \<Rightarrow> (n\<lparr>notified := True\<rparr>, ps, k))"
  by (simp_all add: arm_notify_def signal_notify_def ring_wait_post_def split: prod.split option.split)

declare notify_exec.simps [simp del]

lemma notify_exec_refines:
  assumes "notify_inv n" and "notify_spec op (notify_abs n) = (s', ev)"
  shows "\<exists>n'. notify_exec op (n, ps, k) = (n', post_all (map ring_wait_post ev) (ps, k))
           \<and> notify_abs n' = s' \<and> notify_inv n'"
  using assms
  by (cases op; cases "ntf_pending n"; cases "notified n")
    (auto simp: notify_abs_def notify_inv_def notify_exec_simps simp del: post_all.simps(2))

text \<open>
  C15: A notification descriptor refines the three-state machine idle, buffered, waiting: in any
  sequence of arms and signals exactly the completions of the machine are posted, each to the
  port and with the user data of the last arm, in order. So a signal is never lost (it completes the waiting arm, or
  else the next one) and signals in between coalesce.
\<close>

theorem notify_refines:
  assumes "notify_inv n"
  shows "\<exists>n'. notify_run ops (n, ps, k) =
             (n', post_all (map ring_wait_post (snd (notify_spec_run ops (notify_abs n)))) (ps, k))
           \<and> notify_abs n' = fst (notify_spec_run ops (notify_abs n)) \<and> notify_inv n'"
  using assms
proof (induction ops arbitrary: n ps k)
  case (Cons op ops)
  obtain s1 e1 where 1: "notify_spec op (notify_abs n) = (s1, e1)" by fastforce
  obtain n1 where n1: "notify_exec op (n, ps, k) = (n1, post_all (map ring_wait_post e1) (ps, k))"
    "notify_abs n1 = s1" "notify_inv n1"
    using notify_exec_refines [OF Cons.prems 1] by blast
  obtain ps1 k1 where p1: "post_all (map ring_wait_post e1) (ps, k) = (ps1, k1)" by fastforce
  from Cons.IH [OF n1(3), of ps1 k1] 1 n1 p1 show ?case
    by (auto simp: post_all_append split: prod.splits)
qed simp

theorem notify_refines_witness:
  "notify_inv NotifyInner_new
   \<and> snd (notify_spec_run [SignalOp, SignalOp, ArmOp 1 7, ArmOp 1 8, SignalOp] (notify_abs NotifyInner_new)) = [(1, 7), (1, 8)]
   \<and> (\<exists>n'. notify_run [SignalOp, SignalOp, ArmOp 1 7, ArmOp 1 8, SignalOp] (NotifyInner_new, \<lambda>_. CompletionPort_new, boot_kernel) =
        (n', post_all (map ring_wait_post [(1, 7), (1, 8)]) (\<lambda>_. CompletionPort_new, boot_kernel)))"
proof -
  have inv: "notify_inv NotifyInner_new" by (simp add: notify_inv_def NotifyInner_new_def)
  have ev: "snd (notify_spec_run [SignalOp, SignalOp, ArmOp 1 7, ArmOp 1 8, SignalOp] (notify_abs NotifyInner_new)) = [(1, 7), (1, 8)]"
    by (simp add: notify_abs_def NotifyInner_new_def)
  from notify_refines [OF inv, of "[SignalOp, SignalOp, ArmOp 1 7, ArmOp 1 8, SignalOp]"] inv ev show ?thesis
    by (metis (no_types, lifting))
qed

end
