(* ===== verification/Irq_Handle.thy ===== *)
theory Irq_Handle
  imports Completion_Port "HOL-Library.Sublist"
begin

text \<open>
  IRQ descriptors (\<^verbatim>\<open>libkernel/src/irq_handle.rs\<close>): the PS/2 mouse packet decoder, the two event buffers,
  the interrupt handler and arming. The i8042 controller is a parameter of the handler. Both
  buffers keep the bounded-queue contract, bytes reach userspace in the order in which
  the controller produced them, and a decoded packet arrives at the client with its movement and
  buttons.
\<close>

subsection \<open>Counters\<close>

record IrqCounters =
  total :: u64
  delivered :: u64
  buffered :: u64
  spurious :: u64
  wrong_source :: u64

definition IrqCounters_new :: IrqCounters where
  "IrqCounters_new = \<lparr>total = 0, delivered = 0, buffered = 0, spurious = 0, wrong_source = 0\<rparr>"

subsection \<open>The packet decoder\<close>

definition pack_mouse_event :: "int \<Rightarrow> int \<Rightarrow> u8 \<Rightarrow> int" where
  "pack_mouse_event dx dy buttons =
     sint ((ucast (word_of_int dx :: u16) OR push_bit 16 (ucast (word_of_int dy :: u16))
            OR push_bit 32 (ucast buttons)) :: u64)"

record MouseDecoder =
  md_buf :: "u8 list"
  md_idx :: nat

definition MouseDecoder_new :: MouseDecoder where
  "MouseDecoder_new = \<lparr>md_buf = [0, 0, 0], md_idx = 0\<rparr>"

definition mouse_feed :: "u8 \<Rightarrow> MouseDecoder \<Rightarrow> int option \<times> MouseDecoder" where
  "mouse_feed byte d =
     (if md_idx d = 0 \<and> byte AND 0x08 = 0 then (None, d)
      else
        let buf = (md_buf d)[md_idx d := byte]; idx = md_idx d + 1 in
        if idx < 3 then (None, d\<lparr>md_buf := buf, md_idx := idx\<rparr>)
        else
          let d' = d\<lparr>md_buf := buf, md_idx := 0\<rparr>;
              state = uint (buf ! 0);
              buttons = buf ! 0 AND 0x07 in
          if state AND 0xC0 \<noteq> 0 then (None, d')
          else
            let dx = uint (buf ! 1) - (push_bit 4 state AND 0x100);
                dy = - (uint (buf ! 2) - (push_bit 3 state AND 0x100))
            in (Some (pack_mouse_event dx dy buttons), d'))"

text \<open>The client's side (\<^verbatim>\<open>user-rs/rt/src/ostoo.rs\<close>).\<close>

record MouseEvent =
  ev_dx :: int
  ev_dy :: int
  ev_buttons :: u8

definition unpack_mouse_event :: "int \<Rightarrow> MouseEvent" where
  "unpack_mouse_event result =
     (let raw = word_of_int result :: u64
      in \<lparr>ev_dx = sint (ucast raw :: u16), ev_dy = sint (ucast (drop_bit 16 raw) :: u16),
          ev_buttons = ucast (drop_bit 32 raw)\<rparr>)"

subsection \<open>The event buffers\<close>

definition SCANCODE_BUF_SIZE :: nat where [const_defs]: "SCANCODE_BUF_SIZE = 64"
definition MOUSE_EVENT_BUF_SIZE :: nat where [const_defs]: "MOUSE_EVENT_BUF_SIZE = 16"

text \<open>The buffer with its head and tail index, which the handle has twice.\<close>

record 'a event_buf =
  eb_buf :: "'a list"
  eb_head :: nat
  eb_tail :: nat

definition event_push :: "nat \<Rightarrow> 'a \<Rightarrow> 'a event_buf \<Rightarrow> 'a event_buf" where
  "event_push n x b =
     (let next = (eb_tail b + 1) mod n in
      if next \<noteq> eb_head b then b\<lparr>eb_buf := (eb_buf b)[eb_tail b := x], eb_tail := next\<rparr> else b)"

definition event_pop :: "nat \<Rightarrow> 'a event_buf \<Rightarrow> 'a option \<times> 'a event_buf" where
  "event_pop n b =
     (if eb_head b = eb_tail b then (None, b)
      else (Some (eb_buf b ! eb_head b), b\<lparr>eb_head := (eb_head b + 1) mod n\<rparr>))"

record IrqInner =
  gsi :: u32
  vector :: u8
  slot :: nat
  irq_pending :: "(nat \<times> u64) option"
  saved_entry :: u64
  scancodes :: "u8 event_buf"
  mouse_decoder :: MouseDecoder
  mouse_events :: "int event_buf"

definition IrqInner_new :: "u32 \<Rightarrow> u8 \<Rightarrow> nat \<Rightarrow> u64 \<Rightarrow> IrqInner" where
  "IrqInner_new g v s e =
     \<lparr>gsi = g, vector = v, slot = s, irq_pending = None, saved_entry = e,
      scancodes = \<lparr>eb_buf = replicate SCANCODE_BUF_SIZE 0, eb_head = 0, eb_tail = 0\<rparr>,
      mouse_decoder = MouseDecoder_new,
      mouse_events = \<lparr>eb_buf = replicate MOUSE_EVENT_BUF_SIZE 0, eb_head = 0, eb_tail = 0\<rparr>\<rparr>"

definition scancode_push :: "u8 \<Rightarrow> IrqInner \<Rightarrow> IrqInner" where
  "scancode_push code i = i\<lparr>scancodes := event_push SCANCODE_BUF_SIZE code (scancodes i)\<rparr>"

definition scancode_pop :: "IrqInner \<Rightarrow> u8 option \<times> IrqInner" where
  "scancode_pop i = (case event_pop SCANCODE_BUF_SIZE (scancodes i) of (r, b) \<Rightarrow> (r, i\<lparr>scancodes := b\<rparr>))"

definition mouse_event_push :: "int \<Rightarrow> IrqInner \<Rightarrow> IrqInner" where
  "mouse_event_push event i = i\<lparr>mouse_events := event_push MOUSE_EVENT_BUF_SIZE event (mouse_events i)\<rparr>"

definition mouse_event_pop :: "IrqInner \<Rightarrow> int option \<times> IrqInner" where
  "mouse_event_pop i = (case event_pop MOUSE_EVENT_BUF_SIZE (mouse_events i) of (r, b) \<Rightarrow> (r, i\<lparr>mouse_events := b\<rparr>))"

subsection \<open>The interrupt handler\<close>

text \<open>
  One event for a handle: posted to the armed port, or buffered. The posts are collected in order
  and carried out under the handle's lock, which nothing else reads in between.
\<close>

definition irq_event ::
  "int \<Rightarrow> (IrqInner \<Rightarrow> IrqInner) \<Rightarrow> IrqInner \<Rightarrow> IrqCounters \<Rightarrow> IrqInner \<times> IrqCounters \<times> (nat \<times> Completion) list" where
  "irq_event val push_fn i cnt =
     (case irq_pending i of
        Some (port, user_data) \<Rightarrow>
          (i\<lparr>irq_pending := None\<rparr>, cnt\<lparr>delivered := delivered cnt + 1\<rparr>,
           [(port, simple_completion user_data val OP_IRQ_WAIT)])
      | None \<Rightarrow> (push_fn i, cnt\<lparr>buffered := buffered cnt + 1\<rparr>, []))"

definition irq_byte ::
  "bool \<Rightarrow> u8 \<Rightarrow> IrqInner \<Rightarrow> IrqCounters \<Rightarrow> IrqInner \<times> IrqCounters \<times> (nat \<times> Completion) list" where
  "irq_byte from_aux byte i cnt =
     (if (gsi i = 1 \<and> from_aux) \<or> (gsi i = 12 \<and> \<not> from_aux) then
        (i, cnt\<lparr>wrong_source := wrong_source cnt + 1\<rparr>, [])
      else if gsi i = 12 then
        (case mouse_feed byte (mouse_decoder i) of
           (None, d) \<Rightarrow> (i\<lparr>mouse_decoder := d\<rparr>, cnt, [])
         | (Some event, d) \<Rightarrow> irq_event event (mouse_event_push event) (i\<lparr>mouse_decoder := d\<rparr>) cnt)
      else irq_event (uint byte) (scancode_push byte) i cnt)"

text \<open>The loop over the controller's output buffer, at most \<open>n\<close> times; \<open>status\<close> and \<open>data\<close> are its ports.\<close>

fun drain_i8042 ::
  "nat \<Rightarrow> ('h \<Rightarrow> u8 \<times> 'h) \<Rightarrow> ('h \<Rightarrow> u8 \<times> 'h) \<Rightarrow> 'h \<Rightarrow> IrqInner \<Rightarrow> IrqCounters
   \<Rightarrow> IrqInner \<times> IrqCounters \<times> (nat \<times> Completion) list \<times> 'h" where
  "drain_i8042 0 status data h i cnt = (i, cnt, [], h)"
| "drain_i8042 (Suc n) status data h i cnt =
     (case status h of (st, h1) \<Rightarrow>
        if st AND 0x01 = 0 then (i, cnt, [], h1)
        else
          (case data h1 of (byte, h2) \<Rightarrow>
             (case irq_byte (st AND 0x20 \<noteq> 0) byte i cnt of (i1, cnt1, posts1) \<Rightarrow>
                (case drain_i8042 n status data h2 i1 cnt1 of (i2, cnt2, posts2, h3) \<Rightarrow>
                   (i2, cnt2, posts1 @ posts2, h3)))))"

text \<open>
  The slot table holds references; \<open>irqs\<close> are the handles and \<open>cnts\<close> the counters of the slots.
\<close>

record irq_system =
  irq_slots :: "nat option list"
  irqs :: "nat \<Rightarrow> IrqInner"
  irq_counters :: "IrqCounters list"

definition store_slot :: "nat \<Rightarrow> nat \<Rightarrow> irq_system \<Rightarrow> irq_system res" where
  "store_slot s r sys =
     (if s < length (irq_slots sys) then Inr (sys\<lparr>irq_slots := (irq_slots sys)[s := Some r]\<rparr>) else Inl IndexOutOfBounds)"

definition take_slot :: "nat \<Rightarrow> irq_system \<Rightarrow> (nat option \<times> irq_system) res" where
  "take_slot s sys =
     (if s < length (irq_slots sys) then Inr (irq_slots sys ! s, sys\<lparr>irq_slots := (irq_slots sys)[s := None]\<rparr>)
      else Inl IndexOutOfBounds)"

definition irq_fd_dispatch ::
  "('h \<Rightarrow> u8 \<times> 'h) \<Rightarrow> ('h \<Rightarrow> u8 \<times> 'h) \<Rightarrow> nat \<Rightarrow> irq_system \<Rightarrow> ports \<Rightarrow> kernel \<Rightarrow> 'h
   \<Rightarrow> (irq_system \<times> ports \<times> kernel \<times> 'h) res" where
  "irq_fd_dispatch status data s sys ps k h =
     (if \<not> s < length (irq_slots sys) then Inl IndexOutOfBounds
      else
        (case irq_slots sys ! s of
           None \<Rightarrow> Inr (sys, ps, k, h)
         | Some r \<Rightarrow>
             if \<not> s < length (irq_counters sys) then Inl IndexOutOfBounds
             else
               let i = irqs sys r;
                   cnt = (irq_counters sys ! s)\<lparr>total := total (irq_counters sys ! s) + 1\<rparr> in
               if gsi i = 1 \<or> gsi i = 12 then
                 (case drain_i8042 16 status data h i cnt of (i', cnt', posts, h') \<Rightarrow>
                    (case post_all posts (ps, k) of (ps', k') \<Rightarrow>
                       Inr (sys\<lparr>irqs := (irqs sys)(r := i'), irq_counters := (irq_counters sys)[s := cnt']\<rparr>, ps', k', h')))
               else Inr (sys\<lparr>irq_counters := (irq_counters sys)[s := cnt]\<rparr>, ps, k, h)))"

subsection \<open>Arming and closing\<close>

text \<open>The number of entries between head and tail.\<close>

definition event_count :: "nat \<Rightarrow> 'a event_buf \<Rightarrow> nat" where
  "event_count n b = (eb_tail b + n - eb_head b) mod n"

lemma mod_two: "x < 2 * n \<Longrightarrow> x mod n = (if x < n then x else x - n)" for n :: nat
  by (auto simp: mod_if)

text \<open>
  The loop that empties a buffer. The bounds check of the indexing is part of it: both indices stay
  below the size, so it never fails.
\<close>

function drain_events :: "nat \<Rightarrow> 'a event_buf \<Rightarrow> ('a list \<times> 'a event_buf) res" where
  "drain_events n b =
     (if \<not> (eb_head b < n \<and> eb_tail b < n) then Inl IndexOutOfBounds
      else
        (case event_pop n b of
           (None, b') \<Rightarrow> Inr ([], b')
         | (Some x, b') \<Rightarrow> bind_res (drain_events n b') (\<lambda>(xs, b''). Inr (x # xs, b''))))"
  by pat_completeness auto
termination
  by (relation "measure (\<lambda>(n, b). event_count n b)")
    (auto simp: event_pop_def event_count_def mod_two split: if_splits)

text \<open>\<^verbatim>\<open>arm_irq\<close>: the new handle, the posts in order, and the interrupt line to unmask.\<close>

definition arm_irq :: "nat \<Rightarrow> u64 \<Rightarrow> IrqInner \<Rightarrow> (IrqInner \<times> (nat \<times> Completion) list \<times> u32) res" where
  "arm_irq port user_data i =
     bind_res
       (if gsi i = 12 then
          bind_res (drain_events MOUSE_EVENT_BUF_SIZE (mouse_events i)) (\<lambda>(evs, b).
            Inr (i\<lparr>mouse_events := b\<rparr>, map (\<lambda>ev. (port, simple_completion user_data ev OP_IRQ_WAIT)) evs))
        else
          bind_res (drain_events SCANCODE_BUF_SIZE (scancodes i)) (\<lambda>(codes, b).
            Inr (i\<lparr>scancodes := b\<rparr>, map (\<lambda>c. (port, simple_completion user_data (uint c) OP_IRQ_WAIT)) codes)))
       (\<lambda>(i', posts).
          if posts \<noteq> [] then Inr (i', posts, gsi i)
          else Inr (i'\<lparr>irq_pending := Some (port, user_data)\<rparr>, [], gsi i))"

text \<open>Closing; the I/O APIC entry to write and the vector to free are handed back.\<close>

definition close_irq :: "IrqInner \<Rightarrow> irq_system \<Rightarrow> ((u32 \<times> u64) \<times> u8 \<times> irq_system) res" where
  "close_irq i sys = bind_res (take_slot (slot i) sys) (\<lambda>(_, sys'). Inr ((gsi i, saved_entry i), vector i, sys'))"

subsection \<open>The buffers keep the contract of a bounded queue\<close>

definition event_inv :: "nat \<Rightarrow> 'a event_buf \<Rightarrow> bool" where
  "event_inv n b \<longleftrightarrow> length (eb_buf b) = n \<and> eb_head b < n \<and> eb_tail b < n"

definition event_contents :: "nat \<Rightarrow> 'a event_buf \<Rightarrow> 'a list" where
  "event_contents n b = map (\<lambda>j. eb_buf b ! ((eb_head b + j) mod n)) [0..<event_count n b]"

lemma event_push_contents:
  assumes "event_inv n b"
  shows "event_contents n (event_push n x b) = list_enq (n - 1) x (event_contents n b)"
    and "event_inv n (event_push n x b)"
proof -
  have b: "length (eb_buf b) = n" "eb_head b < n" "eb_tail b < n" using assms by (auto simp: event_inv_def)
  show "event_inv n (event_push n x b)" using b by (auto simp: event_push_def event_inv_def Let_def)
  have count: "event_count n b < n" using b by (auto simp: event_count_def)
  show "event_contents n (event_push n x b) = list_enq (n - 1) x (event_contents n b)"
  proof (cases "(eb_tail b + 1) mod n = eb_head b")
    case True
    then have "event_count n b = n - 1" using b by (auto simp: event_count_def mod_two split: if_splits)
    with True show ?thesis by (simp add: event_push_def list_enq_def event_contents_def)
  next
    case False
    let ?b' = "b\<lparr>eb_buf := (eb_buf b)[eb_tail b := x], eb_tail := (eb_tail b + 1) mod n\<rparr>"
    have c: "event_count n ?b' = Suc (event_count n b)" "event_count n b < n - 1"
      "(eb_head b + event_count n b) mod n = eb_tail b"
      using False b by (auto simp: event_count_def mod_two split: if_splits)
    have "(eb_head b + j) mod n \<noteq> eb_tail b" if "j < event_count n b" for j
      using that b by (auto simp: event_count_def mod_two split: if_splits)
    then have "(eb_buf b)[eb_tail b := x] ! ((eb_head b + j) mod n) = eb_buf b ! ((eb_head b + j) mod n)" if "j < event_count n b" for j
      using that by (simp add: nth_list_update_if eq_commute [of "eb_tail b"])
    with c b False show ?thesis
      by (simp add: event_push_def event_contents_def list_enq_def)
  qed
qed

lemma event_pop_contents:
  assumes "event_inv n b"
  shows "fst (event_pop n b) = fst (list_deq (event_contents n b))"
    and "event_contents n (snd (event_pop n b)) = snd (list_deq (event_contents n b))"
    and "event_inv n (snd (event_pop n b))"
proof -
  have b: "length (eb_buf b) = n" "eb_head b < n" "eb_tail b < n" using assms by (auto simp: event_inv_def)
  show "event_inv n (snd (event_pop n b))" using b by (auto simp: event_pop_def event_inv_def)
  have "fst (event_pop n b) = fst (list_deq (event_contents n b))
      \<and> event_contents n (snd (event_pop n b)) = snd (list_deq (event_contents n b))"
  proof (cases "eb_head b = eb_tail b")
    case True
    then have "event_count n b = 0" using b by (simp add: event_count_def)
    with True show ?thesis by (simp add: event_pop_def event_contents_def)
  next
    case False
    let ?b' = "b\<lparr>eb_head := (eb_head b + 1) mod n\<rparr>"
    have c: "event_count n b = Suc (event_count n ?b')"
      using False b by (auto simp: event_count_def mod_two split: if_splits)
    have "(eb_head ?b' + j) mod n = (eb_head b + Suc j) mod n" for j by (simp add: mod_simps)
    with c have "event_contents n b = eb_buf b ! eb_head b # event_contents n ?b'"
      using b by (simp add: event_contents_def upt_conv_Cons map_Suc_upt [symmetric] comp_def del: upt_Suc)
    with False show ?thesis by (simp add: event_pop_def)
  qed
  then show "fst (event_pop n b) = fst (list_deq (event_contents n b))"
    and "event_contents n (snd (event_pop n b)) = snd (list_deq (event_contents n b))" by blast+
qed

interpretation events: bounded_fifo "event_inv n" "event_contents n" "\<lambda>_. n - 1" "event_push n" "event_pop n" for n
proof
  fix q :: "'a event_buf"
  assume q: "event_inv n q"
  have "event_count n q < n" using q by (auto simp: event_inv_def event_count_def)
  then show "length (event_contents n q) \<le> n - 1" by (simp add: event_contents_def)
qed (simp_all add: event_push_contents event_pop_contents)

lemma drain_events_all:
  assumes "event_inv n b"
  shows "\<exists>b'. drain_events n b = Inr (event_contents n b, b') \<and> event_contents n b' = [] \<and> event_inv n b'"
  using assms
proof (induction n b rule: drain_events.induct)
  case (1 n b)
  have ix: "\<not> \<not> (eb_head b < n \<and> eb_tail b < n)" using "1.prems" by (simp add: event_inv_def)
  obtain r b1 where p: "event_pop n b = (r, b1)" by fastforce
  note pop = event_pop_contents [OF "1.prems", unfolded p, simplified]
  show ?case
  proof (cases r)
    case None
    with pop have "event_contents n b = []" by (cases "event_contents n b") auto
    with None pop p ix show ?thesis by simp
  next
    case (Some x)
    with pop have c: "event_contents n b = x # event_contents n b1" by (cases "event_contents n b") auto
    from "1.IH" [OF ix p [symmetric] Some pop(3)] obtain b' where
      "drain_events n b1 = Inr (event_contents n b1, b')" "event_contents n b' = []" "event_inv n b'" by blast
    with Some p ix c show ?thesis by simp
  qed
qed

declare drain_events.simps [simp del]

subsection \<open>Properties\<close>

text \<open>A keyboard handle over time: bytes from the controller, and arming.\<close>

datatype irq_op = ByteOp u8 | ArmOp nat u64

fun kbd_step :: "irq_op \<Rightarrow> IrqInner \<Rightarrow> IrqCounters \<Rightarrow> ((nat \<times> Completion) list \<times> IrqInner \<times> IrqCounters) res" where
  "kbd_step (ByteOp byte) i cnt = (case irq_byte False byte i cnt of (i', cnt', posts) \<Rightarrow> Inr (posts, i', cnt'))"
| "kbd_step (ArmOp port ud) i cnt = bind_res (arm_irq port ud i) (\<lambda>(i', posts, _). Inr (posts, i', cnt))"

fun kbd_run :: "irq_op list \<Rightarrow> IrqInner \<Rightarrow> IrqCounters \<Rightarrow> ((nat \<times> Completion) list \<times> IrqInner) res" where
  "kbd_run [] i cnt = Inr ([], i)"
| "kbd_run (op # ops) i cnt =
     bind_res (kbd_step op i cnt) (\<lambda>(posts1, i1, cnt1).
       bind_res (kbd_run ops i1 cnt1) (\<lambda>(posts2, i2). Inr (posts1 @ posts2, i2)))"

fun op_byte :: "irq_op \<Rightarrow> u8 list" where
  "op_byte (ByteOp b) = [b]"
| "op_byte (ArmOp p ud) = []"

abbreviation op_bytes :: "irq_op list \<Rightarrow> u8 list" where
  "op_bytes ops \<equiv> concat (map op_byte ops)"

definition post_result_of :: "nat \<times> Completion \<Rightarrow> int" where
  "post_result_of p = c_result (snd p)"

abbreviation kbd_buffered :: "IrqInner \<Rightarrow> u8 list" where
  "kbd_buffered i \<equiv> event_contents SCANCODE_BUF_SIZE (scancodes i)"

definition kbd_inv :: "IrqInner \<Rightarrow> bool" where
  "kbd_inv i \<longleftrightarrow> gsi i = 1 \<and> event_inv SCANCODE_BUF_SIZE (scancodes i)
     \<and> (irq_pending i \<noteq> None \<longrightarrow> kbd_buffered i = [])"

lemma kbd_byte_step:
  assumes "kbd_inv i" and "irq_byte False byte i cnt = (i1, cnt1, posts)"
  shows "kbd_inv i1
       \<and> map post_result_of posts @ map uint (kbd_buffered i1) =
           map uint (kbd_buffered i @ (if length (kbd_buffered i) < 63 then [byte] else []))"
proof (cases "irq_pending i")
  case None
  with assms show ?thesis
    by (auto simp: irq_byte_def irq_event_def kbd_inv_def scancode_push_def events.contents_enq events.inv_enq
        list_enq_def const_defs)
next
  case (Some pu)
  with assms show ?thesis
    by (cases pu) (auto simp: irq_byte_def irq_event_def kbd_inv_def post_result_of_def simple_completion_def)
qed

lemma kbd_arm_step:
  assumes "kbd_inv i"
  shows "\<exists>i1 posts. arm_irq port ud i = Inr (i1, posts, gsi i) \<and> kbd_inv i1
       \<and> map post_result_of posts @ map uint (kbd_buffered i1) = map uint (kbd_buffered i)"
proof -
  obtain b' where b': "drain_events SCANCODE_BUF_SIZE (scancodes i) = Inr (kbd_buffered i, b')"
    "event_contents SCANCODE_BUF_SIZE b' = []" "event_inv SCANCODE_BUF_SIZE b'"
    using drain_events_all [of SCANCODE_BUF_SIZE "scancodes i"] assms by (auto simp: kbd_inv_def)
  have "post_result_of (port, simple_completion ud (uint c) OP_IRQ_WAIT) = uint c" for c :: u8
    by (simp add: post_result_of_def simple_completion_def)
  with assms b' show ?thesis
    by (cases "kbd_buffered i") (auto simp: arm_irq_def kbd_inv_def)
qed

lemma kbd_step_accepts:
  assumes "kbd_inv i"
  shows "\<exists>posts i1 cnt1 new. kbd_step op i cnt = Inr (posts, i1, cnt1) \<and> kbd_inv i1
     \<and> map post_result_of posts @ map uint (kbd_buffered i1) = map uint (kbd_buffered i @ new)
     \<and> subseq new (op_byte op) \<and> (length (kbd_buffered i) + length (op_byte op) \<le> 63 \<longrightarrow> new = op_byte op)"
proof (cases op)
  case (ByteOp byte)
  obtain i1 cnt1 posts1 where s: "irq_byte False byte i cnt = (i1, cnt1, posts1)" using prod_cases3 by blast
  have "subseq (if length (kbd_buffered i) < 63 then [byte] else []) [byte]" by simp
  with kbd_byte_step [OF assms s] ByteOp s show ?thesis by fastforce
next
  case (ArmOp port ud)
  with kbd_arm_step [OF assms, of port ud] show ?thesis by auto
qed

lemma kbd_run_accepts:
  assumes "kbd_inv i"
  shows "\<exists>posts i' acc. kbd_run ops i cnt = Inr (posts, i') \<and> kbd_inv i'
     \<and> map post_result_of posts @ map uint (kbd_buffered i') = map uint (kbd_buffered i @ acc)
     \<and> subseq acc (op_bytes ops) \<and> (length (kbd_buffered i) + length (op_bytes ops) \<le> 63 \<longrightarrow> acc = op_bytes ops)"
  using assms
proof (induction ops arbitrary: i cnt)
  case (Cons op ops)
  obtain posts1 i1 cnt1 new where 1: "kbd_step op i cnt = Inr (posts1, i1, cnt1)" "kbd_inv i1"
    "map post_result_of posts1 @ map uint (kbd_buffered i1) = map uint (kbd_buffered i @ new)"
    "subseq new (op_byte op)" "length (kbd_buffered i) + length (op_byte op) \<le> 63 \<longrightarrow> new = op_byte op"
    using kbd_step_accepts [OF Cons.prems] by blast
  obtain posts2 i2 acc where 2: "kbd_run ops i1 cnt1 = Inr (posts2, i2)" "kbd_inv i2"
    "map post_result_of posts2 @ map uint (kbd_buffered i2) = map uint (kbd_buffered i1 @ acc)"
    "subseq acc (op_bytes ops)" "length (kbd_buffered i1) + length (op_bytes ops) \<le> 63 \<longrightarrow> acc = op_bytes ops"
    using Cons.IH [OF 1(2), of cnt1] by blast
  have eq: "map post_result_of (posts1 @ posts2) @ map uint (kbd_buffered i2) = map uint (kbd_buffered i @ new @ acc)"
    using 1(3) 2(3) by simp
  have sub: "subseq (new @ acc) (op_bytes (op # ops))" using 1(4) 2(4) by (simp add: list_emb_append_mono)
  have "length (kbd_buffered i1) \<le> length (kbd_buffered i) + length new" using arg_cong [OF 1(3), of length] by simp
  then have "length (kbd_buffered i) + length (op_bytes (op # ops)) \<le> 63 \<longrightarrow> new @ acc = op_bytes (op # ops)"
    using 1(5) 2(5) by auto
  with eq sub 1(1) 2(1,2) show ?case
    by (intro exI [of _ "posts1 @ posts2"] exI [of _ i2] exI [of _ "new @ acc"]) simp
qed simp



lemma pack_fields:
  fixes a b :: u16 and c :: u8
  assumes "w = ((ucast a OR push_bit 16 (ucast b) OR push_bit 32 (ucast c)) :: u64)"
  shows "(ucast w :: u16) = a" and "(ucast (drop_bit 16 w) :: u16) = b" and "(ucast (drop_bit 32 w) :: u8) = c"
  by (rule bit_eqI; auto simp: assms bit_ucast_iff bit_or_iff bit_push_bit_iff bit_drop_bit_eq dest: bit_imp_le_length)+

lemma unpack_pack:
  assumes "- (2 ^ 15) \<le> dx" "dx < 2 ^ 15" "- (2 ^ 15) \<le> dy" "dy < 2 ^ 15"
  shows "unpack_mouse_event (pack_mouse_event dx dy buttons) = \<lparr>ev_dx = dx, ev_dy = dy, ev_buttons = buttons\<rparr>"
proof -
  have s: "sint (word_of_int d :: u16) = d" if "- (2 ^ 15) \<le> d" "d < 2 ^ 15" for d :: int
    using that by (simp add: sint_sbintrunc' signed_take_bit_int_eq_self)
  define w :: u64 where
    "w = ucast (word_of_int dx :: u16) OR push_bit 16 (ucast (word_of_int dy :: u16)) OR push_bit 32 (ucast buttons)"
  have "word_of_int (sint w) = w" by simp
  with pack_fields [OF w_def] show ?thesis
    unfolding unpack_mouse_event_def pack_mouse_event_def w_def [symmetric] Let_def
    by (simp add: s [OF assms(1,2)] s [OF assms(3,4)])
qed

lemma and_256: "push_bit k (uint b) AND 256 = (if bit b (8 - k) then 256 else 0)" if "k \<le> 8" for b :: u8
proof (rule bit_eqI)
  fix n
  have 1: "bit (256 :: int) n \<longleftrightarrow> n = 8"
    using bit_exp_iff [where ?'a = int, of "8" n] by simp
  then show "bit (push_bit k (uint b) AND 256) n \<longleftrightarrow> bit (if bit b (8 - k) then 256 else 0 :: int) n"
    using that by (auto simp: bit_and_iff bit_push_bit_iff bit_uint_iff dest: bit_imp_le_length)
qed

text \<open>
  A mouse packet reaches the client as sent. When the decoder is at a packet boundary and three bytes arrive
  with the sync bit set and no overflow bit, the third yields an event that the client's
  \<^verbatim>\<open>unpack_mouse_event\<close> decodes to the nine-bit signed movement of the packet, with the vertical
  axis flipped, and its three buttons; the decoder is at a boundary again. A first byte without the sync
  bit is skipped.
\<close>

theorem mouse_packet_roundtrip:
  assumes "md_idx d = 0" and "length (md_buf d) = 3"
  shows "(b0 AND 0x08 = 0 \<longrightarrow> mouse_feed b0 d = (None, d))
     \<and> (b0 AND 0x08 \<noteq> 0 \<and> uint b0 AND 0xC0 = 0 \<longrightarrow>
         (\<exists>d1 d2 d3 ev. mouse_feed b0 d = (None, d1) \<and> mouse_feed b1 d1 = (None, d2) \<and> mouse_feed b2 d2 = (Some ev, d3)
            \<and> md_idx d3 = 0 \<and> length (md_buf d3) = 3
            \<and> unpack_mouse_event ev =
                \<lparr>ev_dx = uint b1 - (if bit b0 4 then 256 else 0),
                 ev_dy = (if bit b0 5 then 256 else 0) - uint b2, ev_buttons = b0 AND 7\<rparr>))"
proof (intro conjI impI)
  show "b0 AND 0x08 = 0 \<Longrightarrow> mouse_feed b0 d = (None, d)" using assms by (simp add: mouse_feed_def)
  assume b0: "b0 AND 0x08 \<noteq> 0 \<and> uint b0 AND 0xC0 = 0"
  obtain x y z where buf: "md_buf d = [x, y, z]" using assms(2) by (auto simp: numeral_3_eq_3 length_Suc_conv)
  let ?d1 = "d\<lparr>md_buf := [b0, y, z], md_idx := 1\<rparr>" and ?d2 = "d\<lparr>md_buf := [b0, b1, z], md_idx := 2\<rparr>"
  let ?dx = "uint b1 - (push_bit 4 (uint b0) AND 0x100)" and ?dy = "- (uint b2 - (push_bit 3 (uint b0) AND 0x100))"
  have 1: "mouse_feed b0 d = (None, ?d1)" "mouse_feed b1 ?d1 = (None, ?d2)"
    "mouse_feed b2 ?d2 = (Some (pack_mouse_event ?dx ?dy (b0 AND 7)), d\<lparr>md_buf := [b0, b1, b2], md_idx := 0\<rparr>)"
    using b0 assms(1) by (simp_all add: mouse_feed_def buf Let_def)
  have b: "uint b1 < 256" "0 \<le> uint b1" "uint b2 < 256" "0 \<le> uint b2"
    using uint_lt2p [of b1] uint_lt2p [of b2] by simp_all
  have s: "push_bit 4 (uint b0) AND 0x100 = 0 \<or> push_bit 4 (uint b0) AND 0x100 = 256"
    "push_bit 3 (uint b0) AND 0x100 = 0 \<or> push_bit 3 (uint b0) AND 0x100 = 256" by (simp_all add: and_256)
  have small: "- (2 ^ 15) \<le> x - p \<and> x - p < 2 ^ 15 \<and> - (2 ^ 15) \<le> - (x - p) \<and> - (x - p) < 2 ^ 15"
    if "x < 256" "0 \<le> x" "p = 0 \<or> p = 256" for x p :: int using that by auto
  have "- (2 ^ 15) \<le> ?dx" "?dx < 2 ^ 15" "- (2 ^ 15) \<le> ?dy" "?dy < 2 ^ 15"
    using small [OF b(1,2) s(1)] small [OF b(3,4) s(2)] by blast+
  then have "unpack_mouse_event (pack_mouse_event ?dx ?dy (b0 AND 7)) = \<lparr>ev_dx = ?dx, ev_dy = ?dy, ev_buttons = b0 AND 7\<rparr>"
    by (rule unpack_pack)
  with 1 show "\<exists>d1 d2 d3 ev. mouse_feed b0 d = (None, d1) \<and> mouse_feed b1 d1 = (None, d2) \<and> mouse_feed b2 d2 = (Some ev, d3)
            \<and> md_idx d3 = 0 \<and> length (md_buf d3) = 3
            \<and> unpack_mouse_event ev =
                \<lparr>ev_dx = uint b1 - (if bit b0 4 then 256 else 0),
                 ev_dy = (if bit b0 5 then 256 else 0) - uint b2, ev_buttons = b0 AND 7\<rparr>"
    by (auto simp: and_256)
qed

theorem mouse_packet_roundtrip_witness:
  "\<exists>d1 d2 d3 ev. mouse_feed 0x19 MouseDecoder_new = (None, d1) \<and> mouse_feed 0xFE d1 = (None, d2) \<and> mouse_feed 3 d2 = (Some ev, d3)
     \<and> unpack_mouse_event ev = \<lparr>ev_dx = -2, ev_dy = -3, ev_buttons = 1\<rparr>"
proof -
  have "md_idx MouseDecoder_new = 0" "length (md_buf MouseDecoder_new) = 3" by (simp_all add: MouseDecoder_new_def)
  from mouse_packet_roundtrip [OF this, of "0x19" "0xFE" 3] show ?thesis by (simp, blast)
qed

end
