(* ===== verification/Pipe.thy ===== *)
theory Pipe
  imports Completion_Port
begin

text \<open>
  In-kernel pipes (\<^verbatim>\<open>libkernel/src/file.rs\<close>). Every operation is the critical section under the pipe's
  lock; a woken async reader is reported by the number of its waker. Bytes come out in the order in
  which they went in, end of file is seen only after the last writer is gone and everything is
  read, and a registered reader never sleeps while there is something to see.
\<close>

record PipeInner =
  p_buffer :: "u8 list"
  write_closed :: bool
  writer_count :: nat
  reader_thread :: "nat option"
  reader_waker :: "nat option"

definition make_pipe :: PipeInner where
  "make_pipe = \<lparr>p_buffer = [], write_closed = False, writer_count = 1, reader_thread = None, reader_waker = None\<rparr>"

text \<open>
  One round of the loop of \<^verbatim>\<open>PipeReader::read\<close> under the lock; \<open>has_signal\<close> is the answer of the
  process table for the reading process. \<open>Read_Wait\<close> is the blocking branch.
\<close>

datatype read_outcome = Read_Data "u8 list" | Read_Eof | Read_Interrupted | Read_Wait

definition pipe_read_round :: "nat \<Rightarrow> bool \<Rightarrow> PipeInner \<Rightarrow> kernel \<Rightarrow> (read_outcome \<times> PipeInner \<times> kernel) res" where
  "pipe_read_round len has_signal p k =
     (if p_buffer p \<noteq> [] then
        let count = min len (length (p_buffer p))
        in Inr (Read_Data (take count (p_buffer p)), p\<lparr>p_buffer := drop count (p_buffer p)\<rparr>, k)
      else if write_closed p then Inr (Read_Eof, p, k)
      else if has_signal then Inr (Read_Interrupted, p, k)
      else
        bind_res (wait_while (Some p) (\<lambda>thread_idx p. p\<lparr>reader_thread := Some thread_idx\<rparr>) k) (\<lambda>(g, k').
          Inr (Read_Wait, case g of Some p' \<Rightarrow> p' | None \<Rightarrow> p, k')))"

definition pipe_poll_read :: "nat \<Rightarrow> nat \<Rightarrow> PipeInner \<Rightarrow> read_outcome \<times> PipeInner" where
  "pipe_poll_read wkr len p =
     (if p_buffer p \<noteq> [] then
        let count = min len (length (p_buffer p))
        in (Read_Data (take count (p_buffer p)), p\<lparr>p_buffer := drop count (p_buffer p)\<rparr>)
      else if write_closed p then (Read_Eof, p)
      else (Read_Wait, p\<lparr>reader_waker := Some wkr\<rparr>))"

definition pipe_wake_reader :: "PipeInner \<Rightarrow> kernel \<Rightarrow> nat option \<times> nat option \<times> PipeInner \<times> kernel" where
  "pipe_wake_reader p k =
     (reader_thread p, reader_waker p, p\<lparr>reader_thread := None, reader_waker := None\<rparr>,
      case reader_thread p of Some t \<Rightarrow> unblock t k | None \<Rightarrow> k)"

text \<open>\<^verbatim>\<open>PipeWriter::write\<close> up to the yield, with the quantum donated to the woken reader.\<close>

definition pipe_write :: "u8 list \<Rightarrow> PipeInner \<Rightarrow> kernel \<Rightarrow> nat option \<times> nat option \<times> PipeInner \<times> kernel" where
  "pipe_write buf p k =
     (case pipe_wake_reader (p\<lparr>p_buffer := p_buffer p @ buf\<rparr>) k of (woken, wkr, p', k') \<Rightarrow>
        (woken, wkr, p', case woken of Some t \<Rightarrow> set_donate_target t k' | None \<Rightarrow> k'))"

definition pipe_close_writer :: "PipeInner \<Rightarrow> kernel \<Rightarrow> (nat option \<times> nat option \<times> PipeInner \<times> kernel) res" where
  "pipe_close_writer p k =
     bind_res (sub_u64 (writer_count p) 1) (\<lambda>n.
       let p1 = p\<lparr>writer_count := n\<rparr>
       in if n = 0 then Inr (pipe_wake_reader (p1\<lparr>write_closed := True\<rparr>) k)
          else Inr (None, None, p1, k))"

definition pipe_on_dup :: "PipeInner \<Rightarrow> PipeInner res" where
  "pipe_on_dup p = bind_res (add_u64 (writer_count p) 1) (\<lambda>n. Inr (p\<lparr>writer_count := n\<rparr>))"

subsection \<open>Histories\<close>

datatype pipe_op = Write_Op "u8 list" | Read_Op nat bool | Poll_Op nat nat | Close_Op | Dup_Op

text \<open>
  An operation in the scheduler state of its time: the bytes read, whether it reported the end of
  file, the pipe and the scheduler afterwards.
\<close>

fun outcome_bytes :: "read_outcome \<Rightarrow> u8 list" where
  "outcome_bytes (Read_Data bs) = bs"
| "outcome_bytes _ = []"

fun pipe_exec :: "pipe_op \<Rightarrow> PipeInner \<Rightarrow> kernel \<Rightarrow> (u8 list \<times> bool \<times> PipeInner \<times> kernel) res" where
  "pipe_exec (Write_Op buf) p k = (case pipe_write buf p k of (_, _, p', k') \<Rightarrow> Inr ([], False, p', k'))"
| "pipe_exec (Read_Op n sig) p k =
     bind_res (pipe_read_round n sig p k) (\<lambda>(r, p', k'). Inr (outcome_bytes r, r = Read_Eof, p', k'))"
| "pipe_exec (Poll_Op w n) p k =
     (case pipe_poll_read w n p of (r, p') \<Rightarrow> Inr (outcome_bytes r, r = Read_Eof, p', k))"
| "pipe_exec Close_Op p k = bind_res (pipe_close_writer p k) (\<lambda>(_, _, p', k'). Inr ([], False, p', k'))"
| "pipe_exec Dup_Op p k = bind_res (pipe_on_dup p) (\<lambda>p'. Inr ([], False, p', k))"

fun op_written :: "pipe_op \<Rightarrow> u8 list" where
  "op_written (Write_Op buf) = buf"
| "op_written _ = []"

text \<open>Writing and duplicating need an open writer.\<close>

definition op_live :: "pipe_op \<Rightarrow> PipeInner \<Rightarrow> bool" where
  "op_live op p \<longleftrightarrow> ((\<exists>buf. op = Write_Op buf) \<or> op = Dup_Op \<longrightarrow> 0 < writer_count p)"

fun pipe_run :: "(pipe_op \<times> kernel) list \<Rightarrow> PipeInner \<Rightarrow> (u8 list \<times> PipeInner) res" where
  "pipe_run [] p = Inr ([], p)"
| "pipe_run ((op, k) # evs) p =
     bind_res (pipe_exec op p k) (\<lambda>(bs, _, p1, _). bind_res (pipe_run evs p1) (\<lambda>(bs', p2). Inr (bs @ bs', p2)))"

fun pipe_live :: "(pipe_op \<times> kernel) list \<Rightarrow> PipeInner \<Rightarrow> bool" where
  "pipe_live [] p = True"
| "pipe_live ((op, k) # evs) p =
     (op_live op p \<and> (case pipe_exec op p k of Inl _ \<Rightarrow> True | Inr (_, _, p1, _) \<Rightarrow> pipe_live evs p1))"

definition pipe_inv :: "PipeInner \<Rightarrow> bool" where
  "pipe_inv p \<longleftrightarrow> write_closed p = (writer_count p = 0)
     \<and> (reader_thread p \<noteq> None \<or> reader_waker p \<noteq> None \<longrightarrow> p_buffer p = [] \<and> \<not> write_closed p)"

lemma pipe_exec_stream:
  "pipe_exec op p k = Inr (bs, eof, p', k') \<Longrightarrow> p_buffer p @ op_written op = bs @ p_buffer p'"
  by (cases op)
    (auto simp: pipe_write_def pipe_wake_reader_def pipe_read_round_def wait_while_def pipe_poll_read_def
      pipe_close_writer_def pipe_on_dup_def Let_def split: if_splits)

lemma pipe_exec_inv:
  assumes "pipe_exec op p k = Inr (bs, eof, p', k')" and "pipe_inv p" and "op_live op p"
  shows "pipe_inv p'"
  using assms
  by (cases op)
    (auto simp: pipe_write_def pipe_wake_reader_def pipe_read_round_def wait_while_def pipe_poll_read_def
      pipe_close_writer_def pipe_on_dup_def Let_def op_live_def pipe_inv_def split: if_splits)

lemma pipe_exec_eof:
  "pipe_exec op p k = Inr (bs, True, p', k') \<Longrightarrow> p_buffer p = [] \<and> write_closed p"
  by (cases op)
    (auto simp: pipe_write_def pipe_wake_reader_def pipe_read_round_def wait_while_def pipe_poll_read_def
      pipe_close_writer_def pipe_on_dup_def Let_def split: if_splits)

lemma pipe_exec_wakes:
  "pipe_exec op p k = Inr (bs, eof, p', k') \<Longrightarrow> reader_thread p = Some t \<Longrightarrow>
   reader_thread p' = Some t \<or> \<not> asleep k' t \<or> (\<exists>n. op = Read_Op n False)"
  using scheduler_waker.wake_wakes [of t k]
  by (cases op)
    (auto simp: pipe_write_def pipe_wake_reader_def pipe_read_round_def wait_while_def pipe_poll_read_def
      pipe_close_writer_def pipe_on_dup_def set_donate_target_def asleep_def Let_def split: if_splits)

lemma pipe_run_stream:
  "pipe_run evs p = Inr (bs, p') \<Longrightarrow> p_buffer p @ concat (map (op_written \<circ> fst) evs) = bs @ p_buffer p'"
proof (induction evs arbitrary: p bs)
  case (Cons ev evs)
  obtain op k where ev: "ev = (op, k)" by fastforce
  with Cons.prems obtain b1 e p1 k1 b2 where
    1: "pipe_exec op p k = Inr (b1, e, p1, k1)" and 2: "pipe_run evs p1 = Inr (b2, p')" and bs: "bs = b1 @ b2"
    by auto
  from pipe_exec_stream [OF 1] Cons.IH [OF 2] ev bs show ?case by simp (metis append.assoc)
qed simp

lemma pipe_run_inv: "pipe_run evs p = Inr (bs, p') \<Longrightarrow> pipe_live evs p \<Longrightarrow> pipe_inv p \<Longrightarrow> pipe_inv p'"
proof (induction evs arbitrary: p bs)
  case (Cons ev evs)
  obtain op k where ev: "ev = (op, k)" by fastforce
  with Cons.prems obtain b1 e p1 k1 b2 where
    1: "pipe_exec op p k = Inr (b1, e, p1, k1)" and 2: "pipe_run evs p1 = Inr (b2, p')" "pipe_live evs p1" "op_live op p"
    by auto
  from Cons.IH [OF 2(1,2) pipe_exec_inv [OF 1 Cons.prems(3) 2(3)]] show ?case .
qed simp

text \<open>
  C17: A pipe is a byte stream. In every history of a new pipe, the bytes read so far followed by the bytes still in it are the
  bytes written so far, in order. A read reports the end of file only when every writer has closed
  and everything written has been read; while a reader is registered, thread or async task, the
  pipe is empty and open; and an operation that takes a reading thread off the pipe's books leaves it
  awake, unless another blocking read takes its place.
\<close>

theorem pipe_is_stream:
  assumes "pipe_run evs make_pipe = Inr (bs, p)" and "pipe_live evs make_pipe"
    and "pipe_exec op p k = Inr (bs', eof, p', k')"
  shows "concat (map (op_written \<circ> fst) evs) = bs @ p_buffer p
       \<and> (eof \<longrightarrow> writer_count p = 0 \<and> bs = concat (map (op_written \<circ> fst) evs))
       \<and> (reader_thread p \<noteq> None \<or> reader_waker p \<noteq> None \<longrightarrow> p_buffer p = [] \<and> 0 < writer_count p)
       \<and> (\<forall>t. reader_thread p = Some t \<longrightarrow>
            reader_thread p' = Some t \<or> \<not> asleep k' t \<or> (\<exists>n. op = Read_Op n False))"
proof -
  have inv: "pipe_inv p"
    by (rule pipe_run_inv [OF assms(1,2)]) (simp add: pipe_inv_def make_pipe_def)
  have str: "concat (map (op_written \<circ> fst) evs) = bs @ p_buffer p"
    using pipe_run_stream [OF assms(1)] by (simp add: make_pipe_def)
  have "eof \<longrightarrow> p_buffer p = [] \<and> write_closed p" using pipe_exec_eof [of op p k bs' p' k'] assms(3) by simp
  with inv str pipe_exec_wakes [OF assms(3)] show ?thesis by (auto simp: pipe_inv_def)
qed

theorem pipe_is_stream_witness:
  "\<exists>bs p. pipe_run (map (\<lambda>op. (op, boot_kernel)) [Write_Op [1, 2, 3], Read_Op 2 False, Close_Op, Poll_Op 0 8]) make_pipe = Inr (bs, p)
     \<and> (\<exists>p' k'. pipe_exec (Poll_Op 0 8) p boot_kernel = Inr ([], True, p', k')) \<and> bs = [1, 2, 3]"
proof -
  let ?evs = "map (\<lambda>op. (op, boot_kernel)) [Write_Op [1, 2, 3], Read_Op 2 False, Close_Op, Poll_Op 0 8]"
  let ?p = "make_pipe\<lparr>writer_count := 0, write_closed := True\<rparr>"
  have run: "pipe_run ?evs make_pipe = Inr ([1, 2, 3], ?p)" "pipe_live ?evs make_pipe"
    by (simp_all add: pipe_write_def pipe_wake_reader_def pipe_read_round_def pipe_poll_read_def pipe_close_writer_def
        make_pipe_def sub_u64_def op_live_def)
  have e: "pipe_exec (Poll_Op 0 8) ?p boot_kernel = Inr ([], True, ?p, boot_kernel)"
    by (simp add: pipe_poll_read_def make_pipe_def)
  from pipe_is_stream [OF run e] run(1) e show ?thesis by auto
qed

end
