(* ===== verification/User_Mem.thy ===== *)
theory User_Mem
  imports Byte_Memory
begin

text \<open>
  Error numbers (\<^verbatim>\<open>osl/src/errno.rs\<close>) and access to user memory (\<^verbatim>\<open>osl/src/user_mem.rs\<close>). A checked buffer
  lies below the user limit; strings are read byte by byte up to their terminator.
\<close>

subsection \<open>Error numbers\<close>

definition EPERM :: int where [const_defs]: "EPERM = 1"
definition ENOENT :: int where [const_defs]: "ENOENT = 2"
definition ESRCH :: int where [const_defs]: "ESRCH = 3"
definition EINTR :: int where [const_defs]: "EINTR = 4"
definition EIO :: int where [const_defs]: "EIO = 5"
definition ENOEXEC :: int where [const_defs]: "ENOEXEC = 8"
definition EBADF :: int where [const_defs]: "EBADF = 9"
definition ECHILD :: int where [const_defs]: "ECHILD = 10"
definition ENOMEM :: int where [const_defs]: "ENOMEM = 12"
definition EFAULT :: int where [const_defs]: "EFAULT = 14"
definition ENODEV :: int where [const_defs]: "ENODEV = 19"
definition ENOTDIR :: int where [const_defs]: "ENOTDIR = 20"
definition EISDIR :: int where [const_defs]: "EISDIR = 21"
definition EINVAL :: int where [const_defs]: "EINVAL = 22"
definition EMFILE :: int where [const_defs]: "EMFILE = 24"
definition ENOTTY :: int where [const_defs]: "ENOTTY = 25"
definition ERANGE :: int where [const_defs]: "ERANGE = 34"
definition EAGAIN :: int where [const_defs]: "EAGAIN = 11"
definition EPIPE :: int where [const_defs]: "EPIPE = 32"
definition EBUSY :: int where [const_defs]: "EBUSY = 16"
definition ENOSYS :: int where [const_defs]: "ENOSYS = 38"

datatype FileError = BadFd | IsDirectory | NotATty | TooManyOpenFiles | Interrupted

fun file_errno :: "FileError \<Rightarrow> int" where
  "file_errno BadFd = - EBADF"
| "file_errno IsDirectory = - EISDIR"
| "file_errno NotATty = - ENOTTY"
| "file_errno TooManyOpenFiles = - EMFILE"
| "file_errno Interrupted = - EINTR"

subsection \<open>User memory\<close>

definition USER_LIMIT :: nat where [const_defs]: "USER_LIMIT = 0x800000000000"

definition validate_user_buf :: "nat \<Rightarrow> nat \<Rightarrow> bool" where
  "validate_user_buf ptr len \<longleftrightarrow>
     ptr \<noteq> 0 \<and> len \<le> USER_LIMIT \<and> (if ptr + len < 2 ^ 64 then ptr + len \<le> USER_LIMIT else False)"

definition user_slice :: "nat \<Rightarrow> nat \<Rightarrow> memory \<Rightarrow> int + u8 list" where
  "user_slice ptr len m = (if \<not> validate_user_buf ptr len then Inl (- EFAULT) else Inr (load_bytes ptr len m))"

text \<open>The scan for the terminator: \<open>n\<close> is the number of bytes that may still be looked at.\<close>

fun scan_string :: "nat \<Rightarrow> nat \<Rightarrow> memory \<Rightarrow> int + nat" where
  "scan_string 0 addr m = Inr 0"
| "scan_string (Suc n) addr m =
     (if addr \<ge> USER_LIMIT then Inl (- EFAULT)
      else if m addr = 0 then Inr 0
      else (case scan_string n (addr + 1) m of Inl e \<Rightarrow> Inl e | Inr l \<Rightarrow> Inr (Suc l)))"

text \<open>\<open>utf8\<close> is the check of \<^verbatim>\<open>core::str::from_utf8\<close>.\<close>

definition read_user_string :: "(u8 list \<Rightarrow> bool) \<Rightarrow> nat \<Rightarrow> nat \<Rightarrow> memory \<Rightarrow> int + u8 list" where
  "read_user_string utf8 ptr max_len m =
     (if ptr = 0 \<or> ptr \<ge> USER_LIMIT then Inl (- EFAULT)
      else
        (case scan_string max_len ptr m of
           Inl e \<Rightarrow> Inl e
         | Inr len \<Rightarrow>
             let bytes = load_bytes ptr len m
             in if utf8 bytes then Inr bytes else Inl (- EINVAL)))"

text \<open>
  The loop over the pointer array; \<open>fuel\<close> counts down from 257, one more than the 256 entries after which the source gives up.
\<close>

fun read_string_array_from ::
  "(u8 list \<Rightarrow> bool) \<Rightarrow> nat \<Rightarrow> nat \<Rightarrow> nat \<Rightarrow> memory \<Rightarrow> (int + u8 list list) res" where
  "read_string_array_from utf8 0 ptr i m = Inr (Inl (- EINVAL))"
| "read_string_array_from utf8 (Suc fuel) ptr i m =
     bind_res (add_u64 ptr (i * 8)) (\<lambda>entry_addr.
     bind_res (add_u64 entry_addr 8) (\<lambda>entry_end.
       if entry_end > USER_LIMIT then Inr (Inl (- EFAULT))
       else
         let str_ptr = load_u64 entry_addr m in
         if str_ptr = 0 then Inr (Inr [])
         else
           (case read_user_string utf8 str_ptr 4096 m of
              Inl e \<Rightarrow> Inr (Inl e)
            | Inr s \<Rightarrow>
                bind_res (read_string_array_from utf8 fuel ptr (Suc i) m) (\<lambda>r.
                  Inr (case r of Inl e \<Rightarrow> Inl e | Inr ss \<Rightarrow> Inr (s # ss))))))"

definition read_user_string_array :: "(u8 list \<Rightarrow> bool) \<Rightarrow> nat \<Rightarrow> memory \<Rightarrow> (int + u8 list list) res" where
  "read_user_string_array utf8 ptr m =
     (if ptr = 0 then Inr (Inr []) else read_string_array_from utf8 257 ptr 0 m)"

subsection \<open>Properties\<close>

lemma scan_string_spec:
  "scan_string n a m = Inr l \<Longrightarrow>
     l \<le> n \<and> (l = n \<or> m (a + l) = 0) \<and> (\<forall>j<l. m (a + j) \<noteq> 0 \<and> a + j < USER_LIMIT) \<and> (l < n \<longrightarrow> a + l < USER_LIMIT)"
proof (induction n arbitrary: a l)
  case (Suc n)
  show ?case
  proof (cases "m a = 0 \<or> a \<ge> USER_LIMIT")
    case False
    with Suc.prems obtain l' where l: "scan_string n (a + 1) m = Inr l'" "l = Suc l'"
      by (auto split: sum.splits)
    from Suc.IH [OF l(1)] l(2) False show ?thesis
      by (auto simp: less_Suc_eq_0_disj)
  qed (use Suc.prems in \<open>auto split: if_splits\<close>)
qed simp



end
