(* ===== verification/Vfs_File.thy ===== *)
theory Vfs_File
  imports User_Mem
begin

text \<open>
  The file and directory handles of \<^verbatim>\<open>osl/src/file.rs\<close>: reading a buffered file in pieces, and the
  \<^verbatim>\<open>linux_dirent64\<close> records of a directory listing. Pieces of a file are its content in order; a
  reader of the records gets every entry exactly once, however the buffer is sized.
\<close>

subsection \<open>Files\<close>

record VfsHandle =
  content :: "u8 list"
  pos :: nat

definition VfsHandle_new :: "u8 list \<Rightarrow> VfsHandle" where
  "VfsHandle_new c = \<lparr>content = c, pos = 0\<rparr>"

definition vfs_read :: "nat \<Rightarrow> VfsHandle \<Rightarrow> u8 list \<times> VfsHandle" where
  "vfs_read buf_len h =
     (let remaining = length (content h) - pos h;
          count = min buf_len remaining
      in if count > 0 then (take count (drop (pos h) (content h)), h\<lparr>pos := pos h + count\<rparr>) else ([], h))"

subsection \<open>Directories\<close>

record VfsDirEntry =
  de_name :: "u8 list"
  is_dir :: bool
  de_size :: u64

record DirHandle =
  entries :: "VfsDirEntry list"
  cursor :: nat

definition DirHandle_new :: "VfsDirEntry list \<Rightarrow> DirHandle" where
  "DirHandle_new es = \<lparr>entries = es, cursor = 0\<rparr>"

definition reclen :: "VfsDirEntry \<Rightarrow> nat" where
  "reclen e = (8 + 8 + 2 + 1 + length (de_name e) + 1 + 7) div 8 * 8"

text \<open>The record of the entry at the cursor: number, next offset, length, type, name, terminator, padding.\<close>

definition dirent_bytes :: "nat \<Rightarrow> VfsDirEntry \<Rightarrow> u8 list" where
  "dirent_bytes c e =
     le_bytes 8 (c + 1) @ le_bytes 8 (c + 1) @ le_bytes 2 (reclen e) @ [if is_dir e then 4 else 8]
     @ de_name e @ [0] @ replicate (reclen e - (19 + length (de_name e) + 1)) 0"

text \<open>The loop, over the entries from the cursor on; \<open>room\<close> is what is left of the buffer.\<close>

fun getdents_from :: "nat \<Rightarrow> VfsDirEntry list \<Rightarrow> nat \<Rightarrow> u8 list \<times> nat" where
  "getdents_from room [] c = ([], c)"
| "getdents_from room (e # es) c =
     (if reclen e > room then ([], c)
      else (case getdents_from (room - reclen e) es (c + 1) of (bs, c') \<Rightarrow> (dirent_bytes c e @ bs, c')))"

definition getdents64 :: "nat \<Rightarrow> DirHandle \<Rightarrow> u8 list \<times> DirHandle" where
  "getdents64 buf_len h =
     (case getdents_from buf_len (drop (cursor h) (entries h)) (cursor h) of (bs, c) \<Rightarrow> (bs, h\<lparr>cursor := c\<rparr>))"

subsection \<open>Reading records back\<close>

text \<open>The reader that the record format is for: the name up to its terminator, then the next record.\<close>

definition parse_dirent :: "u8 list \<Rightarrow> (u8 list \<times> bool) \<times> u8 list" where
  "parse_dirent bs =
     ((takeWhile (\<lambda>b. b \<noteq> 0) (drop 19 bs), bs ! 18 = 4),
      drop (of_le_bytes (take 2 (drop 16 bs))) bs)"

text \<open>Reading all records of a buffer; every record takes at least one unit of fuel off its length.\<close>

fun parse_dirents :: "nat \<Rightarrow> u8 list \<Rightarrow> (u8 list \<times> bool) list" where
  "parse_dirents 0 bs = []"
| "parse_dirents (Suc n) bs =
     (if bs = [] then [] else (case parse_dirent bs of (e, rest) \<Rightarrow> e # parse_dirents n rest))"

text \<open>A reader that calls with buffers of the given sizes and puts together what it reads.\<close>

fun listing :: "nat list \<Rightarrow> DirHandle \<Rightarrow> (u8 list \<times> bool) list \<times> DirHandle" where
  "listing [] h = ([], h)"
| "listing (n # ns) h =
     (case getdents64 n h of (bs, h') \<Rightarrow>
      (case listing ns h' of (es, h'') \<Rightarrow> (parse_dirents (length bs) bs @ es, h'')))"

fun reads :: "nat list \<Rightarrow> VfsHandle \<Rightarrow> u8 list \<times> VfsHandle" where
  "reads [] h = ([], h)"
| "reads (n # ns) h =
     (case vfs_read n h of (bs, h') \<Rightarrow> (case reads ns h' of (cs, h'') \<Rightarrow> (bs @ cs, h'')))"

text \<open>What a record says of an entry.\<close>

definition name_type :: "VfsDirEntry \<Rightarrow> u8 list \<times> bool" where
  "name_type e = (de_name e, is_dir e)"

text \<open>A name that fits a record: no terminator in it, and a length the 16-bit field can hold.\<close>

definition name_ok :: "VfsDirEntry \<Rightarrow> bool" where
  "name_ok e \<longleftrightarrow> 0 \<notin> set (de_name e) \<and> length (de_name e) < 65000"

text \<open>Reads in pieces give the content in order, as much of it as the pieces ask for.\<close>

lemma reads_content:
  "reads ns h = (bs, h') \<Longrightarrow>
     bs = take (sum_list ns) (drop (pos h) (content h)) \<and> content h' = content h"
proof (induction ns arbitrary: h bs)
  case (Cons n ns)
  obtain b1 h1 where r: "vfs_read n h = (b1, h1)" by fastforce
  obtain b2 where l: "reads ns h1 = (b2, h')" "bs = b1 @ b2" using Cons.prems r by (auto split: prod.splits)
  have "b1 = take n (drop (pos h) (content h))" "content h1 = content h"
    "drop (pos h1) (content h) = drop n (drop (pos h) (content h))"
    using r by (auto simp: vfs_read_def Let_def min_def add.commute split: if_splits)
  then show ?case using Cons.IH [OF l(1)] l(2) by (simp add: take_add)
qed simp

lemma reclen_bounds: "20 + length (de_name e) \<le> reclen e" "reclen e < 28 + length (de_name e)"
  unfolding reclen_def by presburger+

lemma length_dirent_bytes: "length (dirent_bytes c e) = reclen e"
  using reclen_bounds [of e] by (simp add: dirent_bytes_def)

lemma parse_dirent_bytes:
  assumes "name_ok e"
  shows "parse_dirent (dirent_bytes c e @ bs) = (name_type e, bs)"
proof -
  let ?pad = "replicate (reclen e - (19 + length (de_name e) + 1)) (0 :: u8)"
  let ?t = "if is_dir e then 4 else (8 :: u8)"
  have split: "dirent_bytes c e @ bs =
      (le_bytes 8 (c + 1) @ le_bytes 8 (c + 1)) @ le_bytes 2 (reclen e) @ ?t # de_name e @ 0 # ?pad @ bs"
    by (simp add: dirent_bytes_def)
  have 16: "drop 16 (dirent_bytes c e @ bs) = le_bytes 2 (reclen e) @ ?t # de_name e @ 0 # ?pad @ bs"
    unfolding split by simp
  have 18: "drop 18 (dirent_bytes c e @ bs) = ?t # de_name e @ 0 # ?pad @ bs"
    unfolding split by simp
  have n: "drop 19 (dirent_bytes c e @ bs) = de_name e @ 0 # ?pad @ bs"
    unfolding split by simp
  have "18 < length (dirent_bytes c e @ bs)"
    using reclen_bounds(1) [of e] by (simp add: length_dirent_bytes)
  from hd_drop_conv_nth [OF this] have t: "(dirent_bytes c e @ bs) ! 18 = ?t"
    unfolding 18 by simp
  have tw: "takeWhile (\<lambda>b. b \<noteq> 0) (de_name e @ 0 # ?pad @ bs) = de_name e"
    using assms by (subst takeWhile_append2) (auto simp: name_ok_def)
  have l: "of_le_bytes (take 2 (drop 16 (dirent_bytes c e @ bs))) = reclen e"
    using assms reclen_bounds(2) [of e] unfolding 16 by (simp add: of_le_bytes_le_bytes name_ok_def)
  show ?thesis
    unfolding parse_dirent_def n tw t l by (simp add: name_type_def length_dirent_bytes [of c e, symmetric])
qed


lemma parse_dirents_Nil [simp]: "parse_dirents n [] = []"
  by (cases n) simp_all

lemma getdents_from_spec:
  "getdents_from room es c = (bs, c') \<Longrightarrow>
     c \<le> c' \<and> c' - c \<le> length es \<and> length bs \<le> room
     \<and> ((\<forall>e\<in>set es. name_ok e) \<longrightarrow> (\<forall>n\<ge>length bs. parse_dirents n bs = map name_type (take (c' - c) es)))"
proof (induction room es c arbitrary: bs c' rule: getdents_from.induct)
  case (2 room e es c)
  show ?case
  proof (cases "reclen e > room")
    case False
    then obtain rest where r: "getdents_from (room - reclen e) es (c + 1) = (rest, c')"
      and bs: "bs = dirent_bytes c e @ rest"
      using 2(2) by (auto split: prod.splits)
    note IH = 2(1) [OF False r]
    have ne: "bs \<noteq> []" using reclen_bounds(1) [of e] length_dirent_bytes [of c e] bs by auto
    have "parse_dirents n bs = map name_type (take (c' - c) (e # es))"
      if ok: "\<forall>e\<in>set (e # es). name_ok e" and n: "n \<ge> length bs" for n
    proof -
      obtain m where m: "n = Suc m" using n ne by (cases n) auto
      have "length rest \<le> m" using n m bs reclen_bounds(1) [of e] length_dirent_bytes [of c e] by simp
      then have "parse_dirents m rest = map name_type (take (c' - (c + 1)) es)" using IH ok by simp
      moreover have "c' - c = Suc (c' - (c + 1))" using IH by linarith
      ultimately show ?thesis using ne ok by (simp add: m bs parse_dirent_bytes)
    qed
    then show ?thesis using IH False bs length_dirent_bytes [of c e] by auto
  qed (use 2(2) in auto)
qed auto

lemma getdents64_spec:
  assumes "getdents64 n h = (bs, h')" "cursor h \<le> length (entries h)" "\<forall>e\<in>set (entries h). name_ok e"
  shows "entries h' = entries h" "cursor h \<le> cursor h'" "cursor h' \<le> length (entries h)" "length bs \<le> n"
    "parse_dirents (length bs) bs = map name_type (take (cursor h' - cursor h) (drop (cursor h) (entries h)))"
proof -
  obtain c where c: "getdents_from n (drop (cursor h) (entries h)) (cursor h) = (bs, c)"
    and h': "h' = h\<lparr>cursor := c\<rparr>"
    using assms(1) by (auto simp: getdents64_def split: prod.splits)
  note S = getdents_from_spec [OF c]
  show "entries h' = entries h" "cursor h \<le> cursor h'" "length bs \<le> n" using S h' by simp_all
  show "cursor h' \<le> length (entries h)" using S h' assms(2) by simp linarith
  have "\<forall>e\<in>set (drop (cursor h) (entries h)). name_ok e" using assms(3) by (meson in_set_dropD)
  then show "parse_dirents (length bs) bs = map name_type (take (cursor h' - cursor h) (drop (cursor h) (entries h)))"
    using S h' by simp
qed

text \<open>A buffer with room for the next record makes progress.\<close>

lemma getdents64_progress:
  assumes "cursor h < length (entries h)" "reclen (entries h ! cursor h) \<le> n" "getdents64 n h = (bs, h')"
  shows "cursor h < cursor h'"
proof -
  have "drop (cursor h) (entries h) = entries h ! cursor h # drop (Suc (cursor h)) (entries h)"
    using assms(1) by (simp add: Cons_nth_drop_Suc)
  then show ?thesis
    using assms(2,3) getdents_from_spec [of "n - reclen (entries h ! cursor h)"]
    by (fastforce simp: getdents64_def split: prod.splits if_splits)
qed

lemma listing_spec:
  assumes "listing ns h = (es, h')" "cursor h \<le> length (entries h)" "\<forall>e\<in>set (entries h). name_ok e"
  shows "entries h' = entries h \<and> cursor h \<le> cursor h' \<and> cursor h' \<le> length (entries h)
    \<and> es = map name_type (take (cursor h' - cursor h) (drop (cursor h) (entries h)))"
  using assms
proof (induction ns arbitrary: h es)
  case (Cons n ns)
  obtain bs h1 where g: "getdents64 n h = (bs, h1)" by fastforce
  obtain es1 where l: "listing ns h1 = (es1, h')" "es = parse_dirents (length bs) bs @ es1"
    using Cons.prems(1) g by (auto split: prod.splits)
  note G = getdents64_spec [OF g Cons.prems(2,3)]
  have I: "entries h' = entries h1 \<and> cursor h1 \<le> cursor h' \<and> cursor h' \<le> length (entries h1)
    \<and> es1 = map name_type (take (cursor h' - cursor h1) (drop (cursor h1) (entries h1)))"
    using Cons.IH [OF l(1)] G(1,3) Cons.prems(3) by simp
  have "take (cursor h' - cursor h) (drop (cursor h) (entries h)) =
      take (cursor h1 - cursor h) (drop (cursor h) (entries h)) @ take (cursor h' - cursor h1) (drop (cursor h1) (entries h))"
    using I G(2) take_add [of "cursor h1 - cursor h" "cursor h' - cursor h1" "drop (cursor h) (entries h)"] by simp
  then show ?case using I G l(2) by simp
qed auto

lemma listing_complete:
  assumes "listing ns h = (es, h')" "cursor h \<le> length (entries h)" "\<forall>e\<in>set (entries h). name_ok e"
    "\<forall>n\<in>set ns. \<forall>e\<in>set (entries h). reclen e \<le> n"
  shows "min (length (entries h)) (cursor h + length ns) \<le> cursor h'"
  using assms
proof (induction ns arbitrary: h es)
  case (Cons n ns)
  obtain bs h1 where g: "getdents64 n h = (bs, h1)" by fastforce
  obtain es1 where l: "listing ns h1 = (es1, h')" using Cons.prems(1) g by (auto split: prod.splits)
  note G = getdents64_spec [OF g Cons.prems(2,3)]
  have "cursor h < length (entries h) \<Longrightarrow> cursor h < cursor h1"
    using getdents64_progress [OF _ _ g] Cons.prems(4) by simp
  moreover have "min (length (entries h)) (cursor h1 + length ns) \<le> cursor h'"
    using Cons.IH [OF l] G(1,3) Cons.prems(3,4) by simp
  ultimately show ?case using G(2) Cons.prems(2) by fastforce
qed auto

text \<open>
  C19: A program that reads a directory with buffers of any sizes gets a prefix of its entries, each
  once and in order; with buffers that hold the largest record it has the whole directory after at
  most as many calls as there are entries.
\<close>

theorem getdents_lists_directory:
  assumes "\<forall>e\<in>set es. name_ok e" and "listing ns (DirHandle_new es) = (out, h')"
  shows "out = map name_type (take (cursor h') es)
    \<and> ((\<forall>n\<in>set ns. \<forall>e\<in>set es. reclen e \<le> n) \<and> length es \<le> length ns \<longrightarrow> out = map name_type es)"
proof -
  let ?h = "DirHandle_new es"
  have ok: "cursor ?h \<le> length (entries ?h)" "\<forall>e\<in>set (entries ?h). name_ok e"
    using assms(1) by (simp_all add: DirHandle_new_def)
  have out: "out = map name_type (take (cursor h') es)" and le: "cursor h' \<le> length es"
    using listing_spec [OF assms(2) ok] by (simp_all add: DirHandle_new_def)
  have "length es \<le> cursor h'" if "\<forall>n\<in>set ns. \<forall>e\<in>set es. reclen e \<le> n" "length es \<le> length ns"
    using listing_complete [OF assms(2) ok] that by (simp add: DirHandle_new_def)
  then show ?thesis using out by (metis take_all)
qed

lemma getdents_lists_directory_witness:
  "let es = [\<lparr>de_name = [97, 98], is_dir = True, de_size = 0\<rparr>, \<lparr>de_name = [99], is_dir = False, de_size = 5\<rparr>]
   in fst (listing [24, 24] (DirHandle_new es)) = [([97, 98], True), ([99], False)]"
proof -
  let ?es = "[\<lparr>de_name = [97, 98], is_dir = True, de_size = 0\<rparr>, \<lparr>de_name = [99], is_dir = False, de_size = 5\<rparr>]
    :: VfsDirEntry list"
  obtain out h where l: "listing [24, 24] (DirHandle_new ?es) = (out, h)" by fastforce
  have ok: "\<forall>e\<in>set ?es. name_ok e" by (simp add: name_ok_def)
  have "\<forall>n\<in>set [24 :: nat, 24]. \<forall>e\<in>set ?es. reclen e \<le> n" by (simp add: reclen_def)
  then have "out = map name_type ?es"
    using getdents_lists_directory [OF ok l] by auto
  then show ?thesis unfolding Let_def l by (simp add: name_type_def)
qed

end
