(* ===== verification/Fd_Table.thy ===== *)
theory Fd_Table
  imports Channel Notify Irq_Handle Pipe Vfs_File "HOL-Library.Multiset"
begin

text \<open>
  File descriptors: the store of kernel objects, duplicating and closing an object
  (\<^verbatim>\<open>libkernel/src/file.rs\<close>), the descriptor table of a process (\<^verbatim>\<open>libkernel/src/process.rs\<close>) and what a
  system call does with the result of a close (\<^verbatim>\<open>osl/src/fd_close.rs\<close>). Pipe writers and channel ends count
  their references; the main result is that the descriptor operations keep every count equal to
  the number of references there are, so that no close underflows and an end is closed exactly when
  its last reference is.
\<close>

subsection \<open>Objects\<close>

definition FD_CLOEXEC :: u32 where
  [const_defs]: "FD_CLOEXEC = 1"

definition MAX_FDS :: nat where
  [const_defs]: "MAX_FDS = 64"

datatype CloseResult =
    Close_None
  | WakeThread nat
  | NotifyRecvPort PendingPortRecv
  | NotifySendPort PendingPortSend

text \<open>The implementations of the trait \<^verbatim>\<open>FileHandle\<close>.\<close>

datatype FileHandle =
    ConsoleHandle bool
  | PipeReader nat
  | PipeWriter nat
  | VfsFile VfsHandle
  | Directory DirHandle

record SharedMemInner =
  sm_frames :: "nat list"
  sm_size :: nat
  owned :: bool

text \<open>
  The objects of the kernel by number, the scheduler, and what closing does to the outside: the
  wakers it called, and the redirection entries and vectors it gave back to the interrupt controller.
\<close>

record objects =
  handles :: "nat \<Rightarrow> FileHandle"
  pipes :: "nat \<Rightarrow> PipeInner"
  channels :: "nat \<Rightarrow> ChannelInner"
  irq_sys :: irq_system
  obj_ports :: ports
  notifies :: "nat \<Rightarrow> NotifyInner"
  shmems :: "nat \<Rightarrow> SharedMemInner"
  kern :: kernel
  woken_tasks :: "nat list"
  irqs_released :: "((u32 \<times> u64) \<times> u8) list"

definition handle_on_dup :: "FileHandle \<Rightarrow> objects \<Rightarrow> objects res" where
  "handle_on_dup h os =
     (case h of
        PipeWriter p \<Rightarrow> bind_res (pipe_on_dup (pipes os p)) (\<lambda>p'. Inr (os\<lparr>pipes := (pipes os)(p := p')\<rparr>))
      | _ \<Rightarrow> Inr os)"

definition handle_close :: "FileHandle \<Rightarrow> objects \<Rightarrow> (nat option \<times> objects) res" where
  "handle_close h os =
     (case h of
        PipeWriter p \<Rightarrow>
          bind_res (pipe_close_writer (pipes os p) (kern os)) (\<lambda>(woken, wkr, p', k').
            Inr (woken, os\<lparr>pipes := (pipes os)(p := p'), kern := k',
                           woken_tasks := woken_tasks os @ opt_list wkr\<rparr>))
      | _ \<Rightarrow> Inr (None, os))"

definition notify_dup :: "FdObject \<Rightarrow> objects \<Rightarrow> objects res" where
  "notify_dup obj os =
     (case obj of
        File h \<Rightarrow> handle_on_dup (handles os h) os
      | Channel (Send c) \<Rightarrow>
          bind_res (dup_send (channels os c)) (\<lambda>c'. Inr (os\<lparr>channels := (channels os)(c := c')\<rparr>))
      | Channel (Recv c) \<Rightarrow>
          bind_res (dup_recv (channels os c)) (\<lambda>c'. Inr (os\<lparr>channels := (channels os)(c := c')\<rparr>))
      | _ \<Rightarrow> Inr os)"

definition close :: "FdObject \<Rightarrow> objects \<Rightarrow> (CloseResult \<times> objects) res" where
  "close obj os =
     (case obj of
        File h \<Rightarrow>
          bind_res (handle_close (handles os h) os) (\<lambda>(woken, os').
            Inr (case woken of Some idx \<Rightarrow> WakeThread idx | None \<Rightarrow> Close_None, os'))
      | Port _ \<Rightarrow> Inr (Close_None, os)
      | Irq i \<Rightarrow>
          bind_res (close_irq (irqs (irq_sys os) i) (irq_sys os)) (\<lambda>(entry, vec, sys).
            Inr (Close_None, os\<lparr>irq_sys := sys, irqs_released := irqs_released os @ [(entry, vec)]\<rparr>))
      | Channel (Send c) \<Rightarrow>
          bind_res (close_send (channels os c) (kern os)) (\<lambda>(a, c', k').
            Inr (case a of
                   CloseSend_None \<Rightarrow> Close_None
                 | CloseSend_WakeThread idx \<Rightarrow> WakeThread idx
                 | CloseSend_NotifyPort pr \<Rightarrow> NotifyRecvPort pr,
                 os\<lparr>channels := (channels os)(c := c'), kern := k'\<rparr>))
      | Channel (Recv c) \<Rightarrow>
          bind_res (close_recv (channels os c) (kern os)) (\<lambda>(a, c', k').
            Inr (case a of
                   CloseRecv_None \<Rightarrow> Close_None
                 | CloseRecv_WakeThread idx \<Rightarrow> WakeThread idx
                 | CloseRecv_NotifyPort ps \<Rightarrow> NotifySendPort ps,
                 os\<lparr>channels := (channels os)(c := c'), kern := k'\<rparr>))
      | SharedMem _ \<Rightarrow> Inr (Close_None, os)
      | Notify _ \<Rightarrow> Inr (Close_None, os))"

text \<open>Dropping an undelivered envelope closes the objects in it.\<close>

fun close_objects :: "FdObject list \<Rightarrow> objects \<Rightarrow> objects res" where
  "close_objects [] os = Inr os"
| "close_objects (obj # objs) os = bind_res (close obj os) (\<lambda>(_, os'). close_objects objs os')"

text \<open>
  \<^verbatim>\<open>handle_close_result\<close> up to the yield, and whether there is one: a woken thread gets the rest of the
  quantum, an armed port gets a completion with the error \<open>EPIPE\<close>.
\<close>

definition notify_peer_closed :: "nat \<Rightarrow> Completion \<Rightarrow> objects \<Rightarrow> bool \<times> objects" where
  "notify_peer_closed port c os =
     (case post_at port c (obj_ports os) (kern os) of (woken, ps, k) \<Rightarrow>
        (case woken of
           Some idx \<Rightarrow> (True, os\<lparr>obj_ports := ps, kern := set_donate_target idx k\<rparr>)
         | None \<Rightarrow> (False, os\<lparr>obj_ports := ps, kern := k\<rparr>)))"

definition handle_close_result :: "CloseResult \<Rightarrow> objects \<Rightarrow> (bool \<times> objects) res" where
  "handle_close_result r os =
     (case r of
        Close_None \<Rightarrow> Inr (False, os)
      | WakeThread idx \<Rightarrow> Inr (True, os\<lparr>kern := set_donate_target idx (kern os)\<rparr>)
      | NotifyRecvPort pr \<Rightarrow>
          Inr (notify_peer_closed (recv_port pr) (simple_completion (recv_user_data pr) (- EPIPE) OP_IPC_RECV) os)
      | NotifySendPort ps \<Rightarrow>
          bind_res (close_objects (drop_env (envelope ps)) os) (\<lambda>os'.
            Inr (notify_peer_closed (send_port ps) (simple_completion (send_user_data ps) (- EPIPE) OP_IPC_SEND) os')))"

subsection \<open>The descriptor table\<close>

record FdEntry =
  object :: FdObject
  fd_flags :: u32

type_synonym fd_table = "FdEntry option list"

definition from_object :: "FdObject \<Rightarrow> u32 \<Rightarrow> FdEntry" where
  "from_object obj flags = \<lparr>object = obj, fd_flags = flags\<rparr>"

text \<open>Three consoles; \<open>h0\<close>, \<open>h1\<close>, \<open>h2\<close> are the handles the table allocates for them.\<close>

definition default_fd_table :: "nat \<Rightarrow> nat \<Rightarrow> nat \<Rightarrow> (nat \<Rightarrow> FileHandle) \<Rightarrow> fd_table \<times> (nat \<Rightarrow> FileHandle)" where
  "default_fd_table h0 h1 h2 hs =
     ([Some (from_object (File h0) 0), Some (from_object (File h1) 0), Some (from_object (File h2) 0)],
      hs(h0 := ConsoleHandle True, h1 := ConsoleHandle False, h2 := ConsoleHandle False))"

definition alloc_fd_with_flags :: "FdObject \<Rightarrow> u32 \<Rightarrow> fd_table \<Rightarrow> FileError + nat \<times> fd_table" where
  "alloc_fd_with_flags obj flags t =
     (case position (\<lambda>slot. slot = None) t of
        Some i \<Rightarrow> Inr (i, t[i := Some (from_object obj flags)])
      | None \<Rightarrow>
          if length t < MAX_FDS then Inr (length t, t @ [Some (from_object obj flags)]) else Inl TooManyOpenFiles)"

definition alloc_fd :: "FdObject \<Rightarrow> fd_table \<Rightarrow> FileError + nat \<times> fd_table" where
  "alloc_fd obj t = alloc_fd_with_flags obj 0 t"

text \<open>The entry in a slot, as \<^verbatim>\<open>get(fd)\<close> followed by the match on the slot finds it.\<close>

definition get_fd_entry :: "nat \<Rightarrow> fd_table \<Rightarrow> FileError + FdEntry" where
  "get_fd_entry fd t =
     (if fd < length t then (case t ! fd of Some e \<Rightarrow> Inr e | None \<Rightarrow> Inl BadFd) else Inl BadFd)"

definition get_fd :: "nat \<Rightarrow> fd_table \<Rightarrow> FileError + FdObject" where
  "get_fd fd t =
     (if fd < length t then (case t ! fd of Some e \<Rightarrow> Inr (object e) | None \<Rightarrow> Inl BadFd) else Inl BadFd)"

definition get_fd_flags :: "nat \<Rightarrow> fd_table \<Rightarrow> FileError + u32" where
  "get_fd_flags fd t =
     (if fd < length t then (case t ! fd of Some e \<Rightarrow> Inr (fd_flags e) | None \<Rightarrow> Inl BadFd) else Inl BadFd)"

definition set_fd_flags :: "nat \<Rightarrow> u32 \<Rightarrow> fd_table \<Rightarrow> FileError + fd_table" where
  "set_fd_flags fd flags t =
     (if fd < length t then
        (case t ! fd of Some e \<Rightarrow> Inr (t[fd := Some (e\<lparr>fd_flags := flags\<rparr>)]) | None \<Rightarrow> Inl BadFd)
      else Inl BadFd)"

definition close_fd :: "nat \<Rightarrow> fd_table \<Rightarrow> objects \<Rightarrow> ((FileError + CloseResult) \<times> fd_table \<times> objects) res" where
  "close_fd fd t os =
     (if fd \<ge> length t then Inr (Inl BadFd, t, os)
      else
        (case t ! fd of
           Some e \<Rightarrow> bind_res (close (object e) os) (\<lambda>(r, os'). Inr (Inr r, t[fd := None], os'))
         | None \<Rightarrow> Inr (Inl BadFd, t, os)))"

fun close_all_fds :: "fd_table \<Rightarrow> objects \<Rightarrow> (fd_table \<times> objects) res" where
  "close_all_fds [] os = Inr ([], os)"
| "close_all_fds (None # t) os = bind_res (close_all_fds t os) (\<lambda>(t', os'). Inr (None # t', os'))"
| "close_all_fds (Some e # t) os =
     bind_res (close (object e) os) (\<lambda>(_, os1).
     bind_res (close_all_fds t os1) (\<lambda>(t', os'). Inr (None # t', os')))"

fun close_cloexec_fds :: "fd_table \<Rightarrow> objects \<Rightarrow> (fd_table \<times> objects) res" where
  "close_cloexec_fds [] os = Inr ([], os)"
| "close_cloexec_fds (None # t) os = bind_res (close_cloexec_fds t os) (\<lambda>(t', os'). Inr (None # t', os'))"
| "close_cloexec_fds (Some e # t) os =
     (if fd_flags e AND FD_CLOEXEC \<noteq> 0 then
        bind_res (close (object e) os) (\<lambda>(_, os1).
        bind_res (close_cloexec_fds t os1) (\<lambda>(t', os'). Inr (None # t', os')))
      else bind_res (close_cloexec_fds t os) (\<lambda>(t', os'). Inr (Some e # t', os')))"

definition set_fd :: "nat \<Rightarrow> FdEntry \<Rightarrow> fd_table \<Rightarrow> objects \<Rightarrow> (fd_table \<times> objects) res" where
  "set_fd fd e t os =
     (let t1 = t @ replicate (fd + 1 - length t) None in
      case t1 ! fd of
        Some old \<Rightarrow> bind_res (close (object old) os) (\<lambda>(_, os'). Inr (t1[fd := Some e], os'))
      | None \<Rightarrow> Inr (t1[fd := Some e], os))"

text \<open>The body of \<^verbatim>\<open>sys_dup2\<close> for distinct descriptors.\<close>

definition dup_to :: "nat \<Rightarrow> nat \<Rightarrow> fd_table \<Rightarrow> objects \<Rightarrow> ((FileError + nat) \<times> fd_table \<times> objects) res" where
  "dup_to oldfd newfd t os =
     (case get_fd_entry oldfd t of
        Inl err \<Rightarrow> Inr (Inl err, t, os)
      | Inr e \<Rightarrow>
          bind_res (notify_dup (object e) os) (\<lambda>os1.
          bind_res (set_fd newfd (from_object (object e) 0) t os1) (\<lambda>(t', os').
            Inr (Inr newfd, t', os'))))"


text \<open>The loop of \<^verbatim>\<open>sys_clone\<close> over the descriptors the child inherits.\<close>

fun dup_fds :: "fd_table \<Rightarrow> objects \<Rightarrow> objects res" where
  "dup_fds [] os = Inr os"
| "dup_fds (None # t) os = dup_fds t os"
| "dup_fds (Some e # t) os = bind_res (notify_dup (object e) os) (\<lambda>os1. dup_fds t os1)"

subsection \<open>Allocation\<close>

lemma position_None_iff: "position P xs = None \<longleftrightarrow> (\<forall>i<length xs. \<not> P (xs ! i))"
  by (auto simp: position_def find_None_iff)

lemma position_Some_iff:
  "position P xs = Some i \<longleftrightarrow> i < length xs \<and> P (xs ! i) \<and> (\<forall>j<i. \<not> P (xs ! j))"
  by (auto simp: position_def find_Some_iff nth_eq_iff_index_eq)

text \<open>
  Allocation returns the lowest free descriptor. It changes no other slot, the new descriptor
  refers to the given object with the given flags, and a table of at most 64 slots stays one; it fails,
  with \<open>TooManyOpenFiles\<close>, exactly when every slot is taken and there are at least 64.
\<close>

theorem alloc_fd_lowest:
  "(case alloc_fd_with_flags obj flags t of
      Inl err \<Rightarrow> err = TooManyOpenFiles \<and> (\<forall>i<length t. t ! i \<noteq> None) \<and> MAX_FDS \<le> length t
    | Inr (fd, t') \<Rightarrow>
        get_fd fd t = Inl BadFd \<and> (\<forall>j<fd. \<exists>o'. get_fd j t = Inr o')
      \<and> get_fd fd t' = Inr obj \<and> get_fd_flags fd t' = Inr flags
      \<and> (\<forall>j. j \<noteq> fd \<longrightarrow> get_fd_entry j t' = get_fd_entry j t)
      \<and> (length t \<le> MAX_FDS \<longrightarrow> fd < MAX_FDS \<and> length t' \<le> MAX_FDS))"
proof (cases "position (\<lambda>slot. slot = None) t")
  case None
  then have "\<forall>i<length t. \<exists>e. t ! i = Some e" by (simp add: position_None_iff)
  then show ?thesis
    by (auto simp: alloc_fd_with_flags_def None get_fd_def get_fd_flags_def get_fd_entry_def from_object_def
        nth_append)
next
  case (Some i)
  then have "i < length t" "t ! i = None" "\<forall>j<i. \<exists>e. t ! j = Some e" by (simp_all add: position_Some_iff)
  then show ?thesis
    by (auto simp: alloc_fd_with_flags_def Some get_fd_def get_fd_flags_def get_fd_entry_def from_object_def)
qed

lemma alloc_fd_lowest_witness:
  "case alloc_fd_with_flags (Port 0) 1 [None] of
     Inl err \<Rightarrow> False
   | Inr (fd, t') \<Rightarrow> get_fd fd t' = Inr (Port 0) \<and> fd < MAX_FDS \<and> length t' \<le> MAX_FDS"
  using alloc_fd_lowest [where obj = "Port 0" and flags = 1 and t = "[None]"] by (auto simp: MAX_FDS_def split: sum.splits)

subsection \<open>Reference counts\<close>

definition writes_to :: "objects \<Rightarrow> nat \<Rightarrow> FdObject \<Rightarrow> bool" where
  "writes_to os p obj = (case obj of File h \<Rightarrow> handles os h = PipeWriter p | _ \<Rightarrow> False)"

text \<open>
  The counts agree with the references \<open>R\<close>: every channel end and every pipe writer counts the
  references to it and is closed when there are none; interrupt handles have a slot.
\<close>

definition counts_ok :: "objects \<Rightarrow> FdObject multiset \<Rightarrow> bool" where
  "counts_ok os R \<longleftrightarrow>
     (\<forall>c. send_count (channels os c) = count R (Channel (Send c))
        \<and> (send_closed (channels os c) \<longleftrightarrow> Channel (Send c) \<notin># R))
   \<and> (\<forall>c. recv_count (channels os c) = count R (Channel (Recv c))
        \<and> (recv_closed (channels os c) \<longleftrightarrow> Channel (Recv c) \<notin># R))
   \<and> (\<forall>p. writer_count (pipes os p) = size (filter_mset (writes_to os p) R)
        \<and> (write_closed (pipes os p) \<longleftrightarrow> writer_count (pipes os p) = 0))
   \<and> (\<forall>i. slot (irqs (irq_sys os) i) < length (irq_slots (irq_sys os)))"

lemma counts_okD:
  assumes "counts_ok os R"
  shows "send_count (channels os c) = count R (Channel (Send c))"
    "send_closed (channels os c) \<longleftrightarrow> Channel (Send c) \<notin># R"
    "recv_count (channels os c) = count R (Channel (Recv c))"
    "recv_closed (channels os c) \<longleftrightarrow> Channel (Recv c) \<notin># R"
    "writer_count (pipes os p) = size (filter_mset (writes_to os p) R)"
    "write_closed (pipes os p) \<longleftrightarrow> writer_count (pipes os p) = 0"
    "slot (irqs (irq_sys os) i) < length (irq_slots (irq_sys os))"
  using assms by (simp_all add: counts_ok_def)

lemma close_send_counts:
  assumes "0 < send_count c"
  shows "\<exists>a c' k'. close_send c k = Inr (a, c', k') \<and> send_count c' = send_count c - 1
    \<and> recv_count c' = recv_count c \<and> recv_closed c' = recv_closed c
    \<and> (send_closed c' \<longleftrightarrow> send_count c = 1 \<or> send_closed c)"
  using assms by (auto simp: close_send_def sub_u64_def Let_def split: option.splits)

lemma close_recv_counts:
  assumes "0 < recv_count c"
  shows "\<exists>a c' k'. close_recv c k = Inr (a, c', k') \<and> recv_count c' = recv_count c - 1
    \<and> send_count c' = send_count c \<and> send_closed c' = send_closed c
    \<and> (recv_closed c' \<longleftrightarrow> recv_count c = 1 \<or> recv_closed c)"
  using assms by (auto simp: close_recv_def sub_u64_def Let_def split: option.splits)

lemma pipe_close_counts:
  assumes "0 < writer_count p"
  shows "\<exists>w v p' k'. pipe_close_writer p k = Inr (w, v, p', k') \<and> writer_count p' = writer_count p - 1
    \<and> (write_closed p' \<longleftrightarrow> writer_count p = 1 \<or> write_closed p)"
  using assms by (auto simp: pipe_close_writer_def pipe_wake_reader_def sub_u64_def Let_def)

lemma writes_to_upd [simp]:
  "writes_to (os\<lparr>channels := cs\<rparr>) = writes_to os" "writes_to (os\<lparr>pipes := ps\<rparr>) = writes_to os"
  "writes_to (os\<lparr>kern := k\<rparr>) = writes_to os" "writes_to (os\<lparr>woken_tasks := w\<rparr>) = writes_to os"
  "writes_to (os\<lparr>irq_sys := s\<rparr>) = writes_to os" "writes_to (os\<lparr>irqs_released := l\<rparr>) = writes_to os"
  "writes_to (os\<lparr>obj_ports := q\<rparr>) = writes_to os"
  by (simp_all add: writes_to_def fun_eq_iff split: FdObject.splits)

text \<open>Closing a reference and adding one.\<close>

lemma close_counts_add:
  assumes ok: "counts_ok os (add_mset obj R)"
  shows "\<exists>r os'. close obj os = Inr (r, os') \<and> counts_ok os' R"
proof (cases obj)
  case (File h)
  show ?thesis
  proof (cases "handles os h")
    case (PipeWriter p)
    have w: "writes_to os q obj \<longleftrightarrow> q = p" for q using File PipeWriter by (auto simp: writes_to_def)
    then have n: "writer_count (pipes os p) = Suc (size (filter_mset (writes_to os p) R))"
      using counts_okD(5) [OF ok, of p] by simp
    then obtain x v p' k' where c: "pipe_close_writer (pipes os p) (kern os) = Inr (x, v, p', k')"
      "writer_count p' = size (filter_mset (writes_to os p) R)"
      "write_closed p' \<longleftrightarrow> writer_count p' = 0"
      using pipe_close_counts [of "pipes os p" "kern os"] counts_okD(6) [OF ok, of p] by fastforce
    then show ?thesis
      using ok w File PipeWriter unfolding counts_ok_def
      by (simp add: close_def handle_close_def)
  qed (use ok File in \<open>auto simp: close_def handle_close_def counts_ok_def writes_to_def\<close>)
next
  case (Irq i)
  then show ?thesis
    using ok counts_okD(7) [OF ok, of i]
    by (auto simp: close_def close_irq_def take_slot_def counts_ok_def writes_to_def)
next
  case (Channel e)
  have w: "\<not> writes_to os p obj" for p using Channel by (simp add: writes_to_def)
  show ?thesis
  proof (cases e)
    case (Send c)
    have "send_count (channels os c) = Suc (count R obj)" and "\<not> send_closed (channels os c)"
      using counts_okD(1,2) [OF ok, of c] Channel Send by auto
    then obtain a c' k' where "close_send (channels os c) (kern os) = Inr (a, c', k')"
      "send_count c' = count R obj" "recv_count c' = recv_count (channels os c)"
      "recv_closed c' = recv_closed (channels os c)" "send_closed c' \<longleftrightarrow> obj \<notin># R"
      using close_send_counts [of "channels os c" "kern os"] by (auto simp: not_in_iff)
    then show ?thesis
      using ok w Channel Send unfolding counts_ok_def by (simp add: close_def)
  next
    case (Recv c)
    have "recv_count (channels os c) = Suc (count R obj)" and "\<not> recv_closed (channels os c)"
      using counts_okD(3,4) [OF ok, of c] Channel Recv by auto
    then obtain a c' k' where "close_recv (channels os c) (kern os) = Inr (a, c', k')"
      "recv_count c' = count R obj" "send_count c' = send_count (channels os c)"
      "send_closed c' = send_closed (channels os c)" "recv_closed c' \<longleftrightarrow> obj \<notin># R"
      using close_recv_counts [of "channels os c" "kern os"] by (auto simp: not_in_iff)
    then show ?thesis
      using ok w Channel Recv unfolding counts_ok_def by (simp add: close_def)
  qed
qed (use ok in \<open>auto simp: close_def counts_ok_def writes_to_def\<close>)

lemma close_counts:
  assumes "counts_ok os R" and "obj \<in># R"
  shows "\<exists>r os'. close obj os = Inr (r, os') \<and> counts_ok os' (R - {#obj#})"
  using close_counts_add [of os obj "R - {#obj#}"] assms by simp

lemma dup_counts:
  assumes ok: "counts_ok os R" and obj: "obj \<in># R" and lim: "size R < 2 ^ 64 - 1"
  shows "\<exists>os'. notify_dup obj os = Inr os' \<and> counts_ok os' (add_mset obj R)"
proof (cases obj)
  case (File h)
  show ?thesis
  proof (cases "handles os h")
    case (PipeWriter p)
    have w: "writes_to os q obj \<longleftrightarrow> q = p" for q using File PipeWriter by (auto simp: writes_to_def)
    have le: "writer_count (pipes os p) \<le> size R"
      using counts_okD(5) [OF ok, of p] by (simp add: size_filter_mset_lesseq)
    have "obj \<in># filter_mset (writes_to os p) R" using w obj by auto
    then have "size (filter_mset (writes_to os p) R) \<noteq> 0"
      unfolding size_eq_0_iff_empty by auto
    then have "0 < writer_count (pipes os p)"
      using counts_okD(5) [OF ok, of p] by linarith
    then have "\<not> write_closed (pipes os p)" using counts_okD(6) [OF ok, of p] by simp
    moreover have "size (filter_mset (writes_to os p) R) < 2 ^ 64 - 1"
      using le lim counts_okD(5) [OF ok, of p] by linarith
    ultimately show ?thesis
      using ok le lim w File PipeWriter unfolding counts_ok_def
      by (auto simp: notify_dup_def handle_on_dup_def pipe_on_dup_def add_u64_def)
  qed (use ok File in \<open>auto simp: notify_dup_def handle_on_dup_def counts_ok_def writes_to_def\<close>)
next
  case (Channel e)
  have le: "count R obj \<le> size R" by (rule count_le_size)
  then show ?thesis
    using ok obj lim Channel unfolding counts_ok_def
    by (cases e) (auto simp: notify_dup_def dup_send_def dup_recv_def add_u64_def writes_to_def)
qed (use ok in \<open>auto simp: notify_dup_def counts_ok_def writes_to_def\<close>)

lemma close_objects_counts:
  "counts_ok os R \<Longrightarrow> mset objs \<subseteq># R \<Longrightarrow>
     \<exists>os'. close_objects objs os = Inr os' \<and> counts_ok os' (R - mset objs)"
proof (induction objs arbitrary: os R)
  case (Cons obj objs)
  have "obj \<in># R" using Cons.prems(2) by (simp add: insert_subset_eq_iff)
  from close_counts [OF Cons.prems(1) this] obtain r os1
    where c: "close obj os = Inr (r, os1)" "counts_ok os1 (R - {#obj#})" by auto
  have "mset objs \<subseteq># R - {#obj#}" using Cons.prems(2) by (simp add: insert_subset_eq_iff)
  from Cons.IH [OF c(2) this] show ?case using c(1) by simp
qed simp

subsection \<open>Descriptor operations keep the counts\<close>

fun table_refs :: "fd_table \<Rightarrow> FdObject multiset" where
  "table_refs [] = {#}"
| "table_refs (None # t) = table_refs t"
| "table_refs (Some e # t) = add_mset (object e) (table_refs t)"

lemma table_refs_append [simp]: "table_refs (t @ u) = table_refs t + table_refs u"
  by (induction t rule: table_refs.induct) auto

lemma table_refs_replicate_None [simp]: "table_refs (replicate n None) = {#}"
  by (induction n) auto

lemma table_refs_take_slot:
  "fd < length t \<Longrightarrow> t ! fd = Some e \<Longrightarrow> table_refs t = add_mset (object e) (table_refs (t[fd := None]))"
  by (induction t arbitrary: fd rule: table_refs.induct) (auto simp: nth_Cons split: nat.splits)

lemma table_refs_fill_slot:
  "fd < length t \<Longrightarrow> t ! fd = None \<Longrightarrow> table_refs (t[fd := Some e]) = add_mset (object e) (table_refs t)"
  by (induction t arbitrary: fd rule: table_refs.induct) (auto simp: nth_Cons split: nat.splits)

lemma close_fd_counts:
  assumes "counts_ok os (table_refs t + H)"
  shows "\<exists>r t' os'. close_fd fd t os = Inr (r, t', os') \<and> counts_ok os' (table_refs t' + H)"
proof (cases "fd < length t \<and> t ! fd \<noteq> None")
  case True
  then obtain e where e: "t ! fd = Some e" "fd < length t" by auto
  then show ?thesis
    using assms close_counts_add [of os "object e" "table_refs (t[fd := None]) + H"]
    by (auto simp: close_fd_def table_refs_take_slot)
qed (use assms in \<open>auto simp: close_fd_def split: option.splits\<close>)

lemma close_all_counts:
  "counts_ok os (table_refs t + H) \<Longrightarrow>
     \<exists>t' os'. close_all_fds t os = Inr (t', os') \<and> counts_ok os' H \<and> t' = replicate (length t) None"
proof (induction t arbitrary: os H)
  case (Cons s t)
  show ?case
  proof (cases s)
    case (Some e)
    then obtain r os1 where "close (object e) os = Inr (r, os1)" "counts_ok os1 (table_refs t + H)"
      using close_counts_add [of os "object e" "table_refs t + H"] Cons.prems by auto
    then show ?thesis using Cons.IH [of os1 H] Some by auto
  qed (use Cons in auto)
qed auto

lemma close_cloexec_counts:
  "counts_ok os (table_refs t + H) \<Longrightarrow>
     \<exists>t' os'. close_cloexec_fds t os = Inr (t', os') \<and> counts_ok os' (table_refs t' + H)
       \<and> t' = map (\<lambda>s. case s of None \<Rightarrow> None | Some e \<Rightarrow> if fd_flags e AND FD_CLOEXEC \<noteq> 0 then None else Some e) t"
proof (induction t arbitrary: os H)
  case (Cons s t)
  show ?case
  proof (cases s)
    case (Some e)
    show ?thesis
    proof (cases "fd_flags e AND FD_CLOEXEC = 0")
      case True
      then show ?thesis using Cons.IH [of os "add_mset (object e) H"] Cons.prems Some by auto
    next
      case False
      then obtain r os1 where "close (object e) os = Inr (r, os1)" "counts_ok os1 (table_refs t + H)"
        using close_counts_add [of os "object e" "table_refs t + H"] Cons.prems Some by auto
      then show ?thesis using Cons.IH [of os1 H] False Some by auto
    qed
  qed (use Cons in auto)
qed auto

lemma close_all_counts':
  assumes "counts_ok os (table_refs t + H)"
  shows "\<exists>t' os'. close_all_fds t os = Inr (t', os') \<and> counts_ok os' (table_refs t' + H)"
  using close_all_counts [OF assms] by auto

lemma close_cloexec_counts':
  assumes "counts_ok os (table_refs t + H)"
  shows "\<exists>t' os'. close_cloexec_fds t os = Inr (t', os') \<and> counts_ok os' (table_refs t' + H)"
  using close_cloexec_counts [OF assms] by blast

lemma set_fd_counts:
  assumes "counts_ok os (add_mset (object e) (table_refs t + H))"
  shows "\<exists>t' os'. set_fd fd e t os = Inr (t', os') \<and> counts_ok os' (table_refs t' + H)
    \<and> length t' = max (length t) (fd + 1) \<and> get_fd_entry fd t' = Inr e"
proof -
  let ?t = "t @ replicate (fd + 1 - length t) None"
  have fd: "fd < length ?t" and refs: "table_refs ?t = table_refs t" by simp_all
  show ?thesis
  proof (cases "?t ! fd")
    case None
    then show ?thesis
      using assms fd refs table_refs_fill_slot [OF fd None, of e] by (auto simp: set_fd_def get_fd_entry_def max_def)
  next
    case (Some old)
    have r: "table_refs (?t[fd := Some e]) = add_mset (object e) (table_refs (?t[fd := None]))"
      using table_refs_fill_slot [of fd "?t[fd := None]" e] fd by simp
    have "counts_ok os (add_mset (object old) (add_mset (object e) (table_refs (?t[fd := None]) + H)))"
      using assms refs table_refs_take_slot [OF fd Some] by (simp add: add_mset_commute)
    from close_counts_add [OF this] obtain x os1
      where "close (object old) os = Inr (x, os1)"
        "counts_ok os1 (add_mset (object e) (table_refs (?t[fd := None]) + H))" by auto
    then show ?thesis using Some r fd by (auto simp: set_fd_def get_fd_entry_def max_def simp del: list_update_append)
  qed
qed

lemma dup_to_counts:
  assumes "counts_ok os (table_refs t + H)" and "size (table_refs t + H) < 2 ^ 64 - 1"
  shows "\<exists>r t' os'. dup_to oldfd newfd t os = Inr (r, t', os') \<and> counts_ok os' (table_refs t' + H)"
proof (cases "get_fd_entry oldfd t")
  case (Inl err)
  then show ?thesis using assms by (simp add: dup_to_def)
next
  case (Inr e)
  then have "object e \<in># table_refs t"
    using table_refs_take_slot [of oldfd t e] by (auto simp: get_fd_entry_def split: if_splits option.splits)
  then obtain os1 where "notify_dup (object e) os = Inr os1" "counts_ok os1 (add_mset (object e) (table_refs t + H))"
    using dup_counts [OF assms(1) _ assms(2), of "object e"] by auto
  then show ?thesis
    using Inr set_fd_counts [of os1 "from_object (object e) 0" t H newfd] by (auto simp: dup_to_def from_object_def)
qed

lemma dup_fds_counts:
  "counts_ok os R \<Longrightarrow> table_refs t \<subseteq># R \<Longrightarrow> size R + length t < 2 ^ 64 \<Longrightarrow>
     \<exists>os'. dup_fds t os = Inr os' \<and> counts_ok os' (table_refs t + R)"
proof (induction t arbitrary: os R)
  case (Cons s t)
  show ?case
  proof (cases s)
    case (Some e)
    have "object e \<in># R" using Cons.prems(2) Some by (simp add: insert_subset_eq_iff)
    moreover have "size R < 2 ^ 64 - 1" using Cons.prems(3) by simp
    ultimately obtain os1 where d: "notify_dup (object e) os = Inr os1" "counts_ok os1 (add_mset (object e) R)"
      using dup_counts [OF Cons.prems(1)] by blast
    have "table_refs t \<subseteq># table_refs (s # t)" using Some by simp
    also have "\<dots> \<subseteq># add_mset (object e) R"
      using Cons.prems(2) by (rule subset_mset.order_trans) simp
    finally have "table_refs t \<subseteq># add_mset (object e) R" .
    then have "\<exists>os'. dup_fds t os1 = Inr os' \<and> counts_ok os' (table_refs t + add_mset (object e) R)"
      using Cons.IH [OF d(2)] Cons.prems(3) by simp
    then show ?thesis using d(1) Some by auto
  qed (use Cons in auto)
qed simp

subsection \<open>A system of tables\<close>

text \<open>
  The descriptor operations on the tables of a list of processes: closing, duplicating onto a
  number, closing at exec and at exit, inheriting a table at clone, and dropping undelivered objects.
\<close>

datatype fd_op =
    Fd_Close nat nat
  | Fd_Dup nat nat nat
  | Fd_CloseAll nat
  | Fd_CloseCloexec nat
  | Fd_Clone nat
  | Fd_Drop "FdObject list"

type_synonym fd_system = "fd_table list \<times> FdObject multiset \<times> objects"

text \<open>The references held by the tables and, in \<open>H\<close>, elsewhere: in messages under way.\<close>

definition system_refs :: "fd_table list \<Rightarrow> FdObject multiset \<Rightarrow> FdObject multiset" where
  "system_refs ts H = sum_list (map table_refs ts) + H"

definition fd_exec :: "fd_op \<Rightarrow> fd_system \<Rightarrow> fd_system res" where
  "fd_exec op s =
     (case s of (ts, H, os) \<Rightarrow>
      case op of
        Fd_Close i fd \<Rightarrow> bind_res (close_fd fd (ts ! i) os) (\<lambda>(_, t', os'). Inr (ts[i := t'], H, os'))
      | Fd_Dup i old new \<Rightarrow> bind_res (dup_to old new (ts ! i) os) (\<lambda>(_, t', os'). Inr (ts[i := t'], H, os'))
      | Fd_CloseAll i \<Rightarrow> bind_res (close_all_fds (ts ! i) os) (\<lambda>(t', os'). Inr (ts[i := t'], H, os'))
      | Fd_CloseCloexec i \<Rightarrow> bind_res (close_cloexec_fds (ts ! i) os) (\<lambda>(t', os'). Inr (ts[i := t'], H, os'))
      | Fd_Clone i \<Rightarrow> bind_res (dup_fds (ts ! i) os) (\<lambda>os'. Inr (ts @ [ts ! i], H, os'))
      | Fd_Drop objs \<Rightarrow> bind_res (close_objects objs os) (\<lambda>os'. Inr (ts, H - mset objs, os')))"

text \<open>An operation names an existing process, drops objects that are there, and the counters do not run out.\<close>

definition fd_op_ok :: "fd_op \<Rightarrow> fd_system \<Rightarrow> bool" where
  "fd_op_ok op s =
     (case s of (ts, H, os) \<Rightarrow>
      case op of
        Fd_Close i fd \<Rightarrow> i < length ts
      | Fd_Dup i old new \<Rightarrow> i < length ts \<and> size (system_refs ts H) < 2 ^ 64 - 1
      | Fd_CloseAll i \<Rightarrow> i < length ts
      | Fd_CloseCloexec i \<Rightarrow> i < length ts
      | Fd_Clone i \<Rightarrow> i < length ts \<and> size (system_refs ts H) + length (ts ! i) < 2 ^ 64
      | Fd_Drop objs \<Rightarrow> mset objs \<subseteq># H)"

lemma system_refs_split:
  "i < length ts \<Longrightarrow>
     \<exists>H'. system_refs ts H = table_refs (ts ! i) + H' \<and> (\<forall>t. system_refs (ts[i := t]) H = table_refs t + H')"
proof (induction ts arbitrary: i)
  case (Cons u ts)
  show ?case
  proof (cases i)
    case (Suc j)
    then obtain H' where "system_refs ts H = table_refs (ts ! j) + H'"
      "\<forall>t. system_refs (ts[j := t]) H = table_refs t + H'"
      using Cons.IH [of j] Cons.prems by auto
    then show ?thesis using Suc
      by (intro exI [of _ "table_refs u + H'"]) (auto simp: system_refs_def ac_simps)
  qed (auto simp: system_refs_def ac_simps intro: exI [of _ "system_refs ts H"])
qed simp

text \<open>An operation on one table that keeps its counts, whatever else holds references, keeps those of the system.\<close>

lemma table_step_counts:
  assumes "i < length ts" and "counts_ok os (system_refs ts H)"
    and "\<And>R. counts_ok os (table_refs (ts ! i) + R) \<Longrightarrow> table_refs (ts ! i) + R = system_refs ts H \<Longrightarrow>
           \<exists>x t' os'. f = Inr (x, t', os') \<and> counts_ok os' (table_refs t' + R)"
  shows "\<exists>x t' os'. f = Inr (x, t', os') \<and> counts_ok os' (system_refs (ts[i := t']) H)"
proof -
  obtain R where R: "system_refs ts H = table_refs (ts ! i) + R"
    and upd: "\<And>t. system_refs (ts[i := t]) H = table_refs t + R"
    using system_refs_split [OF assms(1), of H] by blast
  have "counts_ok os (table_refs (ts ! i) + R)" using assms(2) R by metis
  from assms(3) [OF this R [symmetric]] show ?thesis unfolding upd .
qed

lemma table_step_counts':
  assumes "i < length ts" and "counts_ok os (system_refs ts H)"
    and "\<And>R. counts_ok os (table_refs (ts ! i) + R) \<Longrightarrow>
           \<exists>t' os'. f = Inr (t', os') \<and> counts_ok os' (table_refs t' + R)"
  shows "\<exists>t' os'. f = Inr (t', os') \<and> counts_ok os' (system_refs (ts[i := t']) H)"
  using table_step_counts [OF assms(1,2), of "map_sum id (Pair ()) f"] assms(3) by (cases f) fastforce+

lemma fd_exec_counts:
  assumes "counts_ok os (system_refs ts H)" and "fd_op_ok op (ts, H, os)"
  shows "\<exists>ts' H' os'. fd_exec op (ts, H, os) = Inr (ts', H', os') \<and> counts_ok os' (system_refs ts' H')"
proof (cases op)
  case (Fd_Close i fd)
  then have "i < length ts" using assms(2) by (simp add: fd_op_ok_def)
  from table_step_counts [OF this assms(1) close_fd_counts] obtain x t' os'
    where "close_fd fd (ts ! i) os = Inr (x, t', os')" "counts_ok os' (system_refs (ts[i := t']) H)" by blast
  then show ?thesis using Fd_Close by (simp add: fd_exec_def)
next
  case (Fd_Dup i old new)
  then have i: "i < length ts" and n: "size (system_refs ts H) < 2 ^ 64 - 1"
    using assms(2) by (simp_all add: fd_op_ok_def)
  have "\<exists>x t' os'. dup_to old new (ts ! i) os = Inr (x, t', os') \<and> counts_ok os' (table_refs t' + R)"
    if "counts_ok os (table_refs (ts ! i) + R)" "table_refs (ts ! i) + R = system_refs ts H" for R
    by (rule dup_to_counts [OF that(1)]) (subst that(2), rule n)
  from table_step_counts [OF i assms(1) this] obtain x t' os'
    where "dup_to old new (ts ! i) os = Inr (x, t', os')" "counts_ok os' (system_refs (ts[i := t']) H)" by blast
  then show ?thesis using Fd_Dup by (simp add: fd_exec_def)
next
  case (Fd_CloseAll i)
  then have "i < length ts" using assms(2) by (simp add: fd_op_ok_def)
  from table_step_counts' [OF this assms(1) close_all_counts'] obtain t' os'
    where "close_all_fds (ts ! i) os = Inr (t', os')" "counts_ok os' (system_refs (ts[i := t']) H)" by blast
  then show ?thesis using Fd_CloseAll by (simp add: fd_exec_def)
next
  case (Fd_CloseCloexec i)
  then have "i < length ts" using assms(2) by (simp add: fd_op_ok_def)
  from table_step_counts' [OF this assms(1) close_cloexec_counts'] obtain t' os'
    where "close_cloexec_fds (ts ! i) os = Inr (t', os')" "counts_ok os' (system_refs (ts[i := t']) H)" by blast
  then show ?thesis using Fd_CloseCloexec by (simp add: fd_exec_def)
next
  case (Fd_Clone i)
  then have i: "i < length ts" "size (system_refs ts H) + length (ts ! i) < 2 ^ 64"
    using assms(2) by (auto simp: fd_op_ok_def)
  obtain R where "system_refs ts H = table_refs (ts ! i) + R" using system_refs_split [OF i(1)] by blast
  then have "table_refs (ts ! i) \<subseteq># system_refs ts H" by simp
  from dup_fds_counts [OF assms(1) this i(2)] obtain os'
    where "dup_fds (ts ! i) os = Inr os'" "counts_ok os' (table_refs (ts ! i) + system_refs ts H)" by blast
  moreover have "table_refs (ts ! i) + system_refs ts H = system_refs (ts @ [ts ! i]) H"
    by (simp add: system_refs_def)
  ultimately show ?thesis using Fd_Clone by (simp add: fd_exec_def)
next
  case (Fd_Drop objs)
  then have H: "mset objs \<subseteq># H" using assms(2) by (simp add: fd_op_ok_def)
  then have "system_refs ts H - mset objs = system_refs ts (H - mset objs)"
    by (simp only: system_refs_def subset_mset.diff_add_assoc [OF H])
  moreover have "mset objs \<subseteq># system_refs ts H"
    unfolding system_refs_def by (rule subset_mset.order_trans [OF H]) (rule mset_subset_eq_add_right)
  ultimately obtain os' where "close_objects objs os = Inr os'" "counts_ok os' (system_refs ts (H - mset objs))"
    using close_objects_counts [OF assms(1), of objs] by auto
  then show ?thesis using Fd_Drop by (simp add: fd_exec_def)
qed

fun fd_run :: "fd_op list \<Rightarrow> fd_system \<Rightarrow> fd_system res" where
  "fd_run [] s = Inr s"
| "fd_run (op # ops) s = bind_res (fd_exec op s) (\<lambda>s'. fd_run ops s')"

fun fd_run_ok :: "fd_op list \<Rightarrow> fd_system \<Rightarrow> bool" where
  "fd_run_ok [] s = True"
| "fd_run_ok (op # ops) s = (fd_op_ok op s \<and> (case fd_exec op s of Inl _ \<Rightarrow> True | Inr s' \<Rightarrow> fd_run_ok ops s'))"

text \<open>
  C20: Reference counts of kernel objects are exact. From a state in which they are, any sequence of
  closes, duplications, exec and exit closes, clones and dropped messages over any number of processes
  runs without a panic (no count underflows), and afterwards every channel end and pipe writer still
  counts the references to it, and is marked closed exactly when the last one is gone.
\<close>

theorem fd_counts_exact:
  assumes "counts_ok os (system_refs ts H)" and "fd_run_ok ops (ts, H, os)"
  shows "\<exists>ts' H' os'. fd_run ops (ts, H, os) = Inr (ts', H', os') \<and> counts_ok os' (system_refs ts' H')"
  using assms
proof (induction ops arbitrary: ts H os)
  case (Cons op ops)
  obtain ts1 H1 os1 where e: "fd_exec op (ts, H, os) = Inr (ts1, H1, os1)" "counts_ok os1 (system_refs ts1 H1)"
    using fd_exec_counts [OF Cons.prems(1), of op] Cons.prems(2) by auto
  then show ?case using Cons.IH [OF e(2)] Cons.prems(2) by simp
qed simp

text \<open>A process with a console and both ends of a pipe, handles 0, 1 and 2.\<close>

definition closed_channel :: ChannelInner where
  "closed_channel = (channel_new 1)\<lparr>send_count := 0, recv_count := 0, send_closed := True, recv_closed := True\<rparr>"

definition closed_pipe :: PipeInner where
  "closed_pipe = make_pipe\<lparr>writer_count := 0, write_closed := True\<rparr>"

definition pipe_objects :: "kernel \<Rightarrow> objects" where
  "pipe_objects k =
     \<lparr>handles = (\<lambda>_. ConsoleHandle True)(1 := PipeReader 0, 2 := PipeWriter 0),
      pipes = (\<lambda>_. closed_pipe)(0 := make_pipe), channels = (\<lambda>_. closed_channel),
      irq_sys = \<lparr>irq_slots = [None], irqs = (\<lambda>_. IrqInner_new 0 0 0 0), irq_counters = []\<rparr>,
      obj_ports = (\<lambda>_. CompletionPort_new), notifies = (\<lambda>_. NotifyInner_new),
      shmems = (\<lambda>_. \<lparr>sm_frames = [], sm_size = 0, owned = False\<rparr>), kern = k, woken_tasks = [], irqs_released = []\<rparr>"

definition pipe_table :: fd_table where
  "pipe_table = [Some (from_object (File 0) 0), Some (from_object (File 1) 0), Some (from_object (File 2) 0)]"


lemma pipe_objects_ok: "counts_ok (pipe_objects k) (system_refs [pipe_table] {#})"
  by (auto simp: counts_ok_def pipe_objects_def pipe_table_def system_refs_def from_object_def writes_to_def
      closed_channel_def closed_pipe_def make_pipe_def channel_new_def IrqInner_new_def)

lemma fd_counts_exact_witness:
  "\<exists>ts H os. fd_run [Fd_Clone 0, Fd_Close 1 2, Fd_CloseAll 0] ([pipe_table], {#}, pipe_objects boot_kernel) = Inr (ts, H, os)
     \<and> counts_ok os (system_refs ts H)"
proof -
  have "fd_run_ok [Fd_Clone 0, Fd_Close 1 2, Fd_CloseAll 0] ([pipe_table], {#}, pipe_objects boot_kernel)"
    by (auto simp: fd_op_ok_def fd_exec_def pipe_table_def pipe_objects_def from_object_def system_refs_def
        split: sum.splits prod.splits)
  from fd_counts_exact [OF pipe_objects_ok this] show ?thesis .
qed

subsection \<open>A peer that exits\<close>

text \<open>
  C21: The end of a peer reaches an armed port only through \<^verbatim>\<open>close\<close>. When the last send end of a channel
  whose receiver is armed on a completion port is closed by \<^verbatim>\<open>close_fd\<close> and the result is
  handled, the port gets a completion with \<open>- EPIPE\<close>. When the process that has it exits,
  \<^verbatim>\<open>close_all_fds\<close> drops the result: the registration is gone, the channel is closed, and no port gets
  anything.
\<close>

theorem exit_loses_peer_notification:
  assumes "send_count (channels os c) = 1" and "blocked_receiver (channels os c) = None"
    and "pending_port (channels os c) = Some pr" and "t = [Some (from_object (Channel (Send c)) fl)]"
  shows "\<exists>os1 os2 y. close_fd 0 t os = Inr (Inr (NotifyRecvPort pr), [None], os1)
       \<and> handle_close_result (NotifyRecvPort pr) os1 = Inr (y, os2)
       \<and> obj_ports os2 (recv_port pr) =
           fst (snd (post (simple_completion (recv_user_data pr) (- EPIPE) OP_IPC_RECV) (obj_ports os (recv_port pr)) (kern os)))
     \<and> (\<exists>os'. close_all_fds t os = Inr ([None], os') \<and> obj_ports os' = obj_ports os
       \<and> pending_port (channels os' c) = None \<and> send_closed (channels os' c))"
proof -
  let ?cs = "(channels os)(c := (channels os c)\<lparr>send_count := 0, send_closed := True, pending_port := None\<rparr>)"
  have c: "close (Channel (Send c)) os = Inr (NotifyRecvPort pr, os\<lparr>channels := ?cs\<rparr>)"
    using assms(1-3) by (simp add: close_def close_send_def sub_u64_def)
  obtain w p k where p: "post (simple_completion (recv_user_data pr) (- EPIPE) OP_IPC_RECV)
      (obj_ports os (recv_port pr)) (kern os) = (w, p, k)" by (metis prod_cases3)
  then show ?thesis
    using c assms(4)
    by (cases w) (auto simp: close_fd_def from_object_def handle_close_result_def notify_peer_closed_def post_at_def)
qed


lemma exit_loses_peer_notification_witness:
  "\<exists>os'. close_all_fds [Some (from_object (Channel (Send 0)) 0)]
      ((pipe_objects boot_kernel)\<lparr>channels :=
         (\<lambda>_. (channel_new 1)\<lparr>pending_port := Some \<lparr>recv_port = 0, recv_user_data = 7, recv_buf_dest = 0\<rparr>\<rparr>)\<rparr>)
      = Inr ([None], os') \<and> obj_ports os' = obj_ports (pipe_objects boot_kernel)"
  using exit_loses_peer_notification [of "(pipe_objects boot_kernel)\<lparr>channels :=
         (\<lambda>_. (channel_new 1)\<lparr>pending_port := Some \<lparr>recv_port = 0, recv_user_data = 7, recv_buf_dest = 0\<rparr>\<rparr>)\<rparr>" 0
      "\<lparr>recv_port = 0, recv_user_data = 7, recv_buf_dest = 0\<rparr>" "[Some (from_object (Channel (Send 0)) 0)]" 0]
  by (auto simp: channel_new_def)

end
