(* ===== verification/Console.thy ===== *)
theory Console
  imports Pipe
begin

text \<open>
  The console input buffer (\<^verbatim>\<open>libkernel/src/console.rs\<close>): the keyboard interrupt pushes bytes, the
  foreground process reads them. Each operation is the critical section under the console's lock;
  a woken async reader is reported by its waker. As for a pipe, a registered reader has nothing to
  read, and bytes come out in the order in which they were accepted.
\<close>

definition INPUT_BUF_CAP :: nat where
  [const_defs]: "INPUT_BUF_CAP = 256"

record ConsoleInner =
  in_buf :: "u8 list"
  con_reader :: "nat option"
  con_reader_pid :: "nat option"
  con_waker :: "nat option"
  foreground :: nat

definition CONSOLE_INPUT :: ConsoleInner where
  "CONSOLE_INPUT = \<lparr>in_buf = [], con_reader = None, con_reader_pid = None, con_waker = None, foreground = 0\<rparr>"

text \<open>Waking takes the registered thread and waker off the books.\<close>

definition con_wake :: "ConsoleInner \<Rightarrow> kernel \<Rightarrow> nat option \<times> ConsoleInner \<times> kernel" where
  "con_wake c k =
     (con_waker c, c\<lparr>con_reader := None, con_waker := None\<rparr>,
      case con_reader c of Some t \<Rightarrow> unblock t k | None \<Rightarrow> k)"

definition push_input :: "u8 \<Rightarrow> ConsoleInner \<Rightarrow> kernel \<Rightarrow> nat option \<times> ConsoleInner \<times> kernel" where
  "push_input byte c k =
     con_wake (if length (in_buf c) < INPUT_BUF_CAP then c\<lparr>in_buf := in_buf c @ [byte]\<rparr> else c) k"

text \<open>
  One round of the loop of \<^verbatim>\<open>read_input\<close>; \<open>has_signal\<close> is the answer of the process table for the
  reading process (\<open>False\<close> for the kernel's own reads).
\<close>

definition read_input :: "nat \<Rightarrow> nat \<Rightarrow> bool \<Rightarrow> ConsoleInner \<Rightarrow> kernel \<Rightarrow> (read_outcome \<times> ConsoleInner \<times> kernel) res" where
  "read_input pid len has_signal c k =
     (if in_buf c \<noteq> [] then
        let count = min len (length (in_buf c))
        in Inr (Read_Data (take count (in_buf c)), c\<lparr>in_buf := drop count (in_buf c)\<rparr>, k)
      else if has_signal then Inr (Read_Interrupted, c, k)
      else
        bind_res (wait_while (Some c) (\<lambda>t c. c\<lparr>con_reader := Some t, con_reader_pid := Some pid\<rparr>) k) (\<lambda>(g, k').
          Inr (Read_Wait, case g of Some c' \<Rightarrow> c' | None \<Rightarrow> c, k')))"

definition wake_blocked_reader :: "ConsoleInner \<Rightarrow> kernel \<Rightarrow> nat option \<times> ConsoleInner \<times> kernel" where
  "wake_blocked_reader c k = con_wake (c\<lparr>con_reader_pid := None\<rparr>) k"

definition poll_read_input :: "nat \<Rightarrow> nat \<Rightarrow> ConsoleInner \<Rightarrow> read_outcome \<times> ConsoleInner" where
  "poll_read_input wkr len c =
     (if in_buf c \<noteq> [] then
        let count = min len (length (in_buf c))
        in (Read_Data (take count (in_buf c)), c\<lparr>in_buf := drop count (in_buf c)\<rparr>)
      else (Read_Wait, c\<lparr>con_waker := Some wkr\<rparr>))"

definition flush_input :: "ConsoleInner \<Rightarrow> ConsoleInner" where
  "flush_input c = c\<lparr>in_buf := []\<rparr>"

definition set_foreground :: "nat \<Rightarrow> ConsoleInner \<Rightarrow> ConsoleInner" where
  "set_foreground pid c = flush_input (c\<lparr>foreground := pid\<rparr>)"

definition foreground_pid :: "ConsoleInner \<Rightarrow> nat" where
  "foreground_pid c = foreground c"

subsection \<open>Invariant\<close>

definition console_inv :: "ConsoleInner \<Rightarrow> bool" where
  "console_inv c \<longleftrightarrow>
     length (in_buf c) \<le> INPUT_BUF_CAP \<and> (con_reader c \<noteq> None \<or> con_waker c \<noteq> None \<longrightarrow> in_buf c = [])"

lemmas console_defs = push_input_def con_wake_def read_input_def wake_blocked_reader_def poll_read_input_def
  flush_input_def set_foreground_def wait_while_def

text \<open>No operation leaves a reader registered beside input it could take.\<close>

lemma console_inv_ops:
  assumes "console_inv c"
  shows "push_input b c k = (w, c1, k1) \<Longrightarrow> console_inv c1"
    and "read_input pid n sig c k = Inr (r, c1, k1) \<Longrightarrow> console_inv c1"
    and "wake_blocked_reader c k = (w, c1, k1) \<Longrightarrow> console_inv c1"
    and "poll_read_input wkr n c = (r, c1) \<Longrightarrow> console_inv c1"
    and "console_inv (set_foreground pid c)"
  using assms
  by (auto simp: console_inv_def console_defs INPUT_BUF_CAP_def Let_def split: if_splits prod.splits)

text \<open>A read takes a prefix of the input; a push appends unless the buffer is full.\<close>

lemma read_input_order:
  "read_input pid n sig c k = Inr (r, c1, k1) \<Longrightarrow> outcome_bytes r @ in_buf c1 = in_buf c"
  by (auto simp: read_input_def wait_while_def Let_def split: if_splits)

lemma push_input_order:
  "push_input b c k = (w, c1, k1) \<Longrightarrow>
     in_buf c1 = (if length (in_buf c) < INPUT_BUF_CAP then in_buf c @ [b] else in_buf c)
   \<and> con_reader c1 = None"
  by (auto simp: push_input_def con_wake_def)

end
