(* ===== verification/Process.thy ===== *)
theory Process
  imports Fd_Table Console Signal Vma Gap
begin

text \<open>
  Processes (\<^verbatim>\<open>libkernel/src/process.rs\<close>) and the system calls that end them and wait for them
  (\<^verbatim>\<open>osl/src/syscalls/process.rs\<close>, \<^verbatim>\<open>osl/src/signal.rs\<close>). The state of the system is the table of processes,
  the kernel objects with the scheduler, the console, and the address spaces given back so far.
  An operation that yields is the part up to the yield.
\<close>

subsection \<open>Processes\<close>

datatype ProcessState = Proc_Running | Zombie

record Process =
  pr_pid :: nat
  pr_state :: ProcessState
  pml4_phys :: nat
  pr_stack :: StackSlot
  pr_stack_top :: nat
  entry_point :: nat
  user_stack_top :: nat
  thread_idx :: "nat option"
  exit_code :: "int option"
  brk_base :: nat
  brk_current :: nat
  pr_vmas :: vma_map
  pr_fds :: fd_table
  cwd :: string
  parent_pid :: nat
  wait_thread :: "nat option"
  vfork_parent_thread :: "nat option"
  pml4_shared :: bool
  pr_signal :: SignalState
  signal_thread :: "nat option"

record ProcessManager =
  proc_table :: "(nat, Process) btree"
  next_pid :: nat

record system =
  procs :: ProcessManager
  objs :: objects
  console :: ConsoleInner
  display_owner :: nat
  kernel_pml4 :: nat
  freed_spaces :: "nat list"

definition running_pid :: "system \<Rightarrow> nat" where
  "running_pid st = current_pid (cpu (kern (objs st)))"

abbreviation map_kern :: "(kernel \<Rightarrow> kernel) \<Rightarrow> system \<Rightarrow> system" where
  "map_kern f st \<equiv> st\<lparr>objs := (objs st)\<lparr>kern := f (kern (objs st))\<rparr>\<rparr>"

definition alloc_pid :: "ProcessManager \<Rightarrow> nat \<times> ProcessManager" where
  "alloc_pid pm = (next_pid pm, pm\<lparr>next_pid := (next_pid pm + 1) mod 2 ^ 64\<rparr>)"

text \<open>A new process; \<open>h0\<close>, \<open>h1\<close>, \<open>h2\<close> are the handles of its three console descriptors.\<close>

definition Process_new ::
  "nat \<Rightarrow> nat \<Rightarrow> nat \<Rightarrow> nat \<Rightarrow> nat \<times> nat \<times> nat \<Rightarrow> system \<Rightarrow> (Process \<times> system) res" where
  "Process_new pml4 entry ustack brk hs st =
     (case alloc_pid (procs st) of (pid, pm) \<Rightarrow>
      case hs of (h0, h1, h2) \<Rightarrow>
      let k = kern (objs st) in
      bind_res (arena_alloc (arena k) (memory k)) (\<lambda>(slot, ar, m).
        case slot of
          None \<Rightarrow> Inl UnwrapNone
        | Some stack \<Rightarrow>
            (case default_fd_table h0 h1 h2 (handles (objs st)) of (t, handles') \<Rightarrow>
               Inr (\<lparr>pr_pid = pid, pr_state = Proc_Running, pml4_phys = pml4, pr_stack = stack,
                     pr_stack_top = slot_top stack, entry_point = entry, user_stack_top = ustack,
                     thread_idx = None, exit_code = None, brk_base = brk, brk_current = brk, pr_vmas = [],
                     pr_fds = t, cwd = ''/'', parent_pid = KERNEL_PID, wait_thread = None,
                     vfork_parent_thread = None, pml4_shared = False, pr_signal = SignalState_new,
                     signal_thread = None\<rparr>,
                    st\<lparr>procs := pm,
                       objs := (objs st)\<lparr>handles := handles', kern := k\<lparr>arena := ar, memory := m\<rparr>\<rparr>\<rparr>))))"



subsection \<open>The process table\<close>

definition proc_insert :: "Process \<Rightarrow> ProcessManager \<Rightarrow> nat \<times> ProcessManager" where
  "proc_insert p pm =
     (pr_pid p, pm\<lparr>proc_table := btree_insert (pr_pid p) (p\<lparr>pr_state := Proc_Running\<rparr>) (proc_table pm)\<rparr>)"

definition get_proc :: "nat \<Rightarrow> system \<Rightarrow> Process option" where
  "get_proc pid st = btree_get (proc_table (procs st)) pid"

definition upd_proc :: "nat \<Rightarrow> (Process \<Rightarrow> Process) \<Rightarrow> system \<Rightarrow> system" where
  "upd_proc pid f st = st\<lparr>procs := (procs st)\<lparr>proc_table := btree_update pid f (proc_table (procs st))\<rparr>\<rparr>"

text \<open>\<^verbatim>\<open>with_process\<close>: run \<open>f\<close> on the process, if there is one, and keep what it changes.\<close>

definition with_process :: "nat \<Rightarrow> (Process \<Rightarrow> 'r \<times> Process) \<Rightarrow> system \<Rightarrow> 'r option \<times> system" where
  "with_process pid f st =
     (case get_proc pid st of
        None \<Rightarrow> (None, st)
      | Some p \<Rightarrow> (case f p of (r, p') \<Rightarrow> (Some r, upd_proc pid (\<lambda>_. p') st)))"

definition with_process_ref :: "nat \<Rightarrow> (Process \<Rightarrow> 'r) \<Rightarrow> system \<Rightarrow> 'r option" where
  "with_process_ref pid f st = map_option f (get_proc pid st)"

definition is_zombie :: "nat \<Rightarrow> system \<Rightarrow> bool" where
  "is_zombie pid st = (case get_proc pid st of None \<Rightarrow> False | Some p \<Rightarrow> pr_state p = Zombie)"

definition mark_zombie :: "nat \<Rightarrow> int \<Rightarrow> system \<Rightarrow> system" where
  "mark_zombie pid code st = upd_proc pid (\<lambda>p. p\<lparr>pr_state := Zombie, exit_code := Some code\<rparr>) st"

text \<open>Removing a process drops its kernel stack, which goes back to the arena.\<close>

definition reap :: "nat \<Rightarrow> system \<Rightarrow> system" where
  "reap pid st =
     (case get_proc pid st of
        None \<Rightarrow> st
      | Some p \<Rightarrow>
          map_kern (\<lambda>k. k\<lparr>arena := drop_slot (pr_stack p) (arena k)\<rparr>)
            (st\<lparr>procs := (procs st)\<lparr>proc_table := btree_remove pid (proc_table (procs st))\<rparr>\<rparr>))"

definition reap_zombies :: "system \<Rightarrow> system" where
  "reap_zombies st =
     (let zombie_pids =
        map pr_pid
          (filter (\<lambda>p. case thread_idx p of None \<Rightarrow> True | Some idx \<Rightarrow> is_thread_dead idx (kern (objs st)))
            (filter (\<lambda>p. pr_state p = Zombie) (map snd (proc_table (procs st)))))
      in fold reap zombie_pids st)"

text \<open>The target is an \<^verbatim>\<open>i64\<close>, \<open>-1\<close> for any child; it is compared as a \<^verbatim>\<open>u64\<close>.\<close>

fun find_zombie_child_in :: "(nat, Process) btree \<Rightarrow> nat \<Rightarrow> int \<Rightarrow> (nat \<times> int) option" where
  "find_zombie_child_in [] parent tgt = None"
| "find_zombie_child_in ((_, p) # t) parent tgt =
     (if parent_pid p \<noteq> parent \<or> pr_state p \<noteq> Zombie then find_zombie_child_in t parent tgt
      else if tgt = -1 \<or> int (pr_pid p) = tgt mod 2 ^ 64
        then Some (pr_pid p, case exit_code p of None \<Rightarrow> 0 | Some code \<Rightarrow> code)
      else find_zombie_child_in t parent tgt)"

definition find_zombie_child :: "nat \<Rightarrow> int \<Rightarrow> system \<Rightarrow> (nat \<times> int) option" where
  "find_zombie_child parent tgt st = find_zombie_child_in (proc_table (procs st)) parent tgt"

definition has_children_in :: "(nat, Process) btree \<Rightarrow> nat \<Rightarrow> bool" where
  "has_children_in t parent = list_ex (\<lambda>(_, p). parent_pid p = parent) t"

definition has_children :: "nat \<Rightarrow> system \<Rightarrow> bool" where
  "has_children parent st = has_children_in (proc_table (procs st)) parent"

subsection \<open>Termination of a process\<close>

definition unblock_opt :: "nat option \<Rightarrow> system \<Rightarrow> system" where
  "unblock_opt t st = (case t of None \<Rightarrow> st | Some idx \<Rightarrow> map_kern (unblock idx) st)"

definition take_vfork_parent :: "nat \<Rightarrow> system \<Rightarrow> nat option \<times> system" where
  "take_vfork_parent pid st =
     (case with_process pid (\<lambda>p. (vfork_parent_thread p, p\<lparr>vfork_parent_thread := None\<rparr>)) st of
        (r, st') \<Rightarrow> (Option.bind r id, st'))"

definition close_process_fds :: "nat \<Rightarrow> system \<Rightarrow> system res" where
  "close_process_fds pid st =
     (case get_proc pid st of
        None \<Rightarrow> Inr st
      | Some p \<Rightarrow>
          bind_res (close_all_fds (pr_fds p) (objs st)) (\<lambda>(t, os).
            Inr (upd_proc pid (\<lambda>p. p\<lparr>pr_fds := t\<rparr>) (st\<lparr>objs := os\<rparr>))))"

text \<open>Giving back the address space, after switching to the kernel's.\<close>

definition free_process_space :: "nat \<Rightarrow> system \<Rightarrow> system res" where
  "free_process_space pid st =
     (case with_process pid (\<lambda>p. ((pml4_phys p, pml4_shared p), p\<lparr>pr_vmas := []\<rparr>)) st of
        (None, st1) \<Rightarrow> Inr st1
      | (Some (pml4, shared), st1) \<Rightarrow>
          if \<not> shared \<and> pml4 \<noteq> 0 then
            bind_res (set_current_cr3 (kernel_pml4 st1) (kern (objs st1))) (\<lambda>k.
              Inr (st1\<lparr>objs := (objs st1)\<lparr>kern := k\<lparr>cpu := (cpu k)\<lparr>cr3 := kernel_pml4 st1\<rparr>\<rparr>\<rparr>,
                       freed_spaces := freed_spaces st1 @ [pml4]\<rparr>))
          else Inr st1)"

text \<open>Telling the parent: the signal, and its thread in \<^verbatim>\<open>wait4\<close>, to which the quantum goes.\<close>

definition notify_parent :: "nat \<Rightarrow> system \<Rightarrow> system" where
  "notify_parent parent st =
     (let st1 = (if parent \<noteq> KERNEL_PID
                 then upd_proc parent (\<lambda>pp. pp\<lparr>pr_signal := queue SIGCHLD (pr_signal pp)\<rparr>) st else st)
      in case with_process parent (\<lambda>pp. (wait_thread pp, pp\<lparr>wait_thread := None\<rparr>)) st1 of
           (Some (Some idx), st2) \<Rightarrow> map_kern (\<lambda>k. set_donate_target idx (unblock idx k)) st2
         | (_, st2) \<Rightarrow> st2)"

definition terminate_process :: "nat \<Rightarrow> int \<Rightarrow> system \<Rightarrow> system res" where
  "terminate_process pid code st =
     (let st1 = (if display_owner st = pid then st\<lparr>display_owner := 0\<rparr> else st) in
      case take_vfork_parent pid st1 of (vfork, st2) \<Rightarrow>
      bind_res (close_process_fds pid (unblock_opt vfork st2)) (\<lambda>st3.
      bind_res (free_process_space pid st3) (\<lambda>st4.
        let st5 = mark_zombie pid code st4
        in Inr (case with_process_ref pid parent_pid st4 of
                  None \<Rightarrow> st5
                | Some parent \<Rightarrow> notify_parent parent st5))))"

subsection \<open>System calls\<close>

definition sys_getpid :: "system \<Rightarrow> int" where
  "sys_getpid st = int (running_pid st)"

definition has_pending_signal :: "nat \<Rightarrow> system \<Rightarrow> bool" where
  "has_pending_signal pid st =
     (case get_proc pid st of
        None \<Rightarrow> False
      | Some p \<Rightarrow> sig_pending (pr_signal p) AND NOT (sig_blocked (pr_signal p)) \<noteq> 0)"

text \<open>
  One round of the loop of \<^verbatim>\<open>sys_wait4\<close>, under the lock of the table. The status word goes to user
  memory when the pointer is valid. \<open>Wait_Blocked\<close> is the branch that yields; when the thread runs
  again it clears \<open>signal_thread\<close> and starts the next round.
\<close>

datatype wait_outcome = Wait_Return int | Wait_Blocked

definition sys_wait4_round :: "int \<Rightarrow> nat \<Rightarrow> memory \<Rightarrow> system \<Rightarrow> (wait_outcome \<times> memory \<times> system) res" where
  "sys_wait4_round tgt status_ptr m st =
     (let parent = running_pid st; t = proc_table (procs st) in
      case find_zombie_child_in t parent tgt of
        Some (child, code) \<Rightarrow>
          let m' = (if status_ptr \<noteq> 0 \<and> validate_user_buf status_ptr 4
                    then store_u32 status_ptr (unat (push_bit 8 (word_of_int code :: u32))) m else m);
              st1 = reap child st
          in Inr (Wait_Return (int child), m', st1\<lparr>console := set_foreground parent (console st1)\<rparr>)
      | None \<Rightarrow>
          if \<not> has_children_in t parent then Inr (Wait_Return (- ECHILD), m, st)
          else if has_pending_signal parent st then Inr (Wait_Return (- EINTR), m, st)
          else
            bind_res (wait_while (Some st) (\<lambda>idx. upd_proc parent (\<lambda>p. p\<lparr>wait_thread := Some idx, signal_thread := Some idx\<rparr>))
                       (kern (objs st))) (\<lambda>(g, k).
              Inr (Wait_Blocked, m, (case g of Some st' \<Rightarrow> st' | None \<Rightarrow> st)\<lparr>objs := (objs st)\<lparr>kern := k\<rparr>\<rparr>)))"

definition wait4_wake :: "nat \<Rightarrow> system \<Rightarrow> system" where
  "wait4_wake parent st = upd_proc parent (\<lambda>p. p\<lparr>signal_thread := None\<rparr>) st"

definition sys_kill :: "nat \<Rightarrow> u64 \<Rightarrow> system \<Rightarrow> int \<times> system" where
  "sys_kill pid_arg sig_arg st =
     (let sig = (ucast sig_arg :: u8) in
      if sig < 1 \<or> unat sig > NUM_SIGNALS then (- EINVAL, st)
      else
        (case with_process pid_arg (\<lambda>p. (signal_thread p, p\<lparr>pr_signal := queue sig (pr_signal p)\<rparr>)) st of
           (None, st') \<Rightarrow> (- ESRCH, st')
         | (Some t, st') \<Rightarrow> (0, unblock_opt t st')))"

subsection \<open>The table\<close>

definition table_ok :: "system \<Rightarrow> bool" where
  "table_ok st \<longleftrightarrow> btree_ok (proc_table (procs st)) \<and> (\<forall>pid p. get_proc pid st = Some p \<longrightarrow> pr_pid p = pid)"

lemma get_proc_upd [simp]:
  "get_proc pid' (upd_proc pid f st) = (if pid' = pid then map_option f (get_proc pid st) else get_proc pid' st)"
  by (simp add: get_proc_def upd_proc_def)

lemma get_proc_frame [simp]:
  "get_proc pid (st\<lparr>objs := os\<rparr>) = get_proc pid st" "get_proc pid (st\<lparr>console := c\<rparr>) = get_proc pid st"
  "get_proc pid (st\<lparr>freed_spaces := l\<rparr>) = get_proc pid st" "get_proc pid (st\<lparr>display_owner := d\<rparr>) = get_proc pid st"
  by (simp_all add: get_proc_def)

lemma upd_proc_frame [simp]:
  "objs (upd_proc pid f st) = objs st" "console (upd_proc pid f st) = console st"
  "kernel_pml4 (upd_proc pid f st) = kernel_pml4 st" "freed_spaces (upd_proc pid f st) = freed_spaces st"
  by (simp_all add: upd_proc_def)

lemma get_proc_reap [simp]: "get_proc pid' (reap pid st) = (if pid' = pid then None else get_proc pid' st)"
  by (auto simp: reap_def get_proc_def split: option.splits)

lemma get_proc_mark_zombie [simp]:
  "get_proc pid' (mark_zombie pid code st) =
     (if pid' = pid then map_option (\<lambda>p. p\<lparr>pr_state := Zombie, exit_code := Some code\<rparr>) (get_proc pid st)
      else get_proc pid' st)"
  by (simp add: mark_zombie_def)

lemma table_ok_upd:
  assumes "table_ok st" and "\<And>p. get_proc pid st = Some p \<Longrightarrow> pr_pid (f p) = pr_pid p"
  shows "table_ok (upd_proc pid f st)"
proof -
  have "btree_ok (proc_table (procs (upd_proc pid f st)))"
    using assms(1) by (simp add: table_ok_def upd_proc_def)
  then show ?thesis using assms by (auto simp: table_ok_def split: if_splits)
qed

lemma table_ok_frame [simp]:
  "table_ok (st\<lparr>objs := os\<rparr>) = table_ok st" "table_ok (st\<lparr>console := c\<rparr>) = table_ok st"
  "table_ok (st\<lparr>freed_spaces := l\<rparr>) = table_ok st" "table_ok (st\<lparr>display_owner := d\<rparr>) = table_ok st"
  by (simp_all add: table_ok_def)

text \<open>What the search for a zombie finds.\<close>

definition zombie_child :: "nat \<Rightarrow> int \<Rightarrow> Process \<Rightarrow> bool" where
  "zombie_child parent tgt p \<longleftrightarrow>
     parent_pid p = parent \<and> pr_state p = Zombie \<and> (tgt = -1 \<or> int (pr_pid p) = tgt mod 2 ^ 64)"

lemma find_zombie_None:
  "find_zombie_child_in t parent tgt = None \<longleftrightarrow> (\<forall>(pid, p)\<in>set t. \<not> zombie_child parent tgt p)"
  by (induction t parent tgt rule: find_zombie_child_in.induct) (auto simp: zombie_child_def)

lemma find_zombie_Some:
  "find_zombie_child_in t parent tgt = Some (pid, code) \<Longrightarrow>
     \<exists>k p. (k, p) \<in> set t \<and> zombie_child parent tgt p \<and> pr_pid p = pid
         \<and> code = (case exit_code p of None \<Rightarrow> 0 | Some c \<Rightarrow> c)"
  by (induction t parent tgt rule: find_zombie_child_in.induct) (auto simp: zombie_child_def split: if_splits)

lemma find_zombie_by_pid:
  assumes "table_ok st" and "get_proc pid st = Some p" and "parent_pid p = parent" and "pr_state p = Zombie"
    and "exit_code p = Some code" and "pid < 2 ^ 64"
  shows "find_zombie_child_in (proc_table (procs st)) parent (int pid) = Some (pid, code)"
proof -
  let ?t = "proc_table (procs st)"
  have ok: "btree_ok ?t" and key: "\<And>k q. (k, q) \<in> set ?t \<Longrightarrow> pr_pid q = k"
    using assms(1) by (auto simp: table_ok_def get_proc_def btree_get_iff)
  have mem: "(pid, p) \<in> set ?t" using assms(2) ok by (simp add: get_proc_def btree_get_iff)
  have small: "int pid mod 2 ^ 64 = int pid" using assms(6) by simp
  then have "zombie_child parent (int pid) p" using assms(3,4) key [OF mem] by (simp add: zombie_child_def)
  then obtain c d where f: "find_zombie_child_in ?t parent (int pid) = Some (c, d)"
    using mem find_zombie_None [of ?t parent "int pid"] by (cases "find_zombie_child_in ?t parent (int pid)") auto
  then obtain k q where q: "(k, q) \<in> set ?t" "zombie_child parent (int pid) q" "pr_pid q = c"
    "d = (case exit_code q of None \<Rightarrow> 0 | Some c \<Rightarrow> c)"
    using find_zombie_Some by blast
  then have "k = pid" using small key [OF q(1)] by (simp add: zombie_child_def)
  then have "q = p" using q(1) mem ok btree_get_iff [of ?t pid] by (metis option.inject)
  then show ?thesis using f q key [OF mem] assms(5) by simp
qed

subsection \<open>The end of a process\<close>

text \<open>Waking threads and closing objects leave the thread list and the running thread in place.\<close>

definition sched_frame :: "kernel \<Rightarrow> nat \<times> nat \<times> bool" where
  "sched_frame k = (length (threads (sched k)), current_idx (sched k), initialized (sched k))"

lemma sched_frame_unblock [simp]: "sched_frame (unblock i k) = sched_frame k"
  by (simp add: sched_frame_def unblock_def Let_def)

lemma close_parts_frame:
  "close_send c k = Inr (a, c', k') \<Longrightarrow> sched_frame k' = sched_frame k"
  "close_recv c k = Inr (a', c', k') \<Longrightarrow> sched_frame k' = sched_frame k"
  "pipe_close_writer q k = Inr (w, v, q', k') \<Longrightarrow> sched_frame k' = sched_frame k"
  by (auto simp: close_send_def close_recv_def pipe_close_writer_def pipe_wake_reader_def Let_def
      split: option.splits if_splits)

lemma close_frame:
  assumes "close obj os = Inr (r, os')"
  shows "sched_frame (kern os') = sched_frame (kern os)"
proof (cases obj)
  case (File h)
  then show ?thesis
    using assms by (cases "handles os h") (auto simp: close_def handle_close_def close_parts_frame)
next
  case (Channel e)
  then show ?thesis using assms by (cases e) (auto simp: close_def close_parts_frame)
qed (use assms in \<open>auto simp: close_def\<close>)

lemma close_all_frame: "close_all_fds t os = Inr (t', os') \<Longrightarrow> sched_frame (kern os') = sched_frame (kern os)"
proof (induction t arbitrary: os t')
  case (Cons s t)
  then show ?case by (cases s) (auto dest!: close_frame)
qed simp

lemma set_current_cr3_ok:
  assumes "sched_frame k = (n, i, b)" and "i < n"
  shows "\<exists>k'. set_current_cr3 pml4 k = Inr k'"
  using assms by (auto simp: set_current_cr3_def sched_frame_def with_thread_def)

lemma counts_ok_kern [simp]: "counts_ok (os\<lparr>kern := k\<rparr>) R = counts_ok os R"
  by (simp add: counts_ok_def)

text \<open>What is left of the process, before the parent is told.\<close>

definition stripped :: "Process \<Rightarrow> Process" where
  "stripped p = p\<lparr>vfork_parent_thread := None, pr_fds := replicate (length (pr_fds p)) None, pr_vmas := []\<rparr>"

lemma free_process_space_result:
  assumes "table_ok st" and "get_proc pid st = Some p" and "sched_frame (kern (objs st)) = (n, i, b)" and "i < n"
    and "counts_ok (objs st) R"
  shows "\<exists>st'. free_process_space pid st = Inr st' \<and> table_ok st' \<and> counts_ok (objs st') R
    \<and> (\<forall>q. get_proc q st' = (if q = pid then Some (p\<lparr>pr_vmas := []\<rparr>) else get_proc q st))
    \<and> freed_spaces st' = freed_spaces st @ (if \<not> pml4_shared p \<and> pml4_phys p \<noteq> 0 then [pml4_phys p] else [])"
proof -
  obtain k where "set_current_cr3 (kernel_pml4 st) (kern (objs st)) = Inr k"
    using set_current_cr3_ok [OF assms(3,4)] by blast
  then show ?thesis
    using assms(1,2,5) by (auto simp: free_process_space_def with_process_def intro!: table_ok_upd)
qed

lemma close_process_fds_result:
  assumes "table_ok st" and "get_proc pid st = Some p" and "counts_ok (objs st) (table_refs (pr_fds p) + H)"
  shows "\<exists>st'. close_process_fds pid st = Inr st' \<and> table_ok st' \<and> counts_ok (objs st') H
    \<and> (\<forall>q. get_proc q st' = (if q = pid then Some (p\<lparr>pr_fds := replicate (length (pr_fds p)) None\<rparr>) else get_proc q st))
    \<and> sched_frame (kern (objs st')) = sched_frame (kern (objs st)) \<and> freed_spaces st' = freed_spaces st"
proof -
  obtain os where c: "close_all_fds (pr_fds p) (objs st) = Inr (replicate (length (pr_fds p)) None, os)" "counts_ok os H"
    using close_all_counts [OF assms(3)] by blast
  then show ?thesis
    using assms(1,2) close_all_frame [OF c(1)] by (auto simp: close_process_fds_def intro!: table_ok_upd)
qed

lemma terminate_process_result:
  assumes "table_ok st" and "get_proc pid st = Some p" and "counts_ok (objs st) (table_refs (pr_fds p) + H)"
    and "current_idx (sched (kern (objs st))) < length (threads (sched (kern (objs st))))"
  shows "\<exists>st'. terminate_process pid code st = Inr (notify_parent (parent_pid p) (mark_zombie pid code st'))
    \<and> table_ok st' \<and> counts_ok (objs st') H
    \<and> (\<forall>q. get_proc q st' = (if q = pid then Some (stripped p) else get_proc q st))
    \<and> freed_spaces st' = freed_spaces st @ (if \<not> pml4_shared p \<and> pml4_phys p \<noteq> 0 then [pml4_phys p] else [])"
proof -
  define st1 where "st1 = (if display_owner st = pid then st\<lparr>display_owner := 0\<rparr> else st)"
  define p2 where "p2 = p\<lparr>vfork_parent_thread := None\<rparr>"
  define st2 where "st2 = unblock_opt (vfork_parent_thread p) (upd_proc pid (\<lambda>_. p2) st1)"
  have g1: "get_proc q st1 = get_proc q st" "table_ok st1 = table_ok st" "objs st1 = objs st"
    "freed_spaces st1 = freed_spaces st" for q
    by (simp_all add: st1_def)
  have t2: "table_ok st2" using assms(1,2) g1 by (auto simp: st2_def unblock_opt_def p2_def intro!: table_ok_upd split: option.splits)
  have g2: "get_proc q st2 = (if q = pid then Some p2 else get_proc q st)" for q
    using assms(2) g1 by (auto simp: st2_def unblock_opt_def split: option.splits)
  have o2: "counts_ok (objs st2) (table_refs (pr_fds p2) + H)" "freed_spaces st2 = freed_spaces st"
    "sched_frame (kern (objs st2)) = sched_frame (kern (objs st))"
    using assms(3) g1 by (auto simp: st2_def unblock_opt_def p2_def split: option.splits)
  obtain st3 where s3: "close_process_fds pid st2 = Inr st3" "table_ok st3" "counts_ok (objs st3) H"
    "\<And>q. get_proc q st3 = (if q = pid then Some (p2\<lparr>pr_fds := replicate (length (pr_fds p2)) None\<rparr>) else get_proc q st2)"
    "sched_frame (kern (objs st3)) = sched_frame (kern (objs st2))" "freed_spaces st3 = freed_spaces st2"
    using close_process_fds_result [OF t2 _ o2(1), of pid] g2 by auto
  obtain n i b where fr: "sched_frame (kern (objs st3)) = (n, i, b)" "i < n"
    using assms(4) o2(3) s3(5) by (auto simp: sched_frame_def)
  obtain st4 where "free_process_space pid st3 = Inr st4" "table_ok st4" "counts_ok (objs st4) H"
    "\<forall>q. get_proc q st4 = (if q = pid then Some (stripped p) else get_proc q st)"
    "freed_spaces st4 = freed_spaces st @ (if \<not> pml4_shared p \<and> pml4_phys p \<noteq> 0 then [pml4_phys p] else [])"
    using free_process_space_result [OF s3(2) _ fr s3(3), of pid] s3(4,6) g2 o2(2)
    by (auto simp: stripped_def p2_def)
  moreover have "take_vfork_parent pid st1 = (vfork_parent_thread p, upd_proc pid (\<lambda>_. p2) st1)"
    using assms(2) g1 by (simp add: take_vfork_parent_def with_process_def p2_def)
  ultimately show ?thesis
    using s3(1) by (auto simp: terminate_process_def st1_def [symmetric] st2_def [symmetric] with_process_ref_def stripped_def)
qed

lemma not_asleep_unblock [simp]: "\<not> asleep (set_donate_target i (unblock t k)) t"
  by (auto simp: asleep_def unblock_def set_donate_target_def Let_def nth_list_update_if)

definition told :: "Process \<Rightarrow> Process" where
  "told pp = pp\<lparr>pr_signal := (if pr_pid pp = KERNEL_PID then pr_signal pp else queue SIGCHLD (pr_signal pp)), wait_thread := None\<rparr>"

lemma notify_parent_result:
  assumes "table_ok st" and "get_proc parent st = Some pp"
  shows "get_proc q (notify_parent parent st) = (if q = parent then Some (told pp) else get_proc q st)"
    and "table_ok (notify_parent parent st)" and "counts_ok (objs (notify_parent parent st)) R = counts_ok (objs st) R"
    and "wait_thread pp = Some t \<Longrightarrow> \<not> asleep (kern (objs (notify_parent parent st))) t
          \<and> donate_target (kern (objs (notify_parent parent st))) = t"
    and "freed_spaces (notify_parent parent st) = freed_spaces st"
proof -
  have pid: "pr_pid pp = parent" using assms by (simp add: table_ok_def)
  let ?f = "\<lambda>pp. pp\<lparr>pr_signal := queue SIGCHLD (pr_signal pp)\<rparr>"
  define st1 where "st1 = (if parent \<noteq> KERNEL_PID then upd_proc parent ?f st else st)"
  have g: "get_proc q st1 = (if q = parent then Some (if parent \<noteq> KERNEL_PID then ?f pp else pp) else get_proc q st)"
    "table_ok st1" "objs st1 = objs st" "freed_spaces st1 = freed_spaces st" for q
    using assms by (auto simp: st1_def intro!: table_ok_upd)
  have eq: "notify_parent parent st =
      (case wait_thread pp of
         Some idx \<Rightarrow> map_kern (\<lambda>k. set_donate_target idx (unblock idx k)) (upd_proc parent (\<lambda>_. told pp) st1)
       | None \<Rightarrow> upd_proc parent (\<lambda>_. told pp) st1)"
    using g(1) [of parent] pid
    by (auto simp: notify_parent_def st1_def [symmetric] with_process_def told_def split: option.splits)
  have ok: "table_ok (upd_proc parent (\<lambda>_. told pp) st1)"
    using g(1) [of parent] by (auto intro!: table_ok_upd [OF g(2)] simp: told_def)
  show "get_proc q (notify_parent parent st) = (if q = parent then Some (told pp) else get_proc q st)"
    using g(1) by (auto simp: eq split: option.splits)
  show "table_ok (notify_parent parent st)" using ok by (auto simp: eq split: option.splits)
  show "counts_ok (objs (notify_parent parent st)) R = counts_ok (objs st) R"
    using g(3) by (auto simp: eq split: option.splits)
  show "\<not> asleep (kern (objs (notify_parent parent st))) t \<and> donate_target (kern (objs (notify_parent parent st))) = t"
    if "wait_thread pp = Some t"
    using that by (simp add: eq) (simp add: set_donate_target_def)
  show "freed_spaces (notify_parent parent st) = freed_spaces st"
    using g(4) by (auto simp: eq split: option.splits)
qed

text \<open>
  C22: The exit of a child reaches its parent. When a process ends (its reference counts being exact),
  termination does not panic: all its descriptors are closed, its areas are gone, its address space is given
  back exactly when it owns one, and it is a zombie with its exit code. The
  parent's thread, if it waits, is awake and next in line, and \<open>SIGCHLD\<close> is queued. Whenever the parent
  then runs a round of \<^verbatim>\<open>wait4\<close> for this child, it returns the child's number, stores the
  status, and the child is gone.
\<close>

theorem exit_reaches_parent:
  assumes "table_ok st" and "get_proc child st = Some p" and "get_proc (parent_pid p) st = Some pp"
    and "parent_pid p \<noteq> child" and "child < 2 ^ 64"
    and "counts_ok (objs st) (table_refs (pr_fds p) + H)"
    and "current_idx (sched (kern (objs st))) < length (threads (sched (kern (objs st))))"
  shows "\<exists>st' p'. terminate_process child code st = Inr st' \<and> get_proc child st' = Some p'
     \<and> pr_state p' = Zombie \<and> exit_code p' = Some code \<and> table_refs (pr_fds p') = {#} \<and> pr_vmas p' = []
     \<and> counts_ok (objs st') H
     \<and> freed_spaces st' = freed_spaces st @ (if \<not> pml4_shared p \<and> pml4_phys p \<noteq> 0 then [pml4_phys p] else [])
     \<and> get_proc (parent_pid p) st' = Some (told pp)
     \<and> (\<forall>t. wait_thread pp = Some t \<longrightarrow> \<not> asleep (kern (objs st')) t \<and> donate_target (kern (objs st')) = t)
     \<and> (\<forall>k ptr m. current_pid (cpu k) = parent_pid p \<longrightarrow>
          (\<exists>m' st2. sys_wait4_round (int child) ptr m (st'\<lparr>objs := (objs st')\<lparr>kern := k\<rparr>\<rparr>) = Inr (Wait_Return (int child), m', st2)
             \<and> get_proc child st2 = None
             \<and> (ptr \<noteq> 0 \<and> validate_user_buf ptr 4 \<longrightarrow> m' = store_u32 ptr (unat (push_bit 8 (word_of_int code :: u32))) m)))"
proof -
  let ?par = "parent_pid p" and ?z = "(stripped p)\<lparr>pr_state := Zombie, exit_code := Some code\<rparr>"
  obtain st1 where t: "terminate_process child code st = Inr (notify_parent ?par (mark_zombie child code st1))"
    and ok1: "table_ok st1" "counts_ok (objs st1) H"
    and g1: "\<And>q. get_proc q st1 = (if q = child then Some (stripped p) else get_proc q st)"
    and f1: "freed_spaces st1 = freed_spaces st @ (if \<not> pml4_shared p \<and> pml4_phys p \<noteq> 0 then [pml4_phys p] else [])"
    using terminate_process_result [OF assms(1,2,6,7)] by blast
  let ?m = "mark_zombie child code st1"
  define st' where "st' = notify_parent ?par ?m"
  have okm: "table_ok ?m" using ok1(1) unfolding mark_zombie_def by (rule table_ok_upd) simp
  have gm: "get_proc ?par ?m = Some pp" "get_proc child ?m = Some ?z" using g1 assms(3,4) by simp_all
  note N = notify_parent_result [OF okm gm(1), folded st'_def]
  have z: "get_proc child st' = Some ?z" and ok': "table_ok st'" using N(1,2) gm(2) assms(4) by simp_all
  have "counts_ok (objs st') H" using N(3) ok1(2) by (simp add: mark_zombie_def)
  moreover have "freed_spaces st' = freed_spaces st1" using N(5) by (simp add: mark_zombie_def)
  moreover have "\<exists>m' st2. sys_wait4_round (int child) ptr m (st'\<lparr>objs := (objs st')\<lparr>kern := k\<rparr>\<rparr>)
        = Inr (Wait_Return (int child), m', st2) \<and> get_proc child st2 = None
      \<and> (ptr \<noteq> 0 \<and> validate_user_buf ptr 4 \<longrightarrow> m' = store_u32 ptr (unat (push_bit 8 (word_of_int code :: u32))) m)"
    if "current_pid (cpu k) = ?par" for k ptr m
    using find_zombie_by_pid [OF ok' z _ _ _ assms(5), of ?par code] that
    by (simp add: sys_wait4_round_def running_pid_def stripped_def Let_def)
  moreover have "get_proc ?par st' = Some (told pp)" using N(1) by simp
  ultimately show ?thesis
    using t z f1 N(4) unfolding st'_def [symmetric] by (auto simp: stripped_def)
qed

text \<open>A parent, 1, and its child, 2, which has a console and both ends of a pipe.\<close>

definition example_process :: "nat \<Rightarrow> nat \<Rightarrow> fd_table \<Rightarrow> nat option \<Rightarrow> Process" where
  "example_process pid parent t waiting =
     \<lparr>pr_pid = pid, pr_state = Proc_Running, pml4_phys = 0x5000 * pid, pr_stack = mk_slot pid, pr_stack_top = 0,
      entry_point = 0, user_stack_top = 0, thread_idx = None, exit_code = None, brk_base = 0, brk_current = 0,
      pr_vmas = [], pr_fds = t, cwd = ''/'', parent_pid = parent, wait_thread = waiting, vfork_parent_thread = None,
      pml4_shared = False, pr_signal = SignalState_new, signal_thread = waiting\<rparr>"

definition family :: system where
  "family =
     \<lparr>procs = \<lparr>proc_table = [(1, example_process 1 0 [] (Some 0)), (2, example_process 2 1 pipe_table None)], next_pid = 3\<rparr>,
      objs = pipe_objects one_thread, console = CONSOLE_INPUT, display_owner = 0, kernel_pml4 = 0x1000, freed_spaces = []\<rparr>"

lemma exit_reaches_parent_witness:
  "\<exists>st' p'. terminate_process 2 7 family = Inr st' \<and> get_proc 2 st' = Some p' \<and> pr_state p' = Zombie
     \<and> exit_code p' = Some 7 \<and> freed_spaces st' = [0xA000] \<and> \<not> asleep (kern (objs st')) 0"
proof -
  have g: "get_proc 2 family = Some (example_process 2 1 pipe_table None)"
    "get_proc (parent_pid (example_process 2 1 pipe_table None)) family = Some (example_process 1 0 [] (Some 0))"
    by (simp_all add: get_proc_def family_def btree_get_def example_process_def)
  have "table_ok family"
    by (auto simp: table_ok_def get_proc_def family_def btree_get_def example_process_def split: if_splits)
  moreover have "counts_ok (objs family) (table_refs (pr_fds (example_process 2 1 pipe_table None)) + {#})"
    using pipe_objects_ok [of one_thread] by (simp add: family_def example_process_def system_refs_def)
  moreover have "current_idx (sched (kern (objs family))) < length (threads (sched (kern (objs family))))"
    by (simp add: family_def pipe_objects_def one_thread_def scheduler_new_def)
  ultimately show ?thesis
    using exit_reaches_parent [OF _ g, of "{#}" 7] by (fastforce simp: example_process_def family_def)
qed

subsection \<open>Interrupted waiting\<close>

text \<open>
  C23: An interrupted \<^verbatim>\<open>wait4\<close> leaves its registration behind. When a waiting parent is woken by a signal,
  the next round returns \<open>- EINTR\<close> and clears \<open>signal_thread\<close>, but \<open>wait_thread\<close> still names the
  thread. Whatever that thread sleeps on later, the exit of any child wakes it as long as no other
  \<^verbatim>\<open>wait4\<close> has run.
\<close>

theorem interrupted_wait_stays_registered:
  assumes "running_pid st = parent" and "get_proc parent st = Some pp" and "wait_thread pp = Some t"
    and "find_zombie_child parent tgt st = None" and "has_children parent st" and "has_pending_signal parent st"
  shows "\<exists>pp'. sys_wait4_round tgt ptr m (wait4_wake parent st) = Inr (Wait_Return (- EINTR), m, wait4_wake parent st)
     \<and> get_proc parent (wait4_wake parent st) = Some pp' \<and> wait_thread pp' = Some t \<and> signal_thread pp' = None
     \<and> (\<forall>st2 pp2. table_ok st2 \<and> get_proc parent st2 = Some pp2 \<and> wait_thread pp2 = Some t \<longrightarrow>
          \<not> asleep (kern (objs (notify_parent parent st2))) t)"
proof -
  let ?f = "\<lambda>p. p\<lparr>signal_thread := None\<rparr>"
  have same: "find_zombie_child_in (btree_update parent ?f tb) q r = find_zombie_child_in tb q r"
    "has_children_in (btree_update parent ?f tb) q = has_children_in tb q" for tb q r
    by (induction tb) (auto simp: btree_update_def has_children_in_def)
  have "sys_wait4_round tgt ptr m (wait4_wake parent st) = Inr (Wait_Return (- EINTR), m, wait4_wake parent st)"
    using assms(1,2,4-6)
    by (simp add: sys_wait4_round_def wait4_wake_def running_pid_def find_zombie_child_def has_children_def
        has_pending_signal_def same upd_proc_def get_proc_def Let_def)
  then show ?thesis using assms(2,3) notify_parent_result(4) by (auto simp: wait4_wake_def)
qed

lemma interrupted_wait_stays_registered_witness:
  "let st = snd (sys_kill 1 2 (map_kern (\<lambda>k. k\<lparr>cpu := (cpu k)\<lparr>current_pid := 1\<rparr>\<rparr>) family))
   in \<exists>pp'. sys_wait4_round (-1) 0 (\<lambda>_. 0) (wait4_wake 1 st) = Inr (Wait_Return (- EINTR), \<lambda>_. 0, wait4_wake 1 st)
        \<and> get_proc 1 (wait4_wake 1 st) = Some pp' \<and> wait_thread pp' = Some 0"
proof -
  define st where "st = snd (sys_kill 1 2 (map_kern (\<lambda>k. k\<lparr>cpu := (cpu k)\<lparr>current_pid := 1\<rparr>\<rparr>) family))"
  define pp where "pp = (example_process 1 0 [] (Some 0))\<lparr>pr_signal := queue 2 SignalState_new\<rparr>"
  have st: "st = unblock_opt (Some 0) (upd_proc 1 (\<lambda>_. pp) (map_kern (\<lambda>k. k\<lparr>cpu := (cpu k)\<lparr>current_pid := 1\<rparr>\<rparr>) family))"
    by (simp add: st_def sys_kill_def with_process_def get_proc_def family_def btree_get_def NUM_SIGNALS_def
        example_process_def pp_def)
  have "running_pid st = 1" "get_proc 1 st = Some pp" "wait_thread pp = Some 0"
    "find_zombie_child 1 (-1) st = None" "has_children 1 st" "has_pending_signal 1 st"
    by (simp_all add: st unblock_opt_def running_pid_def unblock_def Let_def get_proc_def family_def btree_get_def
        pp_def example_process_def find_zombie_child_def upd_proc_def btree_update_def has_children_def
        has_children_in_def has_pending_signal_def queue_def NUM_SIGNALS_def SignalState_new_def set_bit_at_def)
  from interrupted_wait_stays_registered [OF this, of 0 "\<lambda>_. 0"] show ?thesis
    unfolding Let_def st_def [symmetric] by blast
qed

text \<open>Reaping removes exactly the zombies whose threads are dead.\<close>

lemma fold_reap: "get_proc q (fold reap pids st) = (if q \<in> set pids then None else get_proc q st)"
  by (induction pids arbitrary: st) auto

lemma reap_zombies_exact:
  assumes "table_ok st"
  shows "get_proc q (reap_zombies st) =
    (case get_proc q st of
       None \<Rightarrow> None
     | Some p \<Rightarrow> if pr_state p = Zombie \<and> (\<forall>i. thread_idx p = Some i \<longrightarrow> is_thread_dead i (kern (objs st)))
                 then None else Some p)"
proof -
  have key: "(k, p) \<in> set (proc_table (procs st)) \<longleftrightarrow> get_proc k st = Some p" for k p
    using assms by (simp add: table_ok_def get_proc_def btree_get_iff)
  have pid: "get_proc k st = Some p \<Longrightarrow> pr_pid p = k" for k p using assms by (simp add: table_ok_def)
  let ?dead = "\<lambda>p. case thread_idx p of None \<Rightarrow> True | Some idx \<Rightarrow> is_thread_dead idx (kern (objs st))"
  have "q \<in> pr_pid ` {p \<in> snd ` set (proc_table (procs st)). pr_state p = Zombie \<and> ?dead p} \<longleftrightarrow>
      (\<exists>p. get_proc q st = Some p \<and> pr_state p = Zombie \<and> ?dead p)"
  proof
    assume "q \<in> pr_pid ` {p \<in> snd ` set (proc_table (procs st)). pr_state p = Zombie \<and> ?dead p}"
    then obtain k p where "(k, p) \<in> set (proc_table (procs st))" "pr_pid p = q" "pr_state p = Zombie \<and> ?dead p"
      by auto
    then show "\<exists>p. get_proc q st = Some p \<and> pr_state p = Zombie \<and> ?dead p" using key pid by blast
  next
    assume "\<exists>p. get_proc q st = Some p \<and> pr_state p = Zombie \<and> ?dead p"
    then obtain p where "(q, p) \<in> set (proc_table (procs st))" "pr_pid p = q" "pr_state p = Zombie \<and> ?dead p"
      using key pid by blast
    then show "q \<in> pr_pid ` {p \<in> snd ` set (proc_table (procs st)). pr_state p = Zombie \<and> ?dead p}"
      by (intro image_eqI [of _ _ p]) force+
  qed
  then have "q \<in> set (map pr_pid (filter ?dead (filter (\<lambda>p. pr_state p = Zombie) (map snd (proc_table (procs st))))))
      \<longleftrightarrow> (\<exists>p. get_proc q st = Some p \<and> pr_state p = Zombie \<and> ?dead p)"
    by (simp add: conj_commute conj_left_commute)
  then show ?thesis
    unfolding reap_zombies_def Let_def fold_reap by (auto split: option.splits)
qed

end
