(* ===== verification/Fd_Syscalls.thy ===== *)
theory Fd_Syscalls
  imports Process Path
begin

text \<open>
  The system calls on descriptors: opening, closing, duplicating, pipes, reading and writing, the
  working directory (\<^verbatim>\<open>osl/src/syscalls/fs.rs\<close>, \<^verbatim>\<open>io.rs\<close>), notification objects (\<^verbatim>\<open>osl/src/notify.rs\<close>), shared
  memory objects and the service registry. User memory is an argument; the file systems behind
  the VFS are parameters. A call that yields is the part up to the yield, and the flag
  of its result says whether there is one. New objects get the numbers passed in.
\<close>

subsection \<open>Finding and allocating descriptors\<close>

definition current_fd :: "nat \<Rightarrow> system \<Rightarrow> (FileError + FdObject) option" where
  "current_fd fd st = with_process_ref (running_pid st) (\<lambda>p. get_fd fd (pr_fds p)) st"

definition get_fd_file :: "nat \<Rightarrow> system \<Rightarrow> int + nat" where
  "get_fd_file fd st =
     (case current_fd fd st of
        Some (Inr obj) \<Rightarrow> (case as_file obj of Some h \<Rightarrow> Inr h | None \<Rightarrow> Inl (- EBADF))
      | Some (Inl e) \<Rightarrow> Inl (file_errno e)
      | None \<Rightarrow> Inl (- EBADF))"

definition get_fd_port :: "nat \<Rightarrow> system \<Rightarrow> int + nat" where
  "get_fd_port fd st =
     (case current_fd fd st of
        Some (Inr obj) \<Rightarrow> (case as_port obj of Some p \<Rightarrow> Inr p | None \<Rightarrow> Inl (- EBADF))
      | _ \<Rightarrow> Inl (- EBADF))"

definition get_fd_irq :: "nat \<Rightarrow> system \<Rightarrow> int + nat" where
  "get_fd_irq fd st =
     (case current_fd fd st of
        Some (Inr obj) \<Rightarrow> (case as_irq obj of Some i \<Rightarrow> Inr i | None \<Rightarrow> Inl (- EBADF))
      | _ \<Rightarrow> Inl (- EBADF))"

definition get_fd_shmem :: "nat \<Rightarrow> system \<Rightarrow> int + nat" where
  "get_fd_shmem fd st =
     (case current_fd fd st of
        Some (Inr obj) \<Rightarrow> (case as_shmem obj of Some s \<Rightarrow> Inr s | None \<Rightarrow> Inl (- EBADF))
      | _ \<Rightarrow> Inl (- EBADF))"

definition get_fd_notify :: "nat \<Rightarrow> system \<Rightarrow> int + nat" where
  "get_fd_notify fd st =
     (case current_fd fd st of
        Some (Inr obj) \<Rightarrow> (case as_notify obj of Some n \<Rightarrow> Inr n | None \<Rightarrow> Inl (- EBADF))
      | _ \<Rightarrow> Inl (- EBADF))"

definition helper_alloc_fd_with_flags :: "FdObject \<Rightarrow> u32 \<Rightarrow> system \<Rightarrow> (int + nat) \<times> system" where
  "helper_alloc_fd_with_flags obj flags st =
     (let pid = running_pid st in
      case get_proc pid st of
        None \<Rightarrow> (Inl (- EBADF), st)
      | Some p \<Rightarrow>
          (case alloc_fd_with_flags obj flags (pr_fds p) of
             Inr (fd, t) \<Rightarrow> (Inr fd, upd_proc pid (\<lambda>p. p\<lparr>pr_fds := t\<rparr>) st)
           | Inl e \<Rightarrow> (Inl (file_errno e), st)))"

definition helper_alloc_fd :: "FdObject \<Rightarrow> system \<Rightarrow> (int + nat) \<times> system" where
  "helper_alloc_fd obj st = helper_alloc_fd_with_flags obj 0 st"

text \<open>The result of a call that returns a new descriptor.\<close>

definition fd_result :: "(int + nat) \<times> system \<Rightarrow> int \<times> system" where
  "fd_result r = (case r of (Inr fd, st) \<Rightarrow> (int fd, st) | (Inl e, st) \<Rightarrow> (e, st))"

subsection \<open>Closing, duplicating, flags\<close>

definition sys_close :: "nat \<Rightarrow> system \<Rightarrow> (bool \<times> int \<times> system) res" where
  "sys_close fd st =
     (let pid = running_pid st in
      case get_proc pid st of
        None \<Rightarrow> Inr (False, - EBADF, st)
      | Some p \<Rightarrow>
          bind_res (close_fd fd (pr_fds p) (objs st)) (\<lambda>(r, t, os).
            let st1 = upd_proc pid (\<lambda>p. p\<lparr>pr_fds := t\<rparr>) (st\<lparr>objs := os\<rparr>) in
            case r of
              Inr c \<Rightarrow> bind_res (handle_close_result c os) (\<lambda>(yields, os'). Inr (yields, 0, st1\<lparr>objs := os'\<rparr>))
            | Inl e \<Rightarrow> Inr (False, file_errno e, st1)))"

definition sys_dup2 :: "nat \<Rightarrow> nat \<Rightarrow> system \<Rightarrow> (int \<times> system) res" where
  "sys_dup2 oldfd newfd st =
     (let pid = running_pid st in
      if oldfd = newfd then
        Inr (case current_fd oldfd st of Some (Inr _) \<Rightarrow> int newfd | _ \<Rightarrow> - EBADF, st)
      else
        (case get_proc pid st of
           None \<Rightarrow> Inr (- EBADF, st)
         | Some p \<Rightarrow>
             bind_res (dup_to oldfd newfd (pr_fds p) (objs st)) (\<lambda>(r, t, os).
               Inr (case r of Inr fd \<Rightarrow> int fd | Inl e \<Rightarrow> file_errno e,
                    upd_proc pid (\<lambda>p. p\<lparr>pr_fds := t\<rparr>) (st\<lparr>objs := os\<rparr>)))))"

definition F_GETFD :: nat where [const_defs]: "F_GETFD = 1"
definition F_SETFD :: nat where [const_defs]: "F_SETFD = 2"
definition F_GETFL :: nat where [const_defs]: "F_GETFL = 3"

definition sys_fcntl :: "nat \<Rightarrow> nat \<Rightarrow> u64 \<Rightarrow> system \<Rightarrow> int \<times> system" where
  "sys_fcntl fd cmd arg st =
     (let pid = running_pid st in
      if cmd = F_GETFD then
        (case with_process_ref pid (\<lambda>p. get_fd_flags fd (pr_fds p)) st of
           Some (Inr flags) \<Rightarrow> (uint flags, st) | _ \<Rightarrow> (- EBADF, st))
      else if cmd = F_SETFD then
        (case get_proc pid st of
           Some p \<Rightarrow>
             (case set_fd_flags fd (ucast arg) (pr_fds p) of
                Inr t \<Rightarrow> (0, upd_proc pid (\<lambda>p. p\<lparr>pr_fds := t\<rparr>) st) | Inl _ \<Rightarrow> (- EBADF, st))
         | None \<Rightarrow> (- EBADF, st))
      else if cmd = F_GETFL then (0, st)
      else (- EINVAL, st))"

subsection \<open>Pipes\<close>

definition O_CLOEXEC :: u64 where [const_defs]: "O_CLOEXEC = 0x80000"

text \<open>
  A pipe \<open>n\<close> with handles \<open>hr\<close> and \<open>hw\<close>. When the second allocation fails, the first descriptor is
  closed again; the writer is dropped without being closed.
\<close>

definition sys_pipe2 :: "nat \<Rightarrow> u64 \<Rightarrow> nat \<times> nat \<times> nat \<Rightarrow> memory \<Rightarrow> system \<Rightarrow> (int \<times> memory \<times> system) res" where
  "sys_pipe2 fds_ptr flags new m st =
     (if \<not> validate_user_buf fds_ptr 8 then Inr (- EFAULT, m, st)
      else
        (case new of (n, hr, hw) \<Rightarrow>
         let os = (objs st)\<lparr>pipes := (pipes (objs st))(n := make_pipe),
                            handles := (handles (objs st))(hr := PipeReader n, hw := PipeWriter n)\<rparr>;
             fl = (if flags AND O_CLOEXEC \<noteq> 0 then FD_CLOEXEC else 0);
             pid = running_pid st; st0 = st\<lparr>objs := os\<rparr>
         in case get_proc pid st of
              None \<Rightarrow> Inr (- EBADF, m, st0)
            | Some p \<Rightarrow>
                (case alloc_fd_with_flags (File hr) fl (pr_fds p) of
                   Inl e \<Rightarrow> Inr (file_errno e, m, st0)
                 | Inr (rfd, t) \<Rightarrow>
                     (case alloc_fd_with_flags (File hw) fl t of
                        Inl e \<Rightarrow>
                          bind_res (close_fd rfd t os) (\<lambda>(_, t', os').
                            Inr (file_errno e, m, upd_proc pid (\<lambda>p. p\<lparr>pr_fds := t'\<rparr>) (st\<lparr>objs := os'\<rparr>)))
                      | Inr (wfd, t') \<Rightarrow>
                          Inr (0, store_u32 (fds_ptr + 4) (wfd mod 2 ^ 32) (store_u32 fds_ptr (rfd mod 2 ^ 32) m),
                               upd_proc pid (\<lambda>p. p\<lparr>pr_fds := t'\<rparr>) st0)))))"

subsection \<open>Reading and writing\<close>

datatype io_outcome = Io_Ok "u8 list" | Io_Err FileError | Io_Blocked

fun io_of_read :: "read_outcome \<Rightarrow> io_outcome" where
  "io_of_read (Read_Data bs) = Io_Ok bs"
| "io_of_read Read_Eof = Io_Ok []"
| "io_of_read Read_Interrupted = Io_Err Interrupted"
| "io_of_read Read_Wait = Io_Blocked"

definition set_signal_thread :: "nat option \<Rightarrow> system \<Rightarrow> system" where
  "set_signal_thread t st =
     (if running_pid st \<noteq> KERNEL_PID then upd_proc (running_pid st) (\<lambda>p. p\<lparr>signal_thread := t\<rparr>) st else st)"

text \<open>One round of \<^verbatim>\<open>FileHandle::read\<close> for each kind of handle.\<close>

definition handle_read :: "nat \<Rightarrow> nat \<Rightarrow> system \<Rightarrow> (io_outcome \<times> system) res" where
  "handle_read h len st =
     (let os = objs st; pid = running_pid st;
          sig = (pid \<noteq> KERNEL_PID \<and> has_pending_signal pid st) in
      case handles os h of
        ConsoleHandle readable \<Rightarrow>
          if \<not> readable then Inr (Io_Err BadFd, st)
          else
            bind_res (read_input pid len sig (console st) (kern os)) (\<lambda>(r, c, k).
              Inr (io_of_read r, st\<lparr>console := c, objs := os\<lparr>kern := k\<rparr>\<rparr>))
      | PipeReader n \<Rightarrow>
          let st1 = set_signal_thread (Some (current_thread_idx (kern os))) st in
          bind_res (pipe_read_round len sig (pipes os n) (kern os)) (\<lambda>(r, p, k).
            let st2 = st1\<lparr>objs := os\<lparr>pipes := (pipes os)(n := p), kern := k\<rparr>\<rparr>
            in Inr (io_of_read r, if r = Read_Wait then st2 else set_signal_thread None st2))
      | PipeWriter n \<Rightarrow> Inr (Io_Err BadFd, st)
      | VfsFile v \<Rightarrow>
          (case vfs_read len v of (bs, v') \<Rightarrow>
             Inr (Io_Ok bs, st\<lparr>objs := os\<lparr>handles := (handles os)(h := VfsFile v')\<rparr>\<rparr>))
      | Directory d \<Rightarrow> Inr (Io_Err IsDirectory, st))"

text \<open>What the console prints of bytes that are not UTF-8.\<close>

definition printable :: "u8 \<Rightarrow> bool" where
  "printable b \<longleftrightarrow> 0x20 \<le> b \<and> b < 0x7F \<or> b = 10 \<or> b = 13 \<or> b = 9"

text \<open>\<^verbatim>\<open>FileHandle::write\<close>: the result, what is printed, and whether the call yields to a woken reader.\<close>

definition handle_write ::
  "(u8 list \<Rightarrow> bool) \<Rightarrow> nat \<Rightarrow> u8 list \<Rightarrow> system \<Rightarrow> (FileError + nat) \<times> u8 list \<times> bool \<times> system" where
  "handle_write utf8 h buf st =
     (let os = objs st in
      case handles os h of
        ConsoleHandle _ \<Rightarrow> (Inr (length buf), if utf8 buf then buf else filter printable buf, False, st)
      | PipeReader n \<Rightarrow> (Inl BadFd, [], False, st)
      | PipeWriter n \<Rightarrow>
          (case pipe_write buf (pipes os n) (kern os) of (woken, wkr, p, k) \<Rightarrow>
             (Inr (length buf), [], woken \<noteq> None,
              st\<lparr>objs := os\<lparr>pipes := (pipes os)(n := p), kern := k, woken_tasks := woken_tasks os @ opt_list wkr\<rparr>\<rparr>))
      | VfsFile v \<Rightarrow> (Inl BadFd, [], False, st)
      | Directory d \<Rightarrow> (Inl BadFd, [], False, st))"

definition handle_getdents64 :: "nat \<Rightarrow> nat \<Rightarrow> system \<Rightarrow> (FileError + u8 list) \<times> system" where
  "handle_getdents64 h len st =
     (let os = objs st in
      case handles os h of
        Directory d \<Rightarrow>
          (case getdents64 len d of (bs, d') \<Rightarrow>
             (Inr bs, st\<lparr>objs := os\<lparr>handles := (handles os)(h := Directory d')\<rparr>\<rparr>))
      | _ \<Rightarrow> (Inl NotATty, st))"

definition sys_write ::
  "(u8 list \<Rightarrow> bool) \<Rightarrow> nat \<Rightarrow> nat \<Rightarrow> nat \<Rightarrow> memory \<Rightarrow> system \<Rightarrow> int \<times> u8 list \<times> bool \<times> system" where
  "sys_write utf8 fd buf cnt m st =
     (case user_slice buf cnt m of
        Inl e \<Rightarrow> (e, [], False, st)
      | Inr bytes \<Rightarrow>
          (case get_fd_file fd st of
             Inl e \<Rightarrow> (e, [], False, st)
           | Inr h \<Rightarrow>
               (case handle_write utf8 h bytes st of (r, out, yields, st') \<Rightarrow>
                  (case r of Inr n \<Rightarrow> int n | Inl e \<Rightarrow> file_errno e, out, yields, st'))))"

definition sys_read :: "nat \<Rightarrow> nat \<Rightarrow> nat \<Rightarrow> memory \<Rightarrow> system \<Rightarrow> (wait_outcome \<times> memory \<times> system) res" where
  "sys_read fd buf cnt m st =
     (if cnt = 0 then Inr (Wait_Return 0, m, st)
      else if \<not> validate_user_buf buf cnt then Inr (Wait_Return (- EFAULT), m, st)
      else
        (case get_fd_file fd st of
           Inl e \<Rightarrow> Inr (Wait_Return e, m, st)
         | Inr h \<Rightarrow>
             bind_res (handle_read h cnt st) (\<lambda>(r, st').
               Inr (case r of
                      Io_Ok bs \<Rightarrow> (Wait_Return (int (length bs)), store_bytes buf bs m, st')
                    | Io_Err e \<Rightarrow> (Wait_Return (file_errno e), m, st')
                    | Io_Blocked \<Rightarrow> (Wait_Blocked, m, st')))))"

definition sys_getdents64 :: "nat \<Rightarrow> nat \<Rightarrow> nat \<Rightarrow> memory \<Rightarrow> system \<Rightarrow> int \<times> memory \<times> system" where
  "sys_getdents64 fd buf cnt m st =
     (if \<not> validate_user_buf buf cnt then (- EFAULT, m, st)
      else
        (case get_fd_file fd st of
           Inl e \<Rightarrow> (e, m, st)
         | Inr h \<Rightarrow>
             (case handle_getdents64 h cnt st of
                (Inr bs, st') \<Rightarrow> (int (length bs), store_bytes buf bs m, st')
              | (Inl e, st') \<Rightarrow> (file_errno e, m, st'))))"

subsection \<open>Paths\<close>

datatype VfsError = IoError | NotFound | NotAFile | NotADirectory | FileTooLarge | NoFilesystem

fun vfs_errno :: "VfsError \<Rightarrow> int" where
  "vfs_errno NotFound = - ENOENT"
| "vfs_errno NotAFile = - EISDIR"
| "vfs_errno NotADirectory = - ENOTDIR"
| "vfs_errno _ = - EIO"

definition resolve_user_path :: "string \<Rightarrow> system \<Rightarrow> string" where
  "resolve_user_path path st =
     resolve (case with_process_ref (running_pid st) cwd st of Some c \<Rightarrow> c | None \<Rightarrow> ''/'') path"

definition O_DIRECTORY :: u64 where [const_defs]: "O_DIRECTORY = 0x10000"

text \<open>
  \<^verbatim>\<open>sys_open\<close>, with what the file system answers for the file and the directory of a path; the new
  handle is \<open>h\<close>.
\<close>

definition sys_open ::
  "(string \<Rightarrow> nat \<Rightarrow> VfsError + u8 list) \<Rightarrow> (string \<Rightarrow> VfsError + VfsDirEntry list) \<Rightarrow> (u8 list \<Rightarrow> bool)
   \<Rightarrow> nat \<Rightarrow> u64 \<Rightarrow> nat \<Rightarrow> memory \<Rightarrow> system \<Rightarrow> int \<times> system" where
  "sys_open read_file list_dir utf8 path_ptr flags h m st =
     (case read_user_string utf8 path_ptr 4096 m of
        Inl e \<Rightarrow> (e, st)
      | Inr path \<Rightarrow>
          let resolved = resolve_user_path (str_of path) st;
              open_handle = (\<lambda>x. fd_result (helper_alloc_fd (File h)
                (st\<lparr>objs := (objs st)\<lparr>handles := (handles (objs st))(h := x)\<rparr>\<rparr>)));
              try_dir = (case list_dir resolved of
                           Inr es \<Rightarrow> open_handle (Directory (DirHandle_new es))
                         | Inl e \<Rightarrow> (vfs_errno e, st))
          in if flags AND O_DIRECTORY \<noteq> 0 then try_dir
             else
               (case read_file resolved (running_pid st) of
                  Inr data \<Rightarrow> open_handle (VfsFile (VfsHandle_new data))
                | Inl NotFound \<Rightarrow> try_dir
                | Inl NotAFile \<Rightarrow> try_dir
                | Inl e \<Rightarrow> (vfs_errno e, st)))"

text \<open>\<^verbatim>\<open>sys_fstat\<close> writes 144 bytes at the given address, which it does not check.\<close>

definition sys_fstat :: "nat \<Rightarrow> memory \<Rightarrow> int \<times> memory" where
  "sys_fstat buf m = (0, store_u32 (buf + 24) 0x21B6 (write_bytes buf 144 0 m))"

definition sys_getcwd :: "nat \<Rightarrow> nat \<Rightarrow> memory \<Rightarrow> system \<Rightarrow> int \<times> memory" where
  "sys_getcwd buf sz m st =
     (if \<not> validate_user_buf buf sz then (- EFAULT, m)
      else
        (case with_process_ref (running_pid st) cwd st of
           None \<Rightarrow> (- EFAULT, m)
         | Some c \<Rightarrow>
             let bytes = bytes_of c; needed = length bytes + 1 in
             if needed > sz then (- ERANGE, m)
             else if \<not> validate_user_buf buf needed then (- EFAULT, m)
             else (int buf, store_bytes buf (bytes @ [0]) m)))"

definition sys_chdir ::
  "(string \<Rightarrow> VfsError + VfsDirEntry list) \<Rightarrow> (u8 list \<Rightarrow> bool) \<Rightarrow> nat \<Rightarrow> memory \<Rightarrow> system \<Rightarrow> int \<times> system" where
  "sys_chdir list_dir utf8 path_ptr m st =
     (case read_user_string utf8 path_ptr 4096 m of
        Inl e \<Rightarrow> (e, st)
      | Inr path \<Rightarrow>
          let resolved = resolve_user_path (str_of path) st in
          case list_dir resolved of
            Inr _ \<Rightarrow> (0, upd_proc (running_pid st) (\<lambda>p. p\<lparr>cwd := resolved\<rparr>) st)
          | Inl e \<Rightarrow> (vfs_errno e, st))"

subsection \<open>Notification objects, shared memory, services\<close>

definition NOTIFY_CLOEXEC :: u32 where [const_defs]: "NOTIFY_CLOEXEC = 1"
definition SHM_CLOEXEC :: u32 where [const_defs]: "SHM_CLOEXEC = 1"
definition MAX_SERVICE_NAME_LEN :: nat where [const_defs]: "MAX_SERVICE_NAME_LEN = 128"

definition sys_notify_create :: "u32 \<Rightarrow> nat \<Rightarrow> system \<Rightarrow> int \<times> system" where
  "sys_notify_create flags n st =
     (if flags AND NOT NOTIFY_CLOEXEC \<noteq> 0 then (- EINVAL, st)
      else
        let fl = (if flags AND NOTIFY_CLOEXEC \<noteq> 0 then FD_CLOEXEC else 0)
        in fd_result (helper_alloc_fd_with_flags (Notify n) fl
             (st\<lparr>objs := (objs st)\<lparr>notifies := (notifies (objs st))(n := NotifyInner_new)\<rparr>\<rparr>)))"

definition sys_notify :: "nat \<Rightarrow> system \<Rightarrow> bool \<times> int \<times> system" where
  "sys_notify fd st =
     (case get_fd_notify fd st of
        Inl e \<Rightarrow> (False, e, st)
      | Inr n \<Rightarrow>
          (case signal_notify (notifies (objs st) n) (obj_ports (objs st)) (kern (objs st)) of (woken, x, ps, k) \<Rightarrow>
             let st1 = st\<lparr>objs := (objs st)\<lparr>notifies := (notifies (objs st))(n := x), obj_ports := ps, kern := k\<rparr>\<rparr> in
             case woken of
               Some idx \<Rightarrow> (True, 0, map_kern (set_donate_target idx) st1)
             | None \<Rightarrow> (False, 0, st1)))"

text \<open>Shared memory; \<open>alloc_frames n\<close> is what the frame allocator gives for \<open>n\<close> zeroed pages.\<close>

definition SharedMemInner_new :: "(nat \<Rightarrow> nat list option) \<Rightarrow> nat \<Rightarrow> SharedMemInner option res" where
  "SharedMemInner_new alloc_frames sz =
     (if sz = 0 then Inr None
      else
        bind_res (add_u64 sz PAGE_SIZE) (\<lambda>s.
          let num_pages = (s - 1) div PAGE_SIZE
          in Inr (map_option (\<lambda>fs. \<lparr>sm_frames = fs, sm_size = sz, owned = True\<rparr>) (alloc_frames num_pages))))"

definition from_existing :: "nat list \<Rightarrow> nat \<Rightarrow> SharedMemInner" where
  "from_existing frames sz = \<lparr>sm_frames = frames, sm_size = sz, owned = False\<rparr>"

definition sys_shmem_create :: "(nat \<Rightarrow> nat list option) \<Rightarrow> nat \<Rightarrow> u32 \<Rightarrow> nat \<Rightarrow> system \<Rightarrow> (int \<times> system) res" where
  "sys_shmem_create alloc_frames sz flags s st =
     (if sz = 0 then Inr (- EINVAL, st)
      else if flags AND NOT SHM_CLOEXEC \<noteq> 0 then Inr (- EINVAL, st)
      else
        bind_res (SharedMemInner_new alloc_frames sz) (\<lambda>inner.
          case inner of
            None \<Rightarrow> Inr (- ENOMEM, st)
          | Some x \<Rightarrow>
              let fl = (if flags AND SHM_CLOEXEC \<noteq> 0 then FD_CLOEXEC else 0)
              in Inr (fd_result (helper_alloc_fd_with_flags (SharedMem s) fl
                   (st\<lparr>objs := (objs st)\<lparr>shmems := (shmems (objs st))(s := x)\<rparr>\<rparr>)))))"

type_synonym registry = "u8 list \<rightharpoonup> FdObject"

definition svc_register :: "u8 list \<Rightarrow> FdObject \<Rightarrow> registry \<Rightarrow> bool \<times> registry" where
  "svc_register name obj reg = (if reg name \<noteq> None then (False, reg) else (True, reg(name \<mapsto> obj)))"

definition svc_lookup :: "u8 list \<Rightarrow> registry \<Rightarrow> FdObject option" where
  "svc_lookup name reg = reg name"

definition sys_svc_register ::
  "(u8 list \<Rightarrow> bool) \<Rightarrow> nat \<Rightarrow> nat \<Rightarrow> memory \<Rightarrow> registry \<Rightarrow> system \<Rightarrow> (int \<times> registry \<times> system) res" where
  "sys_svc_register utf8 name_ptr fd m reg st =
     (case read_user_string utf8 name_ptr MAX_SERVICE_NAME_LEN m of
        Inl e \<Rightarrow> Inr (e, reg, st)
      | Inr name \<Rightarrow>
          if name = [] then Inr (- EINVAL, reg, st)
          else
            (case current_fd fd st of
               Some (Inr obj) \<Rightarrow>
                 bind_res (notify_dup obj (objs st)) (\<lambda>os.
                   case svc_register name obj reg of
                     (ok, reg') \<Rightarrow> Inr (if ok then 0 else - EBUSY, reg', st\<lparr>objs := os\<rparr>))
             | _ \<Rightarrow> Inr (- EBADF, reg, st)))"

definition sys_svc_lookup ::
  "(u8 list \<Rightarrow> bool) \<Rightarrow> nat \<Rightarrow> memory \<Rightarrow> registry \<Rightarrow> system \<Rightarrow> (int \<times> system) res" where
  "sys_svc_lookup utf8 name_ptr m reg st =
     (case read_user_string utf8 name_ptr MAX_SERVICE_NAME_LEN m of
        Inl e \<Rightarrow> Inr (e, st)
      | Inr name \<Rightarrow>
          if name = [] then Inr (- EINVAL, st)
          else
            (case svc_lookup name reg of
               None \<Rightarrow> Inr (- ENOENT, st)
             | Some obj \<Rightarrow>
                 bind_res (notify_dup obj (objs st)) (\<lambda>os.
                   Inr (fd_result (helper_alloc_fd obj (st\<lparr>objs := os\<rparr>))))))"

subsection \<open>A pipe from end to end\<close>

lemma alloc_fd_get:
  assumes "alloc_fd_with_flags obj fl t = Inr (fd, t')"
  shows "get_fd fd t' = Inr obj" "j \<noteq> fd \<Longrightarrow> get_fd j t' = get_fd j t" "get_fd fd t = Inl BadFd" "fd \<le> length t"
    "length t' \<le> Suc (length t)"
  using assms
  by (auto simp: alloc_fd_with_flags_def get_fd_def from_object_def position_Some_iff nth_append
      split: option.splits if_splits)

lemma load_store_u32:
  assumes "v < 2 ^ 32"
  shows "load_u32 a (store_u32 a v m) = v" "load_u32 a (store_u32 (a + 4) w (store_u32 a v m)) = v"
proof -
  have "load_bytes a 4 (store_bytes a (le_bytes 4 v) m) = le_bytes 4 v"
    using load_store_bytes_same [of a "le_bytes 4 v" m] by simp
  then show "load_u32 a (store_u32 a v m) = v" "load_u32 a (store_u32 (a + 4) w (store_u32 a v m)) = v"
    using assms by (simp_all add: load_u32_def store_u32_def load_store_bytes_disjoint of_le_bytes_le_bytes)
qed

lemma running_pid_frame [simp]:
  "running_pid (upd_proc pid f st) = running_pid st" "running_pid (st\<lparr>procs := q\<rparr>) = running_pid st"
  "running_pid (st\<lparr>objs := (objs st)\<lparr>kern := k\<rparr>\<rparr>) = current_pid (cpu k)"
  by (simp_all add: running_pid_def)

text \<open>
  C24: A pipe carries a message from end to end. After a successful \<^verbatim>\<open>pipe2\<close>, the two descriptors it stored
  in user memory are distinct; a \<^verbatim>\<open>write\<close> of a valid, non-empty user buffer to the second accepts all bytes and prints
  nothing, and the following \<^verbatim>\<open>read\<close> of as many bytes from the first returns them all and stores exactly them at
  the destination. Reading the write end or writing the read end fails with \<open>- EBADF\<close>.
\<close>

theorem pipe_end_to_end:
  assumes "sys_pipe2 ptr flags (n, hr, hw) m st = Inr (0, m1, st1)" and "hr \<noteq> hw"
    and "get_proc (running_pid st) st = Some p" and "length (pr_fds p) < 2 ^ 31"
    and "validate_user_buf src cnt" and "validate_user_buf dst cnt" and "0 < cnt"
  shows "let rfd = load_u32 ptr m1; wfd = load_u32 (ptr + 4) m1 in
      rfd \<noteq> wfd
    \<and> (\<exists>st2 st3. sys_write utf8 wfd src cnt m1 st1 = (int cnt, [], False, st2)
         \<and> sys_read rfd dst cnt m1 st2 = Inr (Wait_Return (int cnt), store_bytes dst (load_bytes src cnt m1) m1, st3))
    \<and> fst (sys_write utf8 rfd src cnt m1 st1) = - EBADF
    \<and> sys_read wfd dst cnt m1 st1 = Inr (Wait_Return (- EBADF), m1, st1)"
proof -
  let ?pid = "running_pid st"
  let ?os = "(objs st)\<lparr>pipes := (pipes (objs st))(n := make_pipe),
                       handles := (handles (objs st))(hr := PipeReader n, hw := PipeWriter n)\<rparr>"
  let ?fl = "if flags AND O_CLOEXEC \<noteq> 0 then FD_CLOEXEC else 0"
  have neg: "file_errno e \<noteq> 0" for e by (cases e) (simp_all add: const_defs)
  obtain a t b t' where A: "alloc_fd_with_flags (File hr) ?fl (pr_fds p) = Inr (a, t)"
    and B: "alloc_fd_with_flags (File hw) ?fl t = Inr (b, t')"
    and m1: "m1 = store_u32 (ptr + 4) (b mod 2 ^ 32) (store_u32 ptr (a mod 2 ^ 32) m)"
    and st1: "st1 = upd_proc ?pid (\<lambda>p. p\<lparr>pr_fds := t'\<rparr>) (st\<lparr>objs := ?os\<rparr>)"
    using assms(1,3) neg by (auto simp: sys_pipe2_def Let_def EFAULT_def split: if_splits sum.splits)
  note a = alloc_fd_get [OF A] and b = alloc_fd_get [OF B]
  have ab: "a \<noteq> b" using a(1) b(3) by auto
  have "a < 2 ^ 32" "b < 2 ^ 32" using a(4,5) b(4) assms(4) by simp_all
  then have fds: "load_u32 ptr m1 = a" "load_u32 (ptr + 4) m1 = b"
    unfolding m1 by (simp_all add: load_store_u32)
  have run: "running_pid st1 = ?pid" by (simp add: st1 running_pid_def)
  have p1: "get_proc ?pid st1 = Some (p\<lparr>pr_fds := t'\<rparr>)" using assms(3) by (simp add: st1)
  have fd: "current_fd a st1 = Some (Inr (File hr))" "current_fd b st1 = Some (Inr (File hw))"
    using p1 run a(1) b(1,2) ab by (simp_all add: current_fd_def with_process_ref_def)
  have h: "get_fd_file a st1 = Inr hr" "get_fd_file b st1 = Inr hw"
    using fd by (simp_all add: get_fd_file_def as_file_def)
  have os1: "objs st1 = ?os" by (simp add: st1)
  let ?bs = "load_bytes src cnt m1"
  define st2 where "st2 = st1\<lparr>objs := ?os\<lparr>pipes := (pipes ?os)(n := make_pipe\<lparr>p_buffer := ?bs\<rparr>)\<rparr>\<rparr>"
  have W: "sys_write utf8 b src cnt m1 st1 = (int cnt, [], False, st2)"
    using assms(2,5) h(2) os1
    by (simp add: sys_write_def user_slice_def handle_write_def pipe_write_def pipe_wake_reader_def make_pipe_def st2_def opt_list_def)
  have "get_fd_file a st2 = Inr hr" "handles (objs st2) hr = PipeReader n"
    "pipes (objs st2) n = make_pipe\<lparr>p_buffer := ?bs\<rparr>"
    using h(1) assms(2) os1
    by (simp_all add: st2_def get_fd_file_def current_fd_def with_process_ref_def running_pid_def)
  moreover have "?bs \<noteq> []" using assms(7) by (metis length_load_bytes length_greater_0_conv)
  ultimately have "\<exists>st3. sys_read a dst cnt m1 st2 = Inr (Wait_Return (int cnt), store_bytes dst ?bs m1, st3)"
    using assms(6,7) by (simp add: sys_read_def handle_read_def pipe_read_round_def make_pipe_def Let_def)
  moreover have "fst (sys_write utf8 a src cnt m1 st1) = - EBADF"
    using assms(2,5) h(1) os1 by (simp add: sys_write_def user_slice_def handle_write_def)
  moreover have "sys_read b dst cnt m1 st1 = Inr (Wait_Return (- EBADF), m1, st1)"
    using assms(6,7) h(2) os1 by (simp add: sys_read_def handle_read_def)
  ultimately show ?thesis using W ab unfolding fds Let_def by auto
qed


definition parent_running :: system where
  "parent_running = map_kern (\<lambda>k. k\<lparr>cpu := (cpu k)\<lparr>current_pid := 1\<rparr>\<rparr>) family"

lemma pipe_end_to_end_witness:
  "\<exists>m1 st1. sys_pipe2 0x2000 0 (5, 8, 9) (\<lambda>_. 0) parent_running = Inr (0, m1, st1)
     \<and> (\<exists>st2 st3. sys_write (\<lambda>_. True) 1 0x3000 4 m1 st1 = (4, [], False, st2)
          \<and> sys_read 0 0x4000 4 m1 st2 = Inr (Wait_Return 4, store_bytes 0x4000 (load_bytes 0x3000 4 m1) m1, st3))"
proof -
  have g: "get_proc (running_pid parent_running) parent_running = Some (example_process 1 0 [] (Some 0))"
    by (simp add: parent_running_def running_pid_def get_proc_def family_def btree_get_def)
  have v: "validate_user_buf 0x2000 8" "validate_user_buf 0x3000 4" "validate_user_buf 0x4000 4"
    by (simp_all add: validate_user_buf_def USER_LIMIT_def)
  have pos: "position (\<lambda>s. s = None) ([] :: fd_table) = None" "position (\<lambda>s. s = None) [Some e] = None" for e :: FdEntry
    by (simp_all add: position_None_iff)
  obtain m1 st1 where r: "sys_pipe2 0x2000 0 (5, 8, 9) (\<lambda>_. 0) parent_running = Inr (0, m1, st1)"
    and m1: "m1 = store_u32 (0x2000 + 4) 1 (store_u32 0x2000 0 (\<lambda>_. 0))"
    using v(1) g by (simp add: sys_pipe2_def alloc_fd_with_flags_def pos MAX_FDS_def example_process_def Let_def)
  have l: "load_u32 0x2000 m1 = 0" "load_u32 (0x2000 + 4) m1 = 1"
    unfolding m1 by (rule load_store_u32(2), simp) (rule load_store_u32(1), simp)
  from pipe_end_to_end [OF r _ g _ v(2,3), of "\<lambda>_. True"] show ?thesis
    using r unfolding l Let_def by (simp add: example_process_def)
qed

end
