(* ===== verification/Signal_Delivery.thy ===== *)
theory Signal_Delivery
  imports Process
begin

text \<open>
  Delivering signals: the frame that is built on the user stack on the way out of a system call
  or an exception (\<^verbatim>\<open>libkernel/src/syscall.rs\<close>), and the system calls around it (\<^verbatim>\<open>osl/src/signal.rs\<close>).
  Returning from a handler restores every register and the mask, and no sequence of these operations
  blocks or catches the two signals that cannot be.
\<close>

subsection \<open>The saved frame and the layout of the signal frame\<close>

record SyscallSavedFrame =
  s_r9 :: nat
  s_r8 :: nat
  s_r10 :: nat
  s_rdx :: nat
  s_rsi :: nat
  s_rdi :: nat
  s_r11 :: nat
  s_rcx :: nat

definition PRETCODE_SIZE :: nat where [const_defs]: "PRETCODE_SIZE = 8"
definition UC_HEADER :: nat where [const_defs]: "UC_HEADER = 8 + 8 + 24"
definition SIGCONTEXT_SIZE :: nat where [const_defs]: "SIGCONTEXT_SIZE = 32 * 8"
definition UC_TAIL :: nat where [const_defs]: "UC_TAIL = 8"
definition UCONTEXT_SIZE :: nat where [const_defs]: "UCONTEXT_SIZE = UC_HEADER + SIGCONTEXT_SIZE + UC_TAIL"
definition SIGINFO_SIZE :: nat where [const_defs]: "SIGINFO_SIZE = 128"
definition FRAME_SIZE :: nat where [const_defs]: "FRAME_SIZE = PRETCODE_SIZE + UCONTEXT_SIZE + SIGINFO_SIZE"

definition unblockable :: u64 where
  "unblockable = push_bit (unat (SIGKILL - 1)) 1 OR push_bit (unat (SIGSTOP - 1)) 1"

text \<open>The mask while the handler runs.\<close>

definition block_for_handler :: "SigAction \<Rightarrow> u8 \<Rightarrow> SignalState \<Rightarrow> SignalState" where
  "block_for_handler action signum ss =
     ss\<lparr>sig_blocked := (sig_blocked ss OR (sa_mask action OR push_bit (unat (signum - 1)) 1)) AND NOT unblockable\<rparr>"

definition sigframe_base :: "nat \<Rightarrow> nat res" where
  "sigframe_base user_rsp =
     bind_res (sub_u64 user_rsp FRAME_SIZE) (\<lambda>sp.
     bind_res (sub_u64 sp 8) (\<lambda>x. Inr (x div 16 * 16 + 8)))"

text \<open>Writing numbered words of the register context.\<close>

fun store_regs :: "nat \<Rightarrow> (nat \<times> nat) list \<Rightarrow> memory \<Rightarrow> memory" where
  "store_regs sc [] m = m"
| "store_regs sc ((i, v) # vs) m = store_regs sc vs (store_u64 (sc + i * 8) v m)"

definition write_sigframe :: "nat \<Rightarrow> u64 \<Rightarrow> (nat \<times> nat) list \<Rightarrow> u64 \<Rightarrow> u8 \<Rightarrow> memory \<Rightarrow> memory" where
  "write_sigframe base restorer_addr regs old_blocked signum m =
     (let uc = base + PRETCODE_SIZE; sc = uc + UC_HEADER;
          m1 = store_u64 base (unat restorer_addr) (write_bytes base FRAME_SIZE 0 m);
          m2 = store_regs sc regs m1;
          m3 = store_u64 (sc + SIGCONTEXT_SIZE) (unat old_blocked) m2
      in store_u32 (uc + UCONTEXT_SIZE) (unat signum) m3)"

definition syscall_regs :: "SyscallSavedFrame \<Rightarrow> nat \<Rightarrow> nat \<Rightarrow> (nat \<times> nat) list" where
  "syscall_regs f rax rsp =
     [(0, s_r8 f), (1, s_r9 f), (2, s_r10 f), (3, s_r11 f), (8, s_rdi f), (9, s_rsi f), (12, s_rdx f),
      (13, rax), (14, s_rcx f), (15, rsp), (16, s_rcx f), (17, s_r11 f)]"

subsection \<open>Delivery on the way out of a system call\<close>

text \<open>The value of a register as the signed result of a call, and back.\<close>

definition as_u64 :: "int \<Rightarrow> nat" where
  "as_u64 i = unat (word_of_int i :: u64)"

definition as_i64 :: "nat \<Rightarrow> int" where
  "as_i64 n = sint (word_of_nat n :: u64)"

definition deliver_signal ::
  "nat \<Rightarrow> u8 \<Rightarrow> SigAction \<Rightarrow> int \<Rightarrow> SyscallSavedFrame \<Rightarrow> nat \<Rightarrow> memory \<Rightarrow> system
   \<Rightarrow> (SyscallSavedFrame \<times> nat \<times> memory \<times> system) res" where
  "deliver_signal pid signum action syscall_ret f user_rsp m st =
     (let old_blocked = (case with_process_ref pid (\<lambda>p. sig_blocked (pr_signal p)) st of Some b \<Rightarrow> b | None \<Rightarrow> 0);
          st1 = upd_proc pid (\<lambda>p. p\<lparr>pr_signal := block_for_handler action signum (pr_signal p)\<rparr>) st in
      bind_res (sigframe_base user_rsp) (\<lambda>base.
        let m1 = write_sigframe base (restorer action) (syscall_regs f (as_u64 syscall_ret) user_rsp)
                   old_blocked signum m;
            uc = base + PRETCODE_SIZE;
            info = (sa_flags action AND SA_SIGINFO \<noteq> 0)
        in Inr (f\<lparr>s_rcx := unat (handler action), s_rdi := unat signum,
                  s_rsi := (if info then uc + UCONTEXT_SIZE else 0), s_rdx := (if info then uc else 0)\<rparr>,
                base, m1, st1)))"

datatype signal_outcome = Signal_Return SyscallSavedFrame nat memory | Signal_Killed

definition check_pending_signals ::
  "int \<Rightarrow> SyscallSavedFrame \<Rightarrow> nat \<Rightarrow> memory \<Rightarrow> system \<Rightarrow> (signal_outcome \<times> system) res" where
  "check_pending_signals syscall_ret f user_rsp m st =
     (let pid = running_pid st; unchanged = (\<lambda>st. Inr (Signal_Return f user_rsp m, st)) in
      if pid = KERNEL_PID then unchanged st
      else if \<not> has_pending_signal pid st then unchanged st
      else
        (case with_process pid (\<lambda>p. case dequeue (pr_signal p) of (sig, ss) \<Rightarrow>
                ((sig, ss), p\<lparr>pr_signal := ss\<rparr>)) st of
           (Some (Some signum, ss), st1) \<Rightarrow>
             if \<not> unat (signum - 1) < length (actions ss) then Inl IndexOutOfBounds
             else
               let action = actions ss ! unat (signum - 1) in
               if handler action = SIG_IGN then unchanged st1
               else if handler action = SIG_DFL then
                 if is_default_ignore signum then unchanged st1
                 else if is_default_terminate signum then
                   bind_res (terminate_process pid (128 + uint signum) st1) (\<lambda>st2. Inr (Signal_Killed, st2))
                 else unchanged st1
               else
                 bind_res (deliver_signal pid signum action syscall_ret f user_rsp m st1) (\<lambda>(f', rsp', m', st2).
                   Inr (Signal_Return f' rsp' m', st2))
         | (_, st1) \<Rightarrow> unchanged st1))"

subsection \<open>Delivery from an exception\<close>

record InterruptStackFrame =
  if_ip :: nat
  if_sp :: nat
  if_flags :: nat

definition deliver_signal_from_interrupt ::
  "nat \<Rightarrow> u8 \<Rightarrow> InterruptStackFrame \<Rightarrow> nat \<Rightarrow> memory \<Rightarrow> system \<Rightarrow> (bool \<times> InterruptStackFrame \<times> memory \<times> system) res" where
  "deliver_signal_from_interrupt pid signum isf fault_addr m st =
     (case get_proc pid st of
        None \<Rightarrow> Inr (False, isf, m, st)
      | Some p \<Rightarrow>
          if \<not> unat (signum - 1) < length (actions (pr_signal p)) then Inl IndexOutOfBounds
          else
            let action = actions (pr_signal p) ! unat (signum - 1);
                st1 = upd_proc pid (\<lambda>p. p\<lparr>pr_signal :=
                  (pr_signal p)\<lparr>sig_pending := clear_bit_at (unat (signum - 1)) (sig_pending (pr_signal p))\<rparr>\<rparr>) st in
            if handler action = SIG_DFL \<or> handler action = SIG_IGN then Inr (False, isf, m, st1)
            else
              let old_blocked = sig_blocked (pr_signal p);
                  st2 = upd_proc pid (\<lambda>p. p\<lparr>pr_signal := block_for_handler action signum (pr_signal p)\<rparr>) st1 in
              bind_res (sigframe_base (if_sp isf)) (\<lambda>base.
                if \<not> (0x1000 \<le> base \<and> base < 0x800000000000) then Inr (False, isf, m, st2)
                else
                  let regs = [(14, 0), (15, if_sp isf), (16, if_ip isf), (17, if_flags isf), (26, fault_addr)];
                      m1 = write_sigframe base (restorer action) regs old_blocked signum m;
                      m2 = store_u64 (base + PRETCODE_SIZE + UCONTEXT_SIZE + 16) fault_addr m1
                  in Inr (True, isf\<lparr>if_ip := unat (handler action), if_sp := base\<rparr>, m2, st2)))"

subsection \<open>System calls\<close>

definition sys_rt_sigreturn ::
  "SyscallSavedFrame \<Rightarrow> nat \<Rightarrow> memory \<Rightarrow> system \<Rightarrow> (int \<times> SyscallSavedFrame \<times> nat \<times> system) res" where
  "sys_rt_sigreturn f user_rsp m st =
     bind_res (sub_u64 user_rsp PRETCODE_SIZE) (\<lambda>base.
     bind_res (add_u64 (base + PRETCODE_SIZE) UC_HEADER) (\<lambda>sc.
     bind_res (add_u64 sc SIGCONTEXT_SIZE) (\<lambda>mask_addr.
       let reg = (\<lambda>i. load_u64 (sc + i * 8) m);
           old_blocked = (word_of_nat (load_u64 mask_addr m) :: u64);
           st1 = upd_proc (running_pid st) (\<lambda>p. p\<lparr>pr_signal :=
             (pr_signal p)\<lparr>sig_blocked := old_blocked AND NOT unblockable\<rparr>\<rparr>) st
       in Inr (as_i64 (reg 13),
               f\<lparr>s_rcx := reg 16, s_r11 := reg 17, s_rdi := reg 8, s_rsi := reg 9, s_rdx := reg 12,
                 s_r8 := reg 0, s_r9 := reg 1, s_r10 := reg 2\<rparr>,
               reg 15, st1))))"

definition sys_rt_sigaction ::
  "u64 \<Rightarrow> nat \<Rightarrow> nat \<Rightarrow> nat \<Rightarrow> memory \<Rightarrow> system \<Rightarrow> (int \<times> memory \<times> system) res" where
  "sys_rt_sigaction signum act_ptr oldact_ptr sigsetsize m st =
     (let sig = (ucast signum :: u8); pid = running_pid st; idx = unat (sig - 1);
          set_action = (\<lambda>m'.
            if act_ptr = 0 then Inr (0, m', st)
            else if \<not> validate_user_buf act_ptr 32 then Inr (- EFAULT, m', st)
            else
              let word = (\<lambda>i. word_of_nat (load_u64 (act_ptr + i * 8) m') :: u64);
                  action = \<lparr>handler = word 0, sa_flags = word 1, restorer = word 2, sa_mask = word 3\<rparr> in
              case get_proc pid st of
                None \<Rightarrow> Inr (0, m', st)
              | Some p \<Rightarrow>
                  if \<not> idx < length (actions (pr_signal p)) then Inl IndexOutOfBounds
                  else Inr (0, m', upd_proc pid (\<lambda>p. p\<lparr>pr_signal :=
                    (pr_signal p)\<lparr>actions := (actions (pr_signal p))[idx := action]\<rparr>\<rparr>) st)) in
      if sigsetsize \<noteq> 8 then Inr (- EINVAL, m, st)
      else if sig < 1 \<or> unat sig > NUM_SIGNALS \<or> sig = SIGKILL \<or> sig = SIGSTOP then Inr (- EINVAL, m, st)
      else if oldact_ptr = 0 then set_action m
      else if \<not> validate_user_buf oldact_ptr 32 then Inr (- EFAULT, m, st)
      else
        (case get_proc pid st of
           None \<Rightarrow> Inr (- ESRCH, m, st)
         | Some p \<Rightarrow>
             if \<not> idx < length (actions (pr_signal p)) then Inl IndexOutOfBounds
             else
               let old = actions (pr_signal p) ! idx
               in set_action (store_u64 (oldact_ptr + 24) (unat (sa_mask old))
                    (store_u64 (oldact_ptr + 16) (unat (restorer old))
                    (store_u64 (oldact_ptr + 8) (unat (sa_flags old))
                    (store_u64 oldact_ptr (unat (handler old)) m))))))"

text \<open>The change of the mask; an unknown \<open>how\<close> changes nothing.\<close>

definition apply_mask :: "u64 \<Rightarrow> u64 \<Rightarrow> SignalState \<Rightarrow> SignalState" where
  "apply_mask how sset ss =
     (if how = SIG_BLOCK then ss\<lparr>sig_blocked := sig_blocked ss OR (sset AND NOT unblockable)\<rparr>
      else if how = SIG_UNBLOCK then ss\<lparr>sig_blocked := sig_blocked ss AND NOT sset\<rparr>
      else if how = SIG_SETMASK then ss\<lparr>sig_blocked := sset AND NOT unblockable\<rparr>
      else ss)"

definition sys_rt_sigprocmask :: "u64 \<Rightarrow> nat \<Rightarrow> nat \<Rightarrow> nat \<Rightarrow> memory \<Rightarrow> system \<Rightarrow> int \<times> memory \<times> system" where
  "sys_rt_sigprocmask how set_ptr oldset_ptr sigsetsize m st =
     (let pid = running_pid st;
          set_mask = (\<lambda>m'.
            if set_ptr = 0 then (0, m', st)
            else if \<not> validate_user_buf set_ptr 8 then (- EFAULT, m', st)
            else
              let sset = (word_of_nat (load_u64 set_ptr m') :: u64);
                  st1 = upd_proc pid (\<lambda>p. p\<lparr>pr_signal := apply_mask how sset (pr_signal p)\<rparr>) st
              in (if how > SIG_SETMASK then - EINVAL else 0, m', st1)) in
      if sigsetsize \<noteq> 8 then (- EINVAL, m, st)
      else if oldset_ptr = 0 then set_mask m
      else if \<not> validate_user_buf oldset_ptr 8 then (- EFAULT, m, st)
      else
        (case with_process_ref pid (\<lambda>p. sig_blocked (pr_signal p)) st of
           None \<Rightarrow> (- ESRCH, m, st)
         | Some old \<Rightarrow> set_mask (store_u64 oldset_ptr (unat old) m)))"

subsection \<open>Returning from a handler\<close>

lemma store_regs_load_other:
  "i \<notin> fst ` set vs \<Longrightarrow> load_u64 (sc + i * 8) (store_regs sc vs m) = load_u64 (sc + i * 8) m"
proof (induction sc vs m rule: store_regs.induct)
  case (2 sc j v vs m)
  have "sc + i * 8 + 8 \<le> sc + j * 8 \<or> sc + j * 8 + 8 \<le> sc + i * 8" using 2(2) by (cases "i < j") auto
  then show ?case using 2 by (simp add: load_store_u64_disjoint)
qed simp

lemma store_regs_load:
  "distinct (map fst vs) \<Longrightarrow> (i, v) \<in> set vs \<Longrightarrow> v < 2 ^ 64 \<Longrightarrow> load_u64 (sc + i * 8) (store_regs sc vs m) = v"
proof (induction sc vs m rule: store_regs.induct)
  case (2 sc j w vs m)
  show ?case
  proof (cases "(i, v) \<in> set vs")
    case False
    then have "i = j" "v = w" "i \<notin> fst ` set vs" using 2(2,3) by auto
    then show ?thesis using 2(4) by (simp add: store_regs_load_other load_store_u64_same)
  qed (use 2 in auto)
qed simp

lemma load_store_u32_disjoint: "a + 8 \<le> b \<Longrightarrow> load_u64 a (store_u32 b v m) = load_u64 a m"
  by (simp add: load_u64_def store_u32_def load_store_bytes_disjoint)

lemma sigframe_read:
  assumes "distinct (map fst regs)"
  shows "(i, v) \<in> set regs \<Longrightarrow> i < 32 \<Longrightarrow> v < 2 ^ 64 \<Longrightarrow>
      load_u64 (base + PRETCODE_SIZE + UC_HEADER + i * 8) (write_sigframe base rst regs old sig m) = v"
    and "load_u64 (base + PRETCODE_SIZE + UC_HEADER + SIGCONTEXT_SIZE) (write_sigframe base rst regs old sig m) = unat old"
proof -
  let ?sc = "base + PRETCODE_SIZE + UC_HEADER"
  show "load_u64 (?sc + i * 8) (write_sigframe base rst regs old sig m) = v"
    if "(i, v) \<in> set regs" "i < 32" "v < 2 ^ 64"
    using store_regs_load [OF assms that(1,3), of ?sc] that(2)
    by (simp add: write_sigframe_def Let_def load_store_u32_disjoint load_store_u64_disjoint const_defs)
  have "unat old < 2 ^ 64" using unsigned_less [of old] by simp
  then show "load_u64 (?sc + SIGCONTEXT_SIZE) (write_sigframe base rst regs old sig m) = unat old"
    by (simp add: write_sigframe_def Let_def load_store_u32_disjoint load_store_u64_same const_defs)
qed

text \<open>Registers hold 64 bits.\<close>

definition frame_ok :: "SyscallSavedFrame \<Rightarrow> bool" where
  "frame_ok f \<longleftrightarrow> s_r9 f < 2 ^ 64 \<and> s_r8 f < 2 ^ 64 \<and> s_r10 f < 2 ^ 64 \<and> s_rdx f < 2 ^ 64 \<and> s_rsi f < 2 ^ 64
     \<and> s_rdi f < 2 ^ 64 \<and> s_r11 f < 2 ^ 64 \<and> s_rcx f < 2 ^ 64"

lemma as_i64_as_u64:
  assumes "- (2 ^ 63) \<le> r" and "r < 2 ^ 63"
  shows "as_i64 (as_u64 r) = r"
proof -
  have "as_i64 (as_u64 r) = sint (word_of_int r :: u64)" by (simp add: as_i64_def as_u64_def)
  also have "\<dots> = signed_take_bit 63 r" by (simp add: signed_of_int)
  also have "\<dots> = r" using assms by (simp add: signed_take_bit_int_eq_self)
  finally show ?thesis .
qed

lemma sigframe_base_bounds:
  assumes "sigframe_base rsp = Inr base"
  shows "base + FRAME_SIZE \<le> rsp" "base mod 16 = 8"
proof -
  have b: "base = (rsp - FRAME_SIZE - 8) div 16 * 16 + 8" "FRAME_SIZE + 8 \<le> rsp"
    using assms by (auto simp: sigframe_base_def)
  then show "base + FRAME_SIZE \<le> rsp" by simp
  show "base mod 16 = 8" using b(1) by (simp add: mod_add_eq [symmetric])
qed

lemma and_not_disjoint: "a AND b = 0 \<Longrightarrow> a AND NOT b = a" for a b :: u64
proof (rule bit_word_eqI)
  fix n
  assume "a AND b = 0"
  then have "\<not> (bit a n \<and> bit b n)" by (metis bit_and_iff bit_0_eq bot_apply bot_bool_def)
  then show "bit (a AND NOT b) n = bit a n" if "n < LENGTH(64)" using that by (auto simp: bit_and_iff bit_not_iff)
qed

text \<open>
  C25: A signal handler returns to where the signal arrived. When a signal is delivered on the way out of
  a system call, the frame lies below the user stack pointer with the alignment that the calling convention asks for,
  and the handler is entered with the signal number. If the handler
  leaves the saved context alone, \<^verbatim>\<open>rt_sigreturn\<close> (called with the stack pointer after the return address)
  gives back the result of the interrupted call, every saved register, the stack pointer, and
  the signal mask, whatever the handler left in the registers.
\<close>

theorem sigreturn_restores:
  assumes "deliver_signal (running_pid st) signum action ret f rsp m st = Inr (f1, base, m1, st1)"
    and "get_proc (running_pid st) st = Some p" and "sig_blocked (pr_signal p) AND unblockable = 0"
    and "frame_ok f" and "rsp < 2 ^ 64" and "- (2 ^ 63) \<le> ret" and "ret < 2 ^ 63"
    and "\<forall>a. base + 8 \<le> a \<and> a < base + 8 + UCONTEXT_SIZE \<longrightarrow> m2 a = m1 a"
  shows "base + FRAME_SIZE \<le> rsp \<and> base mod 16 = 8
     \<and> s_rcx f1 = unat (handler action) \<and> s_rdi f1 = unat signum
     \<and> (\<exists>st2. sys_rt_sigreturn f2 (base + 8) m2 st1 = Inr (ret, f, rsp, st2)
          \<and> map_option (\<lambda>p. sig_blocked (pr_signal p)) (get_proc (running_pid st) st2) = Some (sig_blocked (pr_signal p)))"
proof -
  let ?old = "sig_blocked (pr_signal p)" and ?regs = "syscall_regs f (as_u64 ret) rsp"
  have b: "sigframe_base rsp = Inr base"
    and m1: "m1 = write_sigframe base (restorer action) ?regs ?old signum m"
    and st1: "st1 = upd_proc (running_pid st) (\<lambda>p. p\<lparr>pr_signal := block_for_handler action signum (pr_signal p)\<rparr>) st"
    and f1: "s_rcx f1 = unat (handler action)" "s_rdi f1 = unat signum"
    using assms(1,2) by (auto simp: deliver_signal_def Let_def with_process_ref_def)
  note bounds = sigframe_base_bounds [OF b]
  have d: "distinct (map fst ?regs)" by (simp add: syscall_regs_def)
  have same: "load_u64 a m2 = load_u64 a m1" if "base + 8 \<le> a" "a + 8 \<le> base + 8 + UCONTEXT_SIZE" for a
    by (rule load_u64_cong) (use assms(8) that in auto)
  have "load_u64 (base + PRETCODE_SIZE + UC_HEADER + i * 8) m2 = v" if "(i, v) \<in> set ?regs" "v < 2 ^ 64" for i v
  proof -
    have i: "i < 32" using that(1) by (auto simp: syscall_regs_def)
    have "load_u64 (base + PRETCODE_SIZE + UC_HEADER + i * 8) m2 = load_u64 (base + PRETCODE_SIZE + UC_HEADER + i * 8) m1"
      by (rule same) (use i in \<open>simp_all add: const_defs\<close>)
    then show ?thesis unfolding m1 using sigframe_read(1) [OF d that(1) i that(2)] by simp
  qed
  note reg = this
  have sizes: "as_u64 ret < 2 ^ 64" using unsigned_less [of "word_of_int ret :: u64"] by (simp add: as_u64_def)
  have regs: "load_u64 (base + PRETCODE_SIZE + UC_HEADER + 0 * 8) m2 = s_r8 f"
    "load_u64 (base + PRETCODE_SIZE + UC_HEADER + 1 * 8) m2 = s_r9 f"
    "load_u64 (base + PRETCODE_SIZE + UC_HEADER + 2 * 8) m2 = s_r10 f"
    "load_u64 (base + PRETCODE_SIZE + UC_HEADER + 8 * 8) m2 = s_rdi f"
    "load_u64 (base + PRETCODE_SIZE + UC_HEADER + 9 * 8) m2 = s_rsi f"
    "load_u64 (base + PRETCODE_SIZE + UC_HEADER + 12 * 8) m2 = s_rdx f"
    "load_u64 (base + PRETCODE_SIZE + UC_HEADER + 13 * 8) m2 = as_u64 ret"
    "load_u64 (base + PRETCODE_SIZE + UC_HEADER + 15 * 8) m2 = rsp"
    "load_u64 (base + PRETCODE_SIZE + UC_HEADER + 16 * 8) m2 = s_rcx f"
    "load_u64 (base + PRETCODE_SIZE + UC_HEADER + 17 * 8) m2 = s_r11 f"
    by (rule reg; use assms(4,5) sizes in \<open>simp add: syscall_regs_def frame_ok_def\<close>)+
  have mask: "load_u64 (base + PRETCODE_SIZE + UC_HEADER + SIGCONTEXT_SIZE) m2 = unat ?old"
    using same [of "base + PRETCODE_SIZE + UC_HEADER + SIGCONTEXT_SIZE"] sigframe_read(2) [OF d] unfolding m1
    by (simp add: const_defs)
  have keep: "?old AND NOT unblockable = ?old" using assms(3) by (rule and_not_disjoint)
  have addr: "sub_u64 (base + 8) PRETCODE_SIZE = Inr base"
    "add_u64 (base + PRETCODE_SIZE) UC_HEADER = Inr (base + PRETCODE_SIZE + UC_HEADER)"
    "add_u64 (base + PRETCODE_SIZE + UC_HEADER) SIGCONTEXT_SIZE = Inr (base + PRETCODE_SIZE + UC_HEADER + SIGCONTEXT_SIZE)"
    using bounds(1) assms(5) by (simp_all add: sub_u64_def add_u64_def const_defs)
  have pid: "running_pid st1 = running_pid st" by (simp add: st1 running_pid_def)
  have "\<exists>st2. sys_rt_sigreturn f2 (base + 8) m2 st1 = Inr (ret, f, rsp, st2)
      \<and> map_option (\<lambda>p. sig_blocked (pr_signal p)) (get_proc (running_pid st) st2) = Some ?old"
    unfolding sys_rt_sigreturn_def addr bind_res_simps Let_def regs mask as_i64_as_u64 [OF assms(6,7)] pid
    using assms(2) keep by (simp add: st1)
  then show ?thesis using bounds f1 by blast
qed


definition handled_frame :: SyscallSavedFrame where
  "handled_frame = \<lparr>s_r9 = 9, s_r8 = 8, s_r10 = 10, s_rdx = 3, s_rsi = 2, s_rdi = 1, s_r11 = 0x202, s_rcx = 0x401000\<rparr>"

lemma sigreturn_restores_witness:
  "\<exists>f1 base m1 st1 st2. deliver_signal 0 2 default_SigAction (- 4) handled_frame 0x7000 (\<lambda>_. 0)
       (upd_proc 0 id (family\<lparr>procs := \<lparr>proc_table = [(0, example_process 0 0 [] None)], next_pid = 1\<rparr>\<rparr>)) = Inr (f1, base, m1, st1)
     \<and> sys_rt_sigreturn f1 (base + 8) m1 st1 = Inr (- 4, handled_frame, 0x7000, st2)"
proof -
  define st where "st = upd_proc 0 id (family\<lparr>procs := \<lparr>proc_table = [(0, example_process 0 0 [] None)], next_pid = 1\<rparr>\<rparr>)"
  have pid: "running_pid st = 0"
    by (simp add: st_def running_pid_def family_def pipe_objects_def one_thread_def boot_kernel_def)
  have p: "get_proc (running_pid st) st = Some (example_process 0 0 [] None)"
    unfolding pid by (simp add: st_def get_proc_def upd_proc_def btree_get_def btree_update_def)
  have "\<exists>base. sigframe_base 0x7000 = Inr base" by (simp add: sigframe_base_def sub_u64_def const_defs)
  then obtain f1 base m1 st1 where d: "deliver_signal (running_pid st) 2 default_SigAction (- 4) handled_frame 0x7000 (\<lambda>_. 0) st
      = Inr (f1, base, m1, st1)"
    by (auto simp: deliver_signal_def Let_def)
  have "sig_blocked (pr_signal (example_process 0 0 [] None)) AND unblockable = 0"
    by (simp add: example_process_def SignalState_new_def)
  moreover have "frame_ok handled_frame" by (simp add: frame_ok_def handled_frame_def)
  ultimately obtain st2 where "sys_rt_sigreturn f1 (base + 8) m1 st1 = Inr (- 4, handled_frame, 0x7000, st2)"
    using sigreturn_restores [OF d p, of m1 f1] by auto
  then show ?thesis using d unfolding pid st_def [symmetric] by blast
qed

subsection \<open>Signals that cannot be blocked or caught\<close>

definition sig_ok :: "SignalState \<Rightarrow> bool" where
  "sig_ok ss \<longleftrightarrow> sig_blocked ss AND unblockable = 0 \<and> length (actions ss) = NUM_SIGNALS
     \<and> actions ss ! 8 = default_SigAction \<and> actions ss ! 18 = default_SigAction"

definition all_sig_ok :: "system \<Rightarrow> bool" where
  "all_sig_ok st \<longleftrightarrow> (\<forall>pid p. get_proc pid st = Some p \<longrightarrow> sig_ok (pr_signal p))"

lemma all_sig_ok_upd:
  assumes "all_sig_ok st" and "\<And>p. sig_ok (pr_signal p) \<Longrightarrow> sig_ok (pr_signal (f p))"
  shows "all_sig_ok (upd_proc pid f st)"
  using assms by (auto simp: all_sig_ok_def split: if_splits)

lemma all_sig_ok_frame [simp]:
  "all_sig_ok (st\<lparr>objs := os\<rparr>) = all_sig_ok st" "all_sig_ok (st\<lparr>freed_spaces := l\<rparr>) = all_sig_ok st"
  "all_sig_ok (st\<lparr>display_owner := d\<rparr>) = all_sig_ok st" "all_sig_ok (unblock_opt t st) = all_sig_ok st"
  by (auto simp: all_sig_ok_def unblock_opt_def split: option.splits)

lemma all_sig_ok_with:
  assumes "with_process pid f st = (r, st')" and "all_sig_ok st"
    and "\<And>p x p'. f p = (x, p') \<Longrightarrow> sig_ok (pr_signal p) \<Longrightarrow> sig_ok (pr_signal p')"
  shows "all_sig_ok st'"
  using assms by (auto simp: with_process_def all_sig_ok_def split: option.splits prod.splits if_splits)

lemma and_not_unblockable [simp]: "(w AND NOT unblockable) AND unblockable = 0" for w :: u64
  by (rule bit_word_eqI) (auto simp: bit_and_iff bit_not_iff)

lemma sig_ok_ops:
  "sig_ok ss \<Longrightarrow> sig_ok (queue sig ss)"
  "sig_ok ss \<Longrightarrow> sig_ok (snd (dequeue ss))"
  "sig_ok ss \<Longrightarrow> sig_ok (block_for_handler a sig ss)"
  "sig_ok ss \<Longrightarrow> sig_ok (ss\<lparr>sig_pending := w\<rparr>)"
  "sig_ok ss \<Longrightarrow> sig_ok (ss\<lparr>sig_blocked := w AND NOT unblockable\<rparr>)"
  "sig_ok ss \<Longrightarrow> sig_ok (apply_mask how sset ss)"
proof -
  have "((b AND NOT s) AND unblockable) = 0" if "b AND unblockable = 0" for b s :: u64
    using that by (metis and.assoc and.commute and_zero_eq)
  moreover have "((b OR (s AND NOT unblockable)) AND unblockable) = 0" if "b AND unblockable = 0" for b s :: u64
    using that by (simp add: bit.conj_disj_distrib2)
  ultimately show "sig_ok ss \<Longrightarrow> sig_ok (apply_mask how sset ss)" by (auto simp: sig_ok_def apply_mask_def)
qed (auto simp: sig_ok_def queue_def dequeue_def block_for_handler_def Let_def)

lemma sig_ok_action:
  fixes sig :: u8
  assumes "sig_ok ss" and "unat (sig - 1) \<noteq> 8" and "unat (sig - 1) \<noteq> 18"
  shows "sig_ok (ss\<lparr>actions := (actions ss)[unat (sig - 1) := a]\<rparr>)"
  using assms by (simp add: sig_ok_def)

lemma not_kill_index:
  fixes sig :: u8
  assumes "sig \<noteq> SIGKILL" and "sig \<noteq> SIGSTOP"
  shows "unat (sig - 1) \<noteq> 8" "unat (sig - 1) \<noteq> 18"
proof -
  have w: "sig = word_of_nat (unat (sig - 1)) + 1" by simp
  show "unat (sig - 1) \<noteq> 8"
  proof
    assume h: "unat (sig - 1) = 8"
    show False using w [unfolded h] assms(1) by (simp add: const_defs)
  qed
  show "unat (sig - 1) \<noteq> 18"
  proof
    assume h: "unat (sig - 1) = 18"
    show False using w [unfolded h] assms(2) by (simp add: const_defs)
  qed
qed

lemma terminate_all_sig_ok:
  assumes "terminate_process pid code st = Inr st'" and "all_sig_ok st"
  shows "all_sig_ok st'"
proof -
  have close: "close_process_fds q s = Inr s' \<Longrightarrow> all_sig_ok s \<Longrightarrow> all_sig_ok s'" for q s s'
    by (auto simp: close_process_fds_def intro: all_sig_ok_upd split: option.splits)
  have free: "free_process_space q s = Inr s' \<Longrightarrow> all_sig_ok s \<Longrightarrow> all_sig_ok s'" for q s s'
    by (auto simp: free_process_space_def split: prod.splits option.splits if_splits elim!: all_sig_ok_with)
  have take_vfork: "take_vfork_parent q s = (r, s') \<Longrightarrow> all_sig_ok s \<Longrightarrow> all_sig_ok s'" for q s r s'
    by (auto simp: take_vfork_parent_def split: prod.splits elim!: all_sig_ok_with)
  have tell: "all_sig_ok s \<Longrightarrow> all_sig_ok (notify_parent q s)" for q s
  proof -
    assume "all_sig_ok s"
    then have "all_sig_ok (if q \<noteq> KERNEL_PID then upd_proc q (\<lambda>pp. pp\<lparr>pr_signal := queue SIGCHLD (pr_signal pp)\<rparr>) s else s)"
      by (auto intro!: all_sig_ok_upd sig_ok_ops)
    then show ?thesis
      by (auto simp: notify_parent_def Let_def split: prod.splits option.splits elim!: all_sig_ok_with)
  qed
  have mark: "all_sig_ok s \<Longrightarrow> all_sig_ok (mark_zombie q c s)" for q c s
    by (auto simp: mark_zombie_def intro: all_sig_ok_upd)
  show ?thesis
    using assms by (auto simp: terminate_process_def Let_def split: prod.splits option.splits if_splits
        intro!: tell mark dest!: close free take_vfork)
qed

text \<open>The operations that touch the signal state of processes, on the memory of their time.\<close>

datatype sig_op =
    Sig_Action u64 nat nat nat
  | Sig_Mask u64 nat nat nat
  | Sig_Return SyscallSavedFrame nat
  | Sig_Check int SyscallSavedFrame nat
  | Sig_Fault nat u8 InterruptStackFrame nat
  | Sig_Kill nat u64
  | Sig_Exit nat int

fun sig_exec :: "sig_op \<Rightarrow> memory \<Rightarrow> system \<Rightarrow> system res" where
  "sig_exec (Sig_Action n act old sz) m st = bind_res (sys_rt_sigaction n act old sz m st) (\<lambda>(_, _, st'). Inr st')"
| "sig_exec (Sig_Mask how new old sz) m st = Inr (snd (snd (sys_rt_sigprocmask how new old sz m st)))"
| "sig_exec (Sig_Return f rsp) m st = bind_res (sys_rt_sigreturn f rsp m st) (\<lambda>(_, _, _, st'). Inr st')"
| "sig_exec (Sig_Check ret f rsp) m st = bind_res (check_pending_signals ret f rsp m st) (\<lambda>(_, st'). Inr st')"
| "sig_exec (Sig_Fault pid n isf a) m st = bind_res (deliver_signal_from_interrupt pid n isf a m st) (\<lambda>(_, _, _, st'). Inr st')"
| "sig_exec (Sig_Kill pid n) m st = Inr (snd (sys_kill pid n st))"
| "sig_exec (Sig_Exit pid code) m st = terminate_process pid code st"

lemma sigaction_sig_ok:
  assumes "sys_rt_sigaction n act old sz m st = Inr (r, m', st')" and "all_sig_ok st"
  shows "all_sig_ok st'"
proof -
  have "st' = st \<or> (\<exists>pid (sig :: u8) a. sig \<noteq> SIGKILL \<and> sig \<noteq> SIGSTOP \<and>
      st' = upd_proc pid (\<lambda>p. p\<lparr>pr_signal := (pr_signal p)\<lparr>actions := (actions (pr_signal p))[unat (sig - 1) := a]\<rparr>\<rparr>) st)"
    using assms(1) by (auto simp: sys_rt_sigaction_def Let_def split: if_splits option.splits)
  then show ?thesis using assms(2) not_kill_index by (auto intro!: all_sig_ok_upd sig_ok_action)
qed

lemma check_sig_ok:
  assumes "check_pending_signals ret f rsp m st = Inr (r, st')" and "all_sig_ok st"
  shows "all_sig_ok st'"
proof -
  let ?f = "\<lambda>p. case dequeue (pr_signal p) of (sig, ss) \<Rightarrow> ((sig, ss), p\<lparr>pr_signal := ss\<rparr>)"
  obtain x st1 where w: "with_process (running_pid st) ?f st = (x, st1)" by fastforce
  have ok: "all_sig_ok st1"
  proof (rule all_sig_ok_with [OF w assms(2)])
    show "sig_ok (pr_signal p')" if "?f p = (y, p')" "sig_ok (pr_signal p)" for p y p'
      using that sig_ok_ops(2) [of "pr_signal p"] by (auto split: prod.splits)
  qed
  have del: "deliver_signal q n a c g e mm st1 = Inr (g', e', mm', s') \<Longrightarrow> all_sig_ok s'" for q n a c g e mm g' e' mm' s'
    using ok by (auto simp: deliver_signal_def Let_def intro!: all_sig_ok_upd sig_ok_ops)
  show ?thesis
    using assms w ok unfolding check_pending_signals_def Let_def
    by (auto split: if_splits option.splits prod.splits dest: del terminate_all_sig_ok)
qed

lemma fault_sig_ok:
  assumes "deliver_signal_from_interrupt pid n isf a m st = Inr (r, isf', m', st')" and "all_sig_ok st"
  shows "all_sig_ok st'"
proof -
  let ?f = "\<lambda>p. p\<lparr>pr_signal := (pr_signal p)\<lparr>sig_pending := clear_bit_at (unat (n - 1)) (sig_pending (pr_signal p))\<rparr>\<rparr>"
  have ok: "all_sig_ok (upd_proc pid ?f st)" using assms(2) by (auto intro!: all_sig_ok_upd sig_ok_ops)
  then have "all_sig_ok (upd_proc pid (\<lambda>p. p\<lparr>pr_signal := block_for_handler act n (pr_signal p)\<rparr>) (upd_proc pid ?f st))" for act
    by (auto intro!: all_sig_ok_upd sig_ok_ops)
  then show ?thesis
    using assms ok by (auto simp: deliver_signal_from_interrupt_def Let_def split: option.splits if_splits)
qed

lemma sig_exec_sig_ok: "sig_exec op m st = Inr st' \<Longrightarrow> all_sig_ok st \<Longrightarrow> all_sig_ok st'"
proof (cases op)
  case (Sig_Mask how new old sz)
  then show "sig_exec op m st = Inr st' \<Longrightarrow> all_sig_ok st \<Longrightarrow> all_sig_ok st'"
    by (auto simp: sys_rt_sigprocmask_def Let_def with_process_ref_def split: option.splits intro!: all_sig_ok_upd sig_ok_ops)
next
  case (Sig_Return f rsp)
  then show "sig_exec op m st = Inr st' \<Longrightarrow> all_sig_ok st \<Longrightarrow> all_sig_ok st'"
    by (auto simp: sys_rt_sigreturn_def Let_def intro!: all_sig_ok_upd sig_ok_ops)
next
  case (Sig_Kill pid n)
  let ?f = "\<lambda>p. (signal_thread p, p\<lparr>pr_signal := queue (ucast n) (pr_signal p)\<rparr>)"
  show "sig_exec op m st = Inr st' \<Longrightarrow> all_sig_ok st \<Longrightarrow> all_sig_ok st'"
    using Sig_Kill all_sig_ok_with [of pid ?f st] by (auto simp: sys_kill_def Let_def sig_ok_ops split: prod.splits option.splits)
qed (auto dest: sigaction_sig_ok check_sig_ok fault_sig_ok terminate_all_sig_ok)

fun sig_run :: "(sig_op \<times> memory) list \<Rightarrow> system \<Rightarrow> system res" where
  "sig_run [] st = Inr st"
| "sig_run ((op, m) # ops) st = bind_res (sig_exec op m st) (sig_run ops)"

lemma sig_run_sig_ok: "sig_run ops st = Inr st' \<Longrightarrow> all_sig_ok st \<Longrightarrow> all_sig_ok st'"
  by (induction ops st rule: sig_run.induct) (auto dest: sig_exec_sig_ok)

lemma sig_ok_bits:
  assumes "sig_ok ss"
  shows "\<not> bit (sig_blocked ss) 8" "\<not> bit (sig_blocked ss) 18"
proof -
  have "bit (sig_blocked ss AND unblockable) 8 = bit (sig_blocked ss) 8"
    "bit (sig_blocked ss AND unblockable) 18 = bit (sig_blocked ss) 18"
    by (simp_all add: bit_and_iff bit_or_iff unblockable_def SIGKILL_def SIGSTOP_def)
  then show "\<not> bit (sig_blocked ss) 8" "\<not> bit (sig_blocked ss) 18" using assms by (simp_all add: sig_ok_def)
qed

lemma queue_9: "queue 9 ss = ss\<lparr>sig_pending := set_bit_at 8 (sig_pending ss)\<rparr>"
  by (simp add: queue_def NUM_SIGNALS_def)

text \<open>
  C26: \<open>SIGKILL\<close> and \<open>SIGSTOP\<close> cannot be blocked or caught. Over any sequence of the signal system calls (with any
  arguments and any user memory), deliveries, returns from handlers with forged
  frames, faults, kills and exits, no process blocks either of them and both keep the default action;
  so a \<open>SIGKILL\<close> sent to any process is deliverable at once.
\<close>

theorem kill_never_blocked:
  assumes "all_sig_ok st" and "sig_run ops st = Inr st'" and "get_proc pid st' = Some p"
  shows "\<not> bit (sig_blocked (pr_signal p)) 8 \<and> \<not> bit (sig_blocked (pr_signal p)) 18
     \<and> handler (actions (pr_signal p) ! 8) = SIG_DFL \<and> handler (actions (pr_signal p) ! 18) = SIG_DFL
     \<and> fst (sys_kill pid 9 st') = 0 \<and> has_pending_signal pid (snd (sys_kill pid 9 st'))"
proof -
  have ok: "sig_ok (pr_signal p)" using sig_run_sig_ok [OF assms(2,1)] assms(3) by (simp add: all_sig_ok_def)
  let ?ss = "queue 9 (pr_signal p)"
  have "bit (sig_pending ?ss AND NOT (sig_blocked ?ss)) 8"
    using sig_ok_bits(1) [OF ok] by (simp add: queue_9 bit_and_iff bit_not_iff bit_set_bit_at)
  then have "sig_pending ?ss AND NOT (sig_blocked ?ss) \<noteq> 0" by (metis bit_0_eq bot_apply bot_bool_def)
  then have "fst (sys_kill pid 9 st') = 0 \<and> has_pending_signal pid (snd (sys_kill pid 9 st'))"
    using assms(3)
    by (auto simp: sys_kill_def with_process_def has_pending_signal_def NUM_SIGNALS_def unblock_opt_def split: option.splits)
  then show ?thesis using ok sig_ok_bits [OF ok] by (auto simp: sig_ok_def default_SigAction_def)
qed

lemma kill_never_blocked_witness:
  "\<exists>st' p. sig_run [(Sig_Mask SIG_SETMASK 0x2000 0 8, \<lambda>_. 0xFF)] family = Inr st' \<and> get_proc 1 st' = Some p
     \<and> \<not> bit (sig_blocked (pr_signal p)) 8"
proof -
  have ok: "all_sig_ok family"
    by (auto simp: all_sig_ok_def get_proc_def family_def btree_get_def example_process_def sig_ok_def
        SignalState_new_def NUM_SIGNALS_def split: if_splits)
  obtain st' where r: "sig_run [(Sig_Mask SIG_SETMASK 0x2000 0 8, \<lambda>_. 0xFF)] family = Inr st'" by simp
  have "get_proc 1 family \<noteq> None" by (simp add: get_proc_def family_def btree_get_def)
  then have "\<exists>p. get_proc 1 st' = Some p"
    using r by (auto simp: sys_rt_sigprocmask_def Let_def split: if_splits)
  then show ?thesis using kill_never_blocked [OF ok r] r by blast
qed

end
