(* ===== verification/Frame_Allocator.thy ===== *)
theory Frame_Allocator
  imports Byte_Memory
begin

text \<open>
  The physical frame allocator of \<^verbatim>\<open>libkernel/src/memory/frame_allocator.rs\<close>. Frames come from the
  boot memory map, in order, and freed frames are chained through their own first eight bytes. The
  model keeps the chain where the code keeps it, in physical memory, so that a write to a freed
  frame would corrupt it. The ghost lists of a history, the frames handed out and the frames given
  back, are what the chain is shown to represent; the loop that counts the chain is a partial
  function, shown to return in every reachable state.
\<close>

subsection \<open>The boot memory map\<close>

text \<open>What the allocator reads of a region of the bootloader's map: its byte range and whether its
  type is \<^verbatim>\<open>Usable\<close>.\<close>

record MemoryRegion =
  start_addr :: nat
  end_addr :: nat
  region_usable :: bool

type_synonym MemoryMap = "MemoryRegion list"

text \<open>The frame that contains an address; \<^verbatim>\<open>PhysAddr::new\<close> panics above 52 bits.\<close>

definition phys_frame :: "nat \<Rightarrow> nat res" where
  "phys_frame a = (if a < 2 ^ 52 then Inr (a - a mod 4096) else Inl ExplicitPanic)"

definition step_by_page :: "nat \<Rightarrow> nat \<Rightarrow> nat list" where
  "step_by_page s e = map (\<lambda>i. s + i * 4096) [0..<(e - s + 4095) div 4096]"

definition frame_addresses :: "MemoryMap \<Rightarrow> nat list" where
  "frame_addresses mm = concat (map (\<lambda>r. step_by_page (start_addr r) (end_addr r)) (filter region_usable mm))"

text \<open>The iterator is lazy: \<^verbatim>\<open>nth\<close> builds the frames up to the one it returns, \<^verbatim>\<open>count\<close> all of them.\<close>

definition usable_frames :: "MemoryMap \<Rightarrow> nat res list" where
  "usable_frames mm = map phys_frame (frame_addresses mm)"

fun iter_nth :: "'a res list \<Rightarrow> nat \<Rightarrow> 'a option res" where
  "iter_nth [] n = Inr None"
| "iter_nth (x # xs) 0 = bind_res x (\<lambda>v. Inr (Some v))"
| "iter_nth (x # xs) (Suc n) = bind_res x (\<lambda>_. iter_nth xs n)"

fun iter_count :: "'a res list \<Rightarrow> nat res" where
  "iter_count [] = Inr 0"
| "iter_count (x # xs) = bind_res x (\<lambda>_. bind_res (iter_count xs) (\<lambda>n. Inr (Suc n)))"

subsection \<open>The allocator\<close>

record BootInfoFrameAllocator =
  fa_memory_map :: MemoryMap
  fa_next :: nat
  free_head :: nat
  fa_phys_mem_offset :: nat

definition frame_allocator_init :: "MemoryMap \<Rightarrow> BootInfoFrameAllocator" where
  "frame_allocator_init mm = \<lparr>fa_memory_map = mm, fa_next = 0, free_head = 0, fa_phys_mem_offset = 0\<rparr>"

definition frames_allocated :: "BootInfoFrameAllocator \<Rightarrow> nat" where
  "frames_allocated a = fa_next a"

definition set_memory_map :: "MemoryMap \<Rightarrow> BootInfoFrameAllocator \<Rightarrow> BootInfoFrameAllocator" where
  "set_memory_map mm a = a\<lparr>fa_memory_map := mm\<rparr>"

definition total_usable_frames :: "BootInfoFrameAllocator \<Rightarrow> nat res" where
  "total_usable_frames a = iter_count (usable_frames (fa_memory_map a))"

definition set_phys_mem_offset :: "nat \<Rightarrow> BootInfoFrameAllocator \<Rightarrow> BootInfoFrameAllocator" where
  "set_phys_mem_offset off a = a\<lparr>fa_phys_mem_offset := off\<rparr>"

definition deallocate_frame ::
  "nat \<Rightarrow> BootInfoFrameAllocator \<Rightarrow> memory \<Rightarrow> (BootInfoFrameAllocator \<times> memory) res" where
  "deallocate_frame f a m =
     (if fa_phys_mem_offset a = 0 then Inl AssertFailed
      else bind_res (add_u64 (fa_phys_mem_offset a) f) (\<lambda>virt.
        Inr (a\<lparr>free_head := f\<rparr>, store_u64 virt (free_head a) m)))"

text \<open>The loop of \<^verbatim>\<open>free_list_len\<close> follows the pointers it finds in memory, so nothing but the shape
  of the chain makes it end: \<open>None\<close> is the loop that does not.\<close>

partial_function (option) free_list_loop :: "nat \<Rightarrow> memory \<Rightarrow> nat \<Rightarrow> nat \<Rightarrow> nat res option" where
  "free_list_loop off m addr cnt =
     (if addr = 0 then Some (Inr cnt)
      else case bind_res (add_u64 cnt 1) (\<lambda>c. bind_res (add_u64 off addr) (\<lambda>v. Inr (c, v))) of
        Inl p \<Rightarrow> Some (Inl p)
      | Inr cv \<Rightarrow> free_list_loop off m (load_u64 (snd cv) m) (fst cv))"

definition free_list_len :: "BootInfoFrameAllocator \<Rightarrow> memory \<Rightarrow> nat res option" where
  "free_list_len a m = free_list_loop (fa_phys_mem_offset a) m (free_head a) 0"

definition allocate_frame_sequential ::
  "BootInfoFrameAllocator \<Rightarrow> (nat option \<times> BootInfoFrameAllocator) res" where
  "allocate_frame_sequential a =
     bind_res (iter_nth (usable_frames (fa_memory_map a)) (fa_next a)) (\<lambda>frame.
     bind_res (add_u64 (fa_next a) 1) (\<lambda>n. Inr (frame, a\<lparr>fa_next := n\<rparr>)))"

definition allocate_frame ::
  "BootInfoFrameAllocator \<Rightarrow> memory \<Rightarrow> (nat option \<times> BootInfoFrameAllocator) res" where
  "allocate_frame a m =
     (if free_head a \<noteq> 0 then
        bind_res (add_u64 (fa_phys_mem_offset a) (free_head a)) (\<lambda>virt.
        bind_res (phys_frame (free_head a)) (\<lambda>f. Inr (Some f, a\<lparr>free_head := load_u64 virt m\<rparr>)))
      else
        bind_res (iter_nth (usable_frames (fa_memory_map a)) (fa_next a)) (\<lambda>frame.
        bind_res (add_u64 (fa_next a) 1) (\<lambda>n. Inr (frame, a\<lparr>fa_next := n\<rparr>))))"

subsection \<open>The chain of free frames in memory\<close>

definition PHYS_MAP_BASE :: nat where
  [const_defs]: "PHYS_MAP_BASE = 0xFFFF808000000000"

text \<open>What the bootloader documents of its map: usable frames are page-aligned, do not overlap, do
  not include frame 0, and lie inside the 512 GiB window that the kernel maps.\<close>

definition memory_map_ok :: "MemoryMap \<Rightarrow> bool" where
  "memory_map_ok mm \<longleftrightarrow> distinct (frame_addresses mm) \<and>
     (\<forall>a\<in>set (frame_addresses mm). a \<noteq> 0 \<and> a mod 4096 = 0 \<and> a < 2 ^ 39)"

primrec chain :: "nat \<Rightarrow> memory \<Rightarrow> nat \<Rightarrow> nat list \<Rightarrow> bool" where
  "chain off m h [] \<longleftrightarrow> h = 0"
| "chain off m h (f # fs) \<longleftrightarrow> h = f \<and> f \<noteq> 0 \<and> chain off m (load_u64 (off + f) m) fs"

text \<open>Histories of the allocator. \<open>live\<close> are the frames handed out and not given back, \<open>freed\<close> the
  frames given back, last first. Memory may change at any time outside the freed frames.\<close>

inductive frame_history ::
  "MemoryMap \<Rightarrow> BootInfoFrameAllocator \<Rightarrow> memory \<Rightarrow> nat list \<Rightarrow> nat list \<Rightarrow> bool" for mm where
  boot: "frame_history mm (frame_allocator_init mm) m [] []"
| offset: "frame_history mm a m live freed \<Longrightarrow>
    frame_history mm (set_phys_mem_offset PHYS_MAP_BASE (set_memory_map mm a)) m live freed"
| alloc: "frame_history mm a m live freed \<Longrightarrow> allocate_frame a m = Inr (Some f, a') \<Longrightarrow>
    frame_history mm a' m (f # live) (tl freed)"
| alloc_none: "frame_history mm a m live freed \<Longrightarrow> allocate_frame a m = Inr (None, a') \<Longrightarrow>
    frame_history mm a' m live freed"
| sequential: "frame_history mm a m live freed \<Longrightarrow> allocate_frame_sequential a = Inr (Some f, a') \<Longrightarrow>
    frame_history mm a' m (f # live) freed"
| sequential_none: "frame_history mm a m live freed \<Longrightarrow> allocate_frame_sequential a = Inr (None, a') \<Longrightarrow>
    frame_history mm a' m live freed"
| dealloc: "frame_history mm a m live freed \<Longrightarrow> f \<in> set live \<Longrightarrow>
    deallocate_frame f a m = Inr (a', m') \<Longrightarrow>
    frame_history mm a' m' (remove1 f live) (f # freed)"
| access: "frame_history mm a m live freed \<Longrightarrow>
    \<forall>f\<in>set freed. \<forall>x. fa_phys_mem_offset a + f \<le> x \<and> x < fa_phys_mem_offset a + f + 4096 \<longrightarrow> m' x = m x \<Longrightarrow>
    frame_history mm a m' live freed"

definition frames_ok ::
  "MemoryMap \<Rightarrow> BootInfoFrameAllocator \<Rightarrow> memory \<Rightarrow> nat list \<Rightarrow> nat list \<Rightarrow> bool" where
  "frames_ok mm a m live freed \<longleftrightarrow>
     fa_memory_map a = mm \<and>
     (fa_phys_mem_offset a = PHYS_MAP_BASE \<or> fa_phys_mem_offset a = 0 \<and> freed = []) \<and>
     distinct (live @ freed) \<and>
     set live \<union> set freed = set (take (fa_next a) (frame_addresses mm)) \<and>
     chain (fa_phys_mem_offset a) m (free_head a) freed"

subsection \<open>The invariant\<close>

lemma iter_nth_frames:
  assumes "\<forall>a\<in>set as. a < 2 ^ 39 \<and> a mod 4096 = 0"
  shows "iter_nth (map phys_frame as) n = Inr (if n < length as then Some (as ! n) else None)"
  using assms
proof (induction as arbitrary: n)
  case Nil
  then show ?case by simp
next
  case (Cons a as)
  have "phys_frame a = Inr a" using Cons.prems by (simp add: phys_frame_def)
  with Cons show ?case by (cases n) simp_all
qed

lemma usable_nth:
  "memory_map_ok mm \<Longrightarrow> iter_nth (usable_frames mm) n =
     Inr (if n < length (frame_addresses mm) then Some (frame_addresses mm ! n) else None)"
  unfolding usable_frames_def by (rule iter_nth_frames) (simp add: memory_map_ok_def)



lemma chain_frame:
  "\<forall>f\<in>set fs. \<forall>x. off + f \<le> x \<and> x < off + f + 8 \<longrightarrow> m' x = m x \<Longrightarrow> chain off m' h fs = chain off m h fs"
proof (induction fs arbitrary: h)
  case Nil
  then show ?case by simp
next
  case (Cons f fs)
  have "load_u64 (off + f) m' = load_u64 (off + f) m"
    using Cons.prems by (intro load_u64_cong) simp
  with Cons show ?case by simp
qed

lemma chain_head: "chain off m h fs \<Longrightarrow> h \<noteq> 0 \<Longrightarrow> fs = h # tl fs \<and> chain off m (load_u64 (off + h) m) (tl fs)"
  by (cases fs) auto

lemma chain_empty: "chain off m 0 fs \<Longrightarrow> fs = []"
  by (cases fs) auto

lemma page_apart:
  fixes f g :: nat
  assumes "f \<noteq> g" and "f mod 4096 = 0" and "g mod 4096 = 0"
  shows "f + 4096 \<le> g \<or> g + 4096 \<le> f"
proof -
  have f: "f = 4096 * (f div 4096)" and g: "g = 4096 * (g div 4096)"
    using div_mult_mod_eq [of f 4096] div_mult_mod_eq [of g 4096] assms(2,3) by simp_all
  have "f div 4096 \<noteq> g div 4096" using assms(1) f g by metis
  then have "f div 4096 + 1 \<le> g div 4096 \<or> g div 4096 + 1 \<le> f div 4096" by linarith
  then show ?thesis using f g by linarith
qed

lemma frames_ok_frame:
  assumes "frames_ok mm a m live freed" and "memory_map_ok mm" and "f \<in> set live \<union> set freed"
  shows "f \<noteq> 0" and "f mod 4096 = 0" and "f < 2 ^ 39" and "f \<in> set (frame_addresses mm)"
  using assms by (auto simp: frames_ok_def memory_map_ok_def dest: in_set_takeD)

text \<open>Taking the next frame of the map.\<close>

lemma sequential_frames_ok:
  assumes ok: "frames_ok mm a m live freed" and mm: "memory_map_ok mm"
    and r: "allocate_frame_sequential a = Inr (fo, a')"
  shows "case fo of Some f \<Rightarrow> frames_ok mm a' m (f # live) freed | None \<Rightarrow>
    frames_ok mm a' m live freed \<and> set live \<union> set freed = set (frame_addresses mm)"
proof -
  let ?as = "frame_addresses mm" and ?n = "fa_next a"
  from ok have memmap: "fa_memory_map a = mm" by (simp add: frames_ok_def)
  from r have fo: "fo = (if ?n < length ?as then Some (?as ! ?n) else None)"
    and a': "a' = a\<lparr>fa_next := Suc ?n\<rparr>"
    by (simp_all add: allocate_frame_sequential_def memmap usable_nth [OF mm])
  show ?thesis
  proof (cases "?n < length ?as")
    case True
    then have t: "take (Suc ?n) ?as = take ?n ?as @ [?as ! ?n]" by (rule take_Suc_conv_app_nth)
    have "distinct (take (Suc ?n) ?as)" using mm by (simp add: memory_map_ok_def)
    then have "?as ! ?n \<notin> set live \<union> set freed" using ok unfolding t by (simp add: frames_ok_def)
    with True ok t show ?thesis by (simp add: fo a' frames_ok_def)
  next
    case False
    with ok show ?thesis by (simp add: fo a' frames_ok_def)
  qed
qed

text \<open>Taking a frame off the chain, or the next frame of the map when the chain is empty.\<close>

lemma allocate_frames_ok:
  assumes ok: "frames_ok mm a m live freed" and mm: "memory_map_ok mm"
    and r: "allocate_frame a m = Inr (fo, a')"
  shows "case fo of Some f \<Rightarrow> frames_ok mm a' m (f # live) (tl freed) | None \<Rightarrow>
    frames_ok mm a' m live freed \<and> freed = [] \<and> set live = set (frame_addresses mm)"
proof (cases "free_head a = 0")
  case True
  then have "freed = []" using ok by (auto simp: frames_ok_def dest: chain_empty)
  moreover have "allocate_frame_sequential a = Inr (fo, a')"
    using r True by (simp add: allocate_frame_def allocate_frame_sequential_def)
  ultimately show ?thesis using sequential_frames_ok [OF ok mm] by (simp split: option.splits)
next
  case False
  let ?h = "free_head a"
  from ok have "chain (fa_phys_mem_offset a) m ?h freed" by (simp add: frames_ok_def)
  then have c: "freed = ?h # tl freed" "chain (fa_phys_mem_offset a) m (load_u64 (fa_phys_mem_offset a + ?h) m) (tl freed)"
    using chain_head [OF _ False] by blast+
  then have "?h \<in> set freed" by (metis list.set_intros(1))
  then have "phys_frame ?h = Inr ?h" using frames_ok_frame [OF ok mm, of ?h] by (simp add: phys_frame_def)
  then have "fo = Some ?h" and "a' = a\<lparr>free_head := load_u64 (fa_phys_mem_offset a + ?h) m\<rparr>"
    using r False by (auto simp: allocate_frame_def)
  moreover obtain gs where "freed = ?h # gs" "tl freed = gs" using c(1) by (metis list.sel(3))
  ultimately show ?thesis using ok c(2) by (auto simp: frames_ok_def)
qed

lemma deallocate_frames_ok:
  assumes ok: "frames_ok mm a m live freed" and mm: "memory_map_ok mm" and f: "f \<in> set live"
    and r: "deallocate_frame f a m = Inr (a', m')"
  shows "frames_ok mm a' m' (remove1 f live) (f # freed)"
proof -
  let ?off = "fa_phys_mem_offset a"
  from r have a': "a' = a\<lparr>free_head := f\<rparr>" and m': "m' = store_u64 (?off + f) (free_head a) m"
    and off: "?off \<noteq> 0"
    by (auto simp: deallocate_frame_def split: if_splits)
  from ok have d: "distinct live" "distinct freed" "set live \<inter> set freed = {}"
    and ch: "chain ?off m (free_head a) freed" by (simp_all add: frames_ok_def)
  have head: "free_head a < 2 ^ 64"
  proof (cases freed)
    case (Cons g gs)
    then have "free_head a = g" "g \<in> set freed" using ch by auto
    with frames_ok_frame(3) [OF ok mm, of g] show ?thesis by simp
  qed (use ch in simp)
  have "chain ?off m' (free_head a) freed = chain ?off m (free_head a) freed"
  proof (rule chain_frame, intro ballI allI impI)
    fix g x assume g: "g \<in> set freed" and x: "?off + g \<le> x \<and> x < ?off + g + 8"
    have "f \<noteq> g" using f g d(3) by blast
    then have "f + 4096 \<le> g \<or> g + 4096 \<le> f"
      using frames_ok_frame(2) [OF ok mm] f g by (intro page_apart) auto
    then show "m' x = m x" using x by (auto simp: m' store_u64_def intro!: store_bytes_outside)
  qed
  then have "chain ?off m' f (f # freed)"
    using ch frames_ok_frame(1) [OF ok mm, of f] f head by (simp add: m' load_store_u64_same)
  moreover have "set (remove1 f live) \<union> set (f # freed) = set live \<union> set freed"
    using f d(1) by (auto simp: set_remove1_eq)
  ultimately show ?thesis using ok d f off
    by (auto simp: frames_ok_def a' set_remove1_eq)
qed

lemma history_frames_ok:
  assumes "frame_history mm a m live freed" and mm: "memory_map_ok mm"
  shows "frames_ok mm a m live freed"
  using assms(1)
proof induction
  case (boot m)
  then show ?case by (simp add: frames_ok_def frame_allocator_init_def)
next
  case (offset a m live freed)
  then show ?case
    by (auto simp: frames_ok_def set_phys_mem_offset_def set_memory_map_def)
next
  case (alloc a m live freed f a')
  then show ?case using allocate_frames_ok [OF _ mm] by fastforce
next
  case (alloc_none a m live freed a')
  then show ?case using allocate_frames_ok [OF _ mm] by fastforce
next
  case (sequential a m live freed f a')
  then show ?case using sequential_frames_ok [OF _ mm] by fastforce
next
  case (sequential_none a m live freed a')
  then show ?case using sequential_frames_ok [OF _ mm] by fastforce
next
  case (dealloc a m live freed f a' m')
  then show ?case by (blast intro: deallocate_frames_ok mm)
next
  case (access a m live freed m')
  then have "chain (fa_phys_mem_offset a) m' (free_head a) freed = chain (fa_phys_mem_offset a) m (free_head a) freed"
    by (intro chain_frame) simp
  with access show ?case by (simp add: frames_ok_def)
qed

subsection \<open>Counting the chain ends\<close>

lemma free_list_loop_chain:
  assumes "chain off m h fs" and "\<forall>f\<in>set fs. off + f < 2 ^ 64" and "c + length fs < 2 ^ 64"
  shows "free_list_loop off m h c = Some (Inr (c + length fs))"
  using assms
proof (induction fs arbitrary: h c)
  case Nil
  then show ?case by (simp add: free_list_loop.simps)
next
  case (Cons f fs)
  then have "free_list_loop off m f c = free_list_loop off m (load_u64 (off + f) m) (c + 1)"
    by (subst free_list_loop.simps) (simp add: add_u64_ok)
  with Cons.prems Cons.IH [of "load_u64 (off + f) m" "c + 1"] show ?case by simp
qed

lemma frames_ok_length:
  assumes ok: "frames_ok mm a m live freed" and mm: "memory_map_ok mm"
  shows "length freed < 2 ^ 64"
proof -
  have "set freed \<subseteq> {..<2 ^ 39}" using frames_ok_frame(3) [OF ok mm] by auto
  then have "card (set freed) \<le> 2 ^ 39" using card_mono [of "{..<2 ^ 39 :: nat}" "set freed"] by simp
  moreover have "distinct freed" using ok by (simp add: frames_ok_def)
  ultimately show ?thesis by (simp add: distinct_card)
qed

lemma frames_ok_virt:
  assumes ok: "frames_ok mm a m live freed" and mm: "memory_map_ok mm" and "f \<in> set live \<union> set freed"
  shows "fa_phys_mem_offset a + f < 2 ^ 64"
proof -
  have "f < 2 ^ 39" by (rule frames_ok_frame(3) [OF assms])
  moreover have "fa_phys_mem_offset a = PHYS_MAP_BASE \<or> fa_phys_mem_offset a = 0"
    using ok by (auto simp: frames_ok_def)
  ultimately show ?thesis by (auto simp: const_defs)
qed

lemma allocate_frame_returns:
  assumes ok: "frames_ok mm a m live freed" and mm: "memory_map_ok mm" and n: "fa_next a + 1 < 2 ^ 64"
  shows "\<exists>r. allocate_frame a m = Inr r"
proof (cases "free_head a = 0")
  case True
  with ok n show ?thesis by (simp add: allocate_frame_def frames_ok_def usable_nth [OF mm] add_u64_ok)
next
  case False
  from ok have "chain (fa_phys_mem_offset a) m (free_head a) freed" by (simp add: frames_ok_def)
  with False have f: "free_head a \<in> set live \<union> set freed" by (cases freed) auto
  have "fa_phys_mem_offset a + free_head a < 2 ^ 64" by (rule frames_ok_virt [OF ok mm f])
  moreover have "free_head a < 2 ^ 39" by (rule frames_ok_frame(3) [OF ok mm f])
  ultimately show ?thesis using False by (simp add: allocate_frame_def phys_frame_def add_u64_ok)
qed

subsection \<open>The properties\<close>

text \<open>
  C27: In every history of the allocator in which memory is only written outside the freed frames and
  only live frames are given back, no frame is both free and in use or in use twice; allocation does
  not panic, a frame it returns is a usable frame of the boot map that nobody holds, and it
  fails only when every usable frame is held.
\<close>
theorem frames_never_shared:
  assumes "memory_map_ok mm" and "frame_history mm a m live freed" and "fa_next a + 1 < 2 ^ 64"
  shows "distinct (live @ freed) \<and> run_res (allocate_frame a m) (\<lambda>(fo, a').
    case fo of Some f \<Rightarrow> f \<notin> set live \<and> f \<in> set (frame_addresses mm)
    | None \<Rightarrow> freed = [] \<and> set live = set (frame_addresses mm))"
proof -
  note ok = history_frames_ok [OF assms(2,1)]
  obtain fo a' where r: "allocate_frame a m = Inr (fo, a')"
    using allocate_frame_returns [OF ok assms(1,3)] by auto
  have "case fo of Some f \<Rightarrow> f \<notin> set live \<and> f \<in> set (frame_addresses mm)
    | None \<Rightarrow> freed = [] \<and> set live = set (frame_addresses mm)"
  proof (cases fo)
    case None
    with allocate_frames_ok [OF ok assms(1) r] show ?thesis by simp
  next
    case (Some f)
    with allocate_frames_ok [OF ok assms(1) r] have ok': "frames_ok mm a' m (f # live) (tl freed)" by simp
    then have "f \<notin> set live" by (simp add: frames_ok_def)
    with Some frames_ok_frame(4) [OF ok' assms(1), of f] show ?thesis by simp
  qed
  with r ok show ?thesis by (simp add: run_res_iff frames_ok_def)
qed

text \<open>
  C28: The loop that measures the free list follows pointers stored in the freed frames themselves;
  in every history it ends, without overflow, and its result is the number of frames given back and
  not handed out again.
\<close>
theorem free_list_len_terminates:
  assumes "memory_map_ok mm" and "frame_history mm a m live freed"
  shows "free_list_len a m = Some (Inr (length freed))"
proof -
  note ok = history_frames_ok [OF assms(2,1)]
  have "\<forall>f\<in>set freed. fa_phys_mem_offset a + f < 2 ^ 64"
    using frames_ok_virt [OF ok assms(1)] by blast
  moreover have "chain (fa_phys_mem_offset a) m (free_head a) freed" using ok by (simp add: frames_ok_def)
  ultimately show ?thesis
    using free_list_loop_chain [of "fa_phys_mem_offset a" m "free_head a" freed 0] frames_ok_length [OF ok assms(1)]
    by (simp add: free_list_len_def)
qed

text \<open>A map of four usable frames between two reserved regions, and the history that takes two
  frames and gives the first back.\<close>

definition example_map :: MemoryMap where
  "example_map = [\<lparr>start_addr = 0, end_addr = 4096, region_usable = False\<rparr>,
     \<lparr>start_addr = 4096, end_addr = 0x5000, region_usable = True\<rparr>,
     \<lparr>start_addr = 0xA0000, end_addr = 0x100000, region_usable = False\<rparr>]"

definition example_allocator :: BootInfoFrameAllocator where
  "example_allocator = \<lparr>fa_memory_map = example_map, fa_next = 2, free_head = 0x1000, fa_phys_mem_offset = PHYS_MAP_BASE\<rparr>"

lemma example_frames: "frame_addresses example_map = [0x1000, 0x2000, 0x3000, 0x4000]"
proof -
  have "[0..<(0x5000 - 4096 + 4095) div 4096] = [0, 1, 2, 3 :: nat]"
    by (simp add: upt_rec)
  then show ?thesis by (simp add: frame_addresses_def example_map_def step_by_page_def)
qed

lemma example_map_ok: "memory_map_ok example_map"
  by (simp add: memory_map_ok_def example_frames)

lemma example_history:
  "frame_history example_map example_allocator (store_u64 (PHYS_MAP_BASE + 0x1000) 0 (\<lambda>_. 0)) [0x2000] [0x1000]"
proof -
  let ?m = "\<lambda>_ :: nat. 0 :: u8"
  let ?a0 = "set_phys_mem_offset PHYS_MAP_BASE (set_memory_map example_map (frame_allocator_init example_map))"
  have 0: "frame_history example_map ?a0 ?m [] []" by (intro frame_history.intros)
  have 1: "allocate_frame ?a0 ?m = Inr (Some 0x1000, ?a0\<lparr>fa_next := 1\<rparr>)"
    by (simp add: allocate_frame_def set_phys_mem_offset_def set_memory_map_def frame_allocator_init_def
        usable_nth [OF example_map_ok] example_frames add_u64_ok)
  have 2: "allocate_frame (?a0\<lparr>fa_next := 1\<rparr>) ?m = Inr (Some 0x2000, ?a0\<lparr>fa_next := 2\<rparr>)"
    by (simp add: allocate_frame_def set_phys_mem_offset_def set_memory_map_def frame_allocator_init_def
        usable_nth [OF example_map_ok] example_frames add_u64_ok)
  have 3: "deallocate_frame 0x1000 (?a0\<lparr>fa_next := 2\<rparr>) ?m =
      Inr (example_allocator, store_u64 (PHYS_MAP_BASE + 0x1000) 0 ?m)"
    by (simp add: deallocate_frame_def set_phys_mem_offset_def set_memory_map_def frame_allocator_init_def
        example_allocator_def add_u64_ok const_defs)
  from dealloc [OF alloc [OF alloc [OF 0 1] 2] _ 3] show ?thesis by simp
qed

theorem frames_never_shared_witness:
  "run_res (allocate_frame example_allocator (store_u64 (PHYS_MAP_BASE + 0x1000) 0 (\<lambda>_. 0))) (\<lambda>(fo, a').
     case fo of Some f \<Rightarrow> f \<notin> {0x2000} \<and> f \<in> {0x1000, 0x2000, 0x3000, 0x4000} | None \<Rightarrow> False)"
  using frames_never_shared [OF example_map_ok example_history]
  by (auto simp: example_allocator_def example_frames run_res_iff split: option.splits)

theorem free_list_len_terminates_witness:
  "free_list_len example_allocator (store_u64 (PHYS_MAP_BASE + 0x1000) 0 (\<lambda>_. 0)) = Some (Inr 1)"
  using free_list_len_terminates [OF example_map_ok example_history] by simp

end
