(* ===== verification/Memory_Services.thy ===== *)
theory Memory_Services
  imports Frame_Allocator Vma
begin

text \<open>
  The memory services of \<^verbatim>\<open>libkernel/src/memory/mod.rs\<close>: reference counts of shared frames, the MMIO
  window, contiguous allocation, user page tables, and the walk that gives back a whole address
  space. Page tables are read where they are, in physical memory, by the code's own walk. The
  \<^verbatim>\<open>x86_64\<close> crate is a parameter: the view of a page-table entry, and its mapper.
\<close>

subsection \<open>The paging crate\<close>

text \<open>The flags of kernel mappings: \<^verbatim>\<open>PRESENT | WRITABLE\<close> with \<^verbatim>\<open>NO_CACHE\<close>, or with \<^verbatim>\<open>NO_EXECUTE\<close>.\<close>

datatype kernel_flags = MMIO_FLAGS | KERNEL_DATA_FLAGS

text \<open>What the kernel uses of the crate. The mapper may take frames for intermediate tables from the
  allocator; it says whether it succeeded. Unmapping returns the frame that was mapped.\<close>

record paging =
  pte_unused :: "nat \<Rightarrow> bool"
  pte_addr :: "nat \<Rightarrow> nat"
  pte_huge :: "nat \<Rightarrow> bool"
  pte_of_frame :: "nat \<Rightarrow> nat"
  map_to :: "nat \<Rightarrow> nat \<Rightarrow> nat \<Rightarrow> PageTableFlags \<Rightarrow> BootInfoFrameAllocator \<times> memory \<Rightarrow> bool \<times> BootInfoFrameAllocator \<times> memory"
  map_active :: "nat \<Rightarrow> nat \<Rightarrow> kernel_flags \<Rightarrow> BootInfoFrameAllocator \<times> memory \<Rightarrow> bool \<times> BootInfoFrameAllocator \<times> memory"
  unmap_page :: "nat \<Rightarrow> nat \<Rightarrow> memory \<Rightarrow> nat option \<times> memory"
  update_flags :: "nat \<Rightarrow> nat \<Rightarrow> PageTableFlags \<Rightarrow> memory \<Rightarrow> bool \<times> memory"

text \<open>\<^verbatim>\<open>VirtAddr::new\<close> panics on addresses that are not canonical.\<close>

definition virt_addr :: "nat \<Rightarrow> nat res" where
  "virt_addr a = (if a < 2 ^ 47 \<or> 2 ^ 64 - 2 ^ 47 \<le> a \<and> a < 2 ^ 64 then Inr a else Inl ExplicitPanic)"

definition page_base :: "nat \<Rightarrow> nat" where
  "page_base a = a - a mod PAGE_SIZE"

primrec fold_res :: "('a \<Rightarrow> 's \<Rightarrow> 's res) \<Rightarrow> 'a list \<Rightarrow> 's \<Rightarrow> 's res" where
  "fold_res f [] s = Inr s"
| "fold_res f (x # xs) s = bind_res (f x s) (fold_res f xs)"

subsection \<open>The services\<close>

definition MMIO_VIRT_BASE :: nat where
  [const_defs]: "MMIO_VIRT_BASE = 0xFFFF800200000000"

definition MMIO_VIRT_SIZE :: nat where
  [const_defs]: "MMIO_VIRT_SIZE = 0x8000000000"

record MemoryServices =
  frame_allocator :: BootInfoFrameAllocator
  ms_phys_mem_offset :: nat
  ms_memory_map :: MemoryMap
  mmio_next :: nat
  mmio_cache :: "nat \<rightharpoonup> nat"
  refcounts :: "nat \<rightharpoonup> nat"

text \<open>The services together with the physical memory that they work on.\<close>

type_synonym mem_state = "MemoryServices \<times> memory"

text \<open>The virtual address of a physical one; \<^verbatim>\<open>VirtAddr\<close> addition checks both overflow and form.\<close>

definition phys_virt :: "MemoryServices \<Rightarrow> nat \<Rightarrow> nat res" where
  "phys_virt ms p = bind_res (add_u64 (ms_phys_mem_offset ms) p) virt_addr"

definition frame_stats :: "mem_state \<Rightarrow> (nat \<times> nat res \<times> nat res option)" where
  "frame_stats s = (case s of (ms, m) \<Rightarrow>
     (frames_allocated (frame_allocator ms), total_usable_frames (frame_allocator ms),
      free_list_len (frame_allocator ms) m))"

definition mem_dealloc :: "nat \<Rightarrow> mem_state \<Rightarrow> mem_state res" where
  "mem_dealloc f s = (case s of (ms, m) \<Rightarrow>
     bind_res (deallocate_frame f (frame_allocator ms) m) (\<lambda>(fa, m'). Inr (ms\<lparr>frame_allocator := fa\<rparr>, m')))"

text \<open>The loop over the pages of an MMIO region.\<close>

fun map_mmio_pages :: "paging \<Rightarrow> nat \<Rightarrow> nat \<Rightarrow> nat \<Rightarrow> mem_state \<Rightarrow> mem_state res" where
  "map_mmio_pages pg virt phys 0 s = Inr s"
| "map_mmio_pages pg virt phys (Suc n) (ms, m) =
     bind_res (virt_addr virt) (\<lambda>v.
     if v mod PAGE_SIZE \<noteq> 0 then Inl UnwrapNone
     else bind_res (phys_frame phys) (\<lambda>f.
       case map_active pg v f MMIO_FLAGS (frame_allocator ms, m) of (ok, fa, m') \<Rightarrow>
         if \<not> ok then Inl UnwrapNone
         else map_mmio_pages pg (virt + PAGE_SIZE) (phys + PAGE_SIZE) n (ms\<lparr>frame_allocator := fa\<rparr>, m')))"

definition map_mmio_region :: "paging \<Rightarrow> nat \<Rightarrow> nat \<Rightarrow> mem_state \<Rightarrow> (nat \<times> mem_state) res" where
  "map_mmio_region pg phys_start sz s = (case s of (ms, m) \<Rightarrow>
     (let phys_base = page_base phys_start; page_off = phys_start - phys_base in
      bind_res (add_u64 sz page_off) (\<lambda>a.
      bind_res (add_u64 a PAGE_MASK) (\<lambda>b.
        let num_pages = b div PAGE_SIZE in
        case mmio_cache ms phys_base of
          Some virt_base \<Rightarrow> bind_res (add_u64 virt_base page_off) (\<lambda>v. bind_res (virt_addr v) (\<lambda>v. Inr (v, s)))
        | None \<Rightarrow>
            let virt_base = mmio_next ms in
            bind_res (add_u64 virt_base (num_pages * PAGE_SIZE)) (\<lambda>nxt.
            if \<not> nxt \<le> MMIO_VIRT_BASE + MMIO_VIRT_SIZE then Inl AssertFailed
            else bind_res (map_mmio_pages pg virt_base phys_base num_pages (ms\<lparr>mmio_next := nxt\<rparr>, m)) (\<lambda>(ms', m').
              bind_res (add_u64 virt_base page_off) (\<lambda>v. bind_res (virt_addr v) (\<lambda>v.
                Inr (v, ms'\<lparr>mmio_cache := (mmio_cache ms')(phys_base \<mapsto> virt_base)\<rparr>, m')))))))))"

fun map_kernel_pages :: "paging \<Rightarrow> nat \<Rightarrow> nat \<Rightarrow> mem_state \<Rightarrow> (bool \<times> mem_state) res" where
  "map_kernel_pages pg virt 0 s = Inr (True, s)"
| "map_kernel_pages pg virt (Suc n) (ms, m) =
     bind_res (virt_addr virt) (\<lambda>v.
     bind_res (allocate_frame (frame_allocator ms) m) (\<lambda>(fo, fa).
       let ms1 = ms\<lparr>frame_allocator := fa\<rparr> in
       case fo of
         None \<Rightarrow> Inr (False, ms1, m)
       | Some f \<Rightarrow>
           (case map_active pg (page_base v) f KERNEL_DATA_FLAGS (fa, m) of (ok, fa', m') \<Rightarrow>
              let ms2 = ms\<lparr>frame_allocator := fa'\<rparr> in
              if \<not> ok then Inr (False, ms2, m')
              else if n = 0 then Inr (True, ms2, m')
              else bind_res (add_u64 virt PAGE_SIZE) (\<lambda>virt'. map_kernel_pages pg virt' n (ms2, m')))))"

text \<open>The loop of \<^verbatim>\<open>alloc_dma_pages\<close>: \<open>pages\<close> is the request, \<open>i\<close> the pages done, \<open>r\<close> those to do.\<close>

fun alloc_dma_loop :: "nat \<Rightarrow> nat \<Rightarrow> nat \<Rightarrow> nat option \<Rightarrow> mem_state \<Rightarrow> (nat option \<times> MemoryServices) res" where
  "alloc_dma_loop pages 0 i base (ms, m) = Inr (base, ms)"
| "alloc_dma_loop pages (Suc r) i base (ms, m) =
     bind_res (if pages > 1 then allocate_frame_sequential (frame_allocator ms)
               else allocate_frame (frame_allocator ms) m) (\<lambda>(fo, fa).
       let ms' = ms\<lparr>frame_allocator := fa\<rparr> in
       case fo of
         None \<Rightarrow> Inr (None, ms')
       | Some paddr \<Rightarrow>
           if i = 0 then alloc_dma_loop pages r (i + 1) (Some paddr) (ms', m)
           else (case base of
                   None \<Rightarrow> Inl UnwrapNone
                 | Some b \<Rightarrow> bind_res (add_u64 b (i * PAGE_SIZE)) (\<lambda>expected.
                     if paddr \<noteq> expected then Inl AssertFailed
                     else alloc_dma_loop pages r (i + 1) base (ms', m))))"

definition alloc_dma_pages :: "nat \<Rightarrow> mem_state \<Rightarrow> (nat option \<times> MemoryServices) res" where
  "alloc_dma_pages pages s = alloc_dma_loop pages pages 0 None s"

subsection \<open>Reference counts\<close>

text \<open>A frame in the table has at least two references; a frame that is not has one. Counts are
  16 bits wide.\<close>

definition ref_share :: "nat \<Rightarrow> MemoryServices \<Rightarrow> MemoryServices res" where
  "ref_share f ms =
     (let cnt = (case refcounts ms f of None \<Rightarrow> 1 | Some c \<Rightarrow> c) in
      if cnt + 1 < 2 ^ 16 then Inr (ms\<lparr>refcounts := (refcounts ms)(f \<mapsto> cnt + 1)\<rparr>) else Inl ArithOverflow)"

definition ref_release :: "nat \<Rightarrow> MemoryServices \<Rightarrow> (bool \<times> MemoryServices) res" where
  "ref_release f ms =
     (case refcounts ms f of
        None \<Rightarrow> Inr (True, ms)
      | Some cnt \<Rightarrow>
          if cnt = 0 then Inl ArithOverflow
          else if cnt - 1 \<le> 1 then Inr (cnt - 1 = 0, ms\<lparr>refcounts := (refcounts ms)(f := None)\<rparr>)
          else Inr (False, ms\<lparr>refcounts := (refcounts ms)(f \<mapsto> cnt - 1)\<rparr>))"

definition is_shared :: "nat \<Rightarrow> MemoryServices \<Rightarrow> bool" where
  "is_shared f ms \<longleftrightarrow> refcounts ms f \<noteq> None"

text \<open>Drop one reference, and give the frame back when it was the last.\<close>

definition release_frame :: "nat \<Rightarrow> mem_state \<Rightarrow> mem_state res" where
  "release_frame f s = (case s of (ms, m) \<Rightarrow>
     bind_res (ref_release f ms) (\<lambda>(last, ms'). if last then mem_dealloc f (ms', m) else Inr (ms', m)))"

definition release_shared_frame :: "nat \<Rightarrow> mem_state \<Rightarrow> mem_state res" where
  "release_shared_frame phys s = (case s of (ms, m) \<Rightarrow>
     bind_res (ref_release phys ms) (\<lambda>(last, ms').
       if last then mem_dealloc (page_base phys) (ms', m) else Inr (ms', m)))"

subsection \<open>User page tables\<close>

definition write_entries :: "nat \<Rightarrow> nat \<Rightarrow> nat list \<Rightarrow> memory \<Rightarrow> memory" where
  "write_entries src dst is m = fold (\<lambda>i m. store_u64 (dst + 8 * i) (load_u64 (src + 8 * i) m) m) is m"

text \<open>A fresh PML4: zeroed, with the kernel half of the active one (\<open>cr3\<close>) and the self-mapping.\<close>

definition create_user_page_table :: "paging \<Rightarrow> nat \<Rightarrow> mem_state \<Rightarrow> (nat \<times> mem_state) res" where
  "create_user_page_table pg cr3 s = (case s of (ms, m) \<Rightarrow>
     bind_res (allocate_frame (frame_allocator ms) m) (\<lambda>(fo, fa).
       case fo of
         None \<Rightarrow> Inl UnwrapNone
       | Some pml4 \<Rightarrow>
           let ms' = ms\<lparr>frame_allocator := fa\<rparr> in
           bind_res (phys_virt ms' pml4) (\<lambda>dst.
           bind_res (phys_virt ms' (page_base cr3)) (\<lambda>src.
             let m1 = write_bytes dst PAGE_SIZE 0 m;
                 m2 = write_entries src dst [256..<511] m1
             in Inr (pml4, ms', store_u64 (dst + 8 * 511) (pte_of_frame pg pml4) m2)))))"

definition map_user_page ::
  "paging \<Rightarrow> nat \<Rightarrow> nat \<Rightarrow> nat \<Rightarrow> PageTableFlags \<Rightarrow> mem_state \<Rightarrow> (bool \<times> mem_state) res" where
  "map_user_page pg pml4 virt phys flags s = (case s of (ms, m) \<Rightarrow>
     bind_res (virt_addr virt) (\<lambda>v.
     bind_res (phys_virt ms pml4) (\<lambda>_.
       case map_to pg pml4 (page_base v) (page_base phys) flags (frame_allocator ms, m) of (ok, fa, m') \<Rightarrow>
         Inr (ok, ms\<lparr>frame_allocator := fa\<rparr>, m'))))"

definition unmap_user_page :: "paging \<Rightarrow> nat \<Rightarrow> nat \<Rightarrow> mem_state \<Rightarrow> (nat option \<times> mem_state) res" where
  "unmap_user_page pg pml4 vaddr s = (case s of (ms, m) \<Rightarrow>
     bind_res (virt_addr vaddr) (\<lambda>v.
     bind_res (phys_virt ms pml4) (\<lambda>_.
       case unmap_page pg pml4 (page_base v) m of (fo, m') \<Rightarrow> Inr (fo, ms, m'))))"

definition unmap_and_free_user_page :: "paging \<Rightarrow> nat \<Rightarrow> nat \<Rightarrow> mem_state \<Rightarrow> (bool \<times> mem_state) res" where
  "unmap_and_free_user_page pg pml4 vaddr s =
     bind_res (unmap_user_page pg pml4 vaddr s) (\<lambda>(fo, s1).
       case fo of
         Some f \<Rightarrow> bind_res (mem_dealloc f s1) (\<lambda>s2. Inr (True, s2))
       | None \<Rightarrow> Inr (False, s1))"

definition unmap_and_release_user_page :: "paging \<Rightarrow> nat \<Rightarrow> nat \<Rightarrow> mem_state \<Rightarrow> (bool \<times> mem_state) res" where
  "unmap_and_release_user_page pg pml4 vaddr s =
     bind_res (unmap_user_page pg pml4 vaddr s) (\<lambda>(fo, s1).
       case fo of
         Some f \<Rightarrow> bind_res (release_frame f s1) (\<lambda>s2. Inr (True, s2))
       | None \<Rightarrow> Inr (False, s1))"

definition update_user_page_flags ::
  "paging \<Rightarrow> nat \<Rightarrow> nat \<Rightarrow> PageTableFlags \<Rightarrow> mem_state \<Rightarrow> (bool \<times> mem_state) res" where
  "update_user_page_flags pg pml4 vaddr flags s = (case s of (ms, m) \<Rightarrow>
     bind_res (virt_addr vaddr) (\<lambda>v.
     bind_res (phys_virt ms pml4) (\<lambda>_.
       case update_flags pg pml4 (page_base v) flags m of (ok, m') \<Rightarrow> Inr (ok, ms, m'))))"

text \<open>Allocate, zero and map pages one by one; what was mapped before a failure stays mapped.\<close>

fun alloc_and_map_user_pages ::
  "paging \<Rightarrow> nat \<Rightarrow> nat \<Rightarrow> nat \<Rightarrow> PageTableFlags \<Rightarrow> mem_state \<Rightarrow> (bool \<times> mem_state) res" where
  "alloc_and_map_user_pages pg 0 vaddr pml4 flags s = Inr (True, s)"
| "alloc_and_map_user_pages pg (Suc n) vaddr pml4 flags (ms, m) =
     bind_res (alloc_dma_pages 1 (ms, m)) (\<lambda>(fo, ms1).
       case fo of
         None \<Rightarrow> Inr (False, ms1, m)
       | Some f \<Rightarrow>
           bind_res (phys_virt ms1 f) (\<lambda>dst.
           bind_res (map_user_page pg pml4 vaddr f flags (ms1, write_bytes dst PAGE_SIZE 0 m)) (\<lambda>(ok, s2).
             if \<not> ok then Inr (False, s2)
             else if n = 0 then Inr (True, s2)
             else bind_res (add_u64 vaddr PAGE_SIZE) (\<lambda>vaddr'. alloc_and_map_user_pages pg n vaddr' pml4 flags s2))))"

subsection \<open>Giving back an address space\<close>

text \<open>One level of the walk: the entries \<open>0\<close> to \<open>n - 1\<close> of a table, those to skip left out.\<close>

definition table_loop ::
  "paging \<Rightarrow> nat \<Rightarrow> (nat \<Rightarrow> bool) \<Rightarrow> (nat \<Rightarrow> mem_state \<Rightarrow> mem_state res) \<Rightarrow> nat \<Rightarrow> mem_state \<Rightarrow> mem_state res" where
  "table_loop pg n skip body table s =
     bind_res (phys_virt (fst s) table) (\<lambda>base.
       fold_res (\<lambda>i s. let e = load_u64 (base + 8 * i) (snd s) in
                  if skip e then Inr s else body (pte_addr pg e) s) [0..<n] s)"

definition cleanup_pt :: "paging \<Rightarrow> nat \<Rightarrow> mem_state \<Rightarrow> mem_state res" where
  "cleanup_pt pg = table_loop pg 512 (pte_unused pg) (\<lambda>a. release_frame (page_base a))"

definition cleanup_pd :: "paging \<Rightarrow> nat \<Rightarrow> mem_state \<Rightarrow> mem_state res" where
  "cleanup_pd pg = table_loop pg 512 (\<lambda>e. pte_unused pg e \<or> pte_huge pg e)
     (\<lambda>pt s. bind_res (cleanup_pt pg pt s) (mem_dealloc (page_base pt)))"

definition cleanup_pdpt :: "paging \<Rightarrow> nat \<Rightarrow> mem_state \<Rightarrow> mem_state res" where
  "cleanup_pdpt pg = table_loop pg 512 (\<lambda>e. pte_unused pg e \<or> pte_huge pg e)
     (\<lambda>pd s. bind_res (cleanup_pd pg pd s) (mem_dealloc (page_base pd)))"

definition cleanup_user_address_space :: "paging \<Rightarrow> nat \<Rightarrow> mem_state \<Rightarrow> mem_state res" where
  "cleanup_user_address_space pg pml4 s =
     bind_res (table_loop pg 256 (pte_unused pg)
       (\<lambda>pdpt s. bind_res (cleanup_pdpt pg pdpt s) (mem_dealloc (page_base pdpt))) pml4 s)
       (mem_dealloc (page_base pml4))"

subsection \<open>What a page table holds\<close>

text \<open>The frames of an address space in the order in which the walk meets them: a reference to a
  leaf frame, or a table that is given back after its children.\<close>

datatype space_ref = Leaf nat | Table nat

definition plan_loop :: "paging \<Rightarrow> nat \<Rightarrow> (nat \<Rightarrow> bool) \<Rightarrow> (nat \<Rightarrow> space_ref list) \<Rightarrow> nat \<Rightarrow> nat \<Rightarrow> memory \<Rightarrow> space_ref list" where
  "plan_loop pg n skip child off t m =
     concat (map (\<lambda>i. let e = load_u64 (off + t + 8 * i) m in if skip e then [] else child (pte_addr pg e)) [0..<n])"

definition plan_pt :: "paging \<Rightarrow> nat \<Rightarrow> memory \<Rightarrow> nat \<Rightarrow> space_ref list" where
  "plan_pt pg off m t = plan_loop pg 512 (pte_unused pg) (\<lambda>a. [Leaf a]) off t m"

definition plan_pd :: "paging \<Rightarrow> nat \<Rightarrow> memory \<Rightarrow> nat \<Rightarrow> space_ref list" where
  "plan_pd pg off m t = plan_loop pg 512 (\<lambda>e. pte_unused pg e \<or> pte_huge pg e)
     (\<lambda>a. plan_pt pg off m a @ [Table a]) off t m"

definition plan_pdpt :: "paging \<Rightarrow> nat \<Rightarrow> memory \<Rightarrow> nat \<Rightarrow> space_ref list" where
  "plan_pdpt pg off m t = plan_loop pg 512 (\<lambda>e. pte_unused pg e \<or> pte_huge pg e)
     (\<lambda>a. plan_pd pg off m a @ [Table a]) off t m"

definition space_refs :: "paging \<Rightarrow> nat \<Rightarrow> memory \<Rightarrow> nat \<Rightarrow> space_ref list" where
  "space_refs pg off m t = plan_loop pg 256 (pte_unused pg) (\<lambda>a. plan_pdpt pg off m a @ [Table a]) off t m @ [Table t]"

fun tables_of :: "space_ref list \<Rightarrow> nat list" where
  "tables_of [] = []"
| "tables_of (Table f # rs) = f # tables_of rs"
| "tables_of (Leaf f # rs) = tables_of rs"

fun leaves_of :: "space_ref list \<Rightarrow> nat list" where
  "leaves_of [] = []"
| "leaves_of (Leaf f # rs) = f # leaves_of rs"
| "leaves_of (Table f # rs) = leaves_of rs"

definition drop_ref :: "space_ref \<Rightarrow> mem_state \<Rightarrow> mem_state res" where
  "drop_ref r s = (case r of Leaf f \<Rightarrow> release_frame f s | Table f \<Rightarrow> mem_dealloc f s)"

text \<open>The references to a frame: how many holders it has.\<close>

definition refs :: "MemoryServices \<Rightarrow> nat \<Rightarrow> nat" where
  "refs ms f = (case refcounts ms f of None \<Rightarrow> 1 | Some n \<Rightarrow> n)"

definition refcounts_ok :: "MemoryServices \<Rightarrow> bool" where
  "refcounts_ok ms \<longleftrightarrow> (\<forall>n\<in>ran (refcounts ms). 2 \<le> n \<and> n < 2 ^ 16)"

definition ref_frames :: "space_ref list \<Rightarrow> nat set" where
  "ref_frames rs = set (tables_of rs) \<union> set (leaves_of rs)"

text \<open>A page table is a tree: no table is reached twice, none is also a leaf; frames are pages of the
  window in which the kernel sees physical memory.\<close>

definition wf_refs :: "space_ref list \<Rightarrow> bool" where
  "wf_refs rs \<longleftrightarrow> distinct (tables_of rs) \<and> set (tables_of rs) \<inter> set (leaves_of rs) = {} \<and>
     (\<forall>f\<in>ref_frames rs. f mod 4096 = 0 \<and> f < 2 ^ 39)"

subsection \<open>The walk drops exactly these references\<close>

abbreviation run_refs :: "space_ref list \<Rightarrow> mem_state \<Rightarrow> mem_state res" where
  "run_refs \<equiv> fold_res drop_ref"

definition mapped_high :: "MemoryServices \<Rightarrow> bool" where
  "mapped_high ms \<longleftrightarrow> ms_phys_mem_offset ms = PHYS_MAP_BASE \<and> fa_phys_mem_offset (frame_allocator ms) = PHYS_MAP_BASE"

text \<open>Two memories that hold the same page-table entries in the tables \<open>T\<close>.\<close>

definition agree :: "memory \<Rightarrow> memory \<Rightarrow> nat set \<Rightarrow> bool" where
  "agree m m' T \<longleftrightarrow> (\<forall>t\<in>T. \<forall>i<512. load_u64 (PHYS_MAP_BASE + t + 8 * i) m' = load_u64 (PHYS_MAP_BASE + t + 8 * i) m)"

lemma tables_of_append [simp]: "tables_of (xs @ ys) = tables_of xs @ tables_of ys"
  by (induction xs rule: tables_of.induct) simp_all

lemma leaves_of_append [simp]: "leaves_of (xs @ ys) = leaves_of xs @ leaves_of ys"
  by (induction xs rule: leaves_of.induct) simp_all

lemma ref_frames_simps [simp]:
  "ref_frames [] = {}" "ref_frames (xs @ ys) = ref_frames xs \<union> ref_frames ys"
  "ref_frames (Table f # rs) = insert f (ref_frames rs)" "ref_frames (Leaf f # rs) = insert f (ref_frames rs)"
  by (auto simp: ref_frames_def)

lemma wf_refs_append: "wf_refs (xs @ ys) \<Longrightarrow> wf_refs xs \<and> wf_refs ys \<and> ref_frames xs \<inter> set (tables_of ys) = {}"
  by (auto simp: wf_refs_def ref_frames_def)

lemma fold_res_append: "fold_res f (xs @ ys) s = bind_res (fold_res f xs s) (fold_res f ys)"
  by (induction xs arbitrary: s) (simp_all add: bind_res_def split: sum.splits)

lemma drop_ref_simps: "drop_ref (Leaf f) s = release_frame f s" "drop_ref (Table f) s = mem_dealloc f s"
  by (simp_all add: drop_ref_def)

lemma bind_res_Inr [simp]: "bind_res r Inr = r"
  by (cases r) simp_all

lemma fold_res_one: "fold_res f [x] = f x"
proof
  have "fold_res f [] = Inr" by (rule ext) simp
  then show "fold_res f [x] s = f x s" for s by simp
qed

lemma drop_ref_frame:
  assumes "drop_ref r (ms, m) = Inr (ms', m')" and "mapped_high ms" and "ref_frames [r] = {f}"
  shows "mapped_high ms'" and "x < PHYS_MAP_BASE + f \<or> PHYS_MAP_BASE + f + 8 \<le> x \<Longrightarrow> m' x = m x"
  using assms
  by (auto simp: drop_ref_def release_frame_def mem_dealloc_def deallocate_frame_def ref_release_def
      mapped_high_def store_u64_def store_bytes_outside split: space_ref.splits if_splits option.splits)

lemma drop_ref_agree:
  assumes r: "drop_ref r (ms, m) = Inr (ms', m')" and "mapped_high ms" and f: "ref_frames [r] = {f}"
    and a: "f mod 4096 = 0" "\<forall>t\<in>T. t mod 4096 = 0 \<and> t \<noteq> f" and "agree m0 m T"
  shows "agree m0 m' T"
  unfolding agree_def
proof (intro ballI allI impI)
  fix t i :: nat assume t: "t \<in> T" and i: "i < 512"
  have "f + 4096 \<le> t \<or> t + 4096 \<le> f" using a t by (intro page_apart) auto
  then have "load_u64 (PHYS_MAP_BASE + t + 8 * i) m' = load_u64 (PHYS_MAP_BASE + t + 8 * i) m"
    using i by (intro load_u64_cong drop_ref_frame(2) [OF r assms(2) f]) auto
  with \<open>agree m0 m T\<close> t i show "load_u64 (PHYS_MAP_BASE + t + 8 * i) m' = load_u64 (PHYS_MAP_BASE + t + 8 * i) m0"
    by (simp add: agree_def)
qed

lemma run_refs_agree:
  assumes "run_refs rs s = Inr s'" and "mapped_high (fst s)" and "agree m0 (snd s) T"
    and "\<forall>f\<in>ref_frames rs. f mod 4096 = 0" and "\<forall>t\<in>T. t mod 4096 = 0 \<and> t \<notin> ref_frames rs"
  shows "mapped_high (fst s') \<and> agree m0 (snd s') T"
  using assms
proof (induction rs arbitrary: s)
  case Nil
  then show ?case by simp
next
  case (Cons r rs)
  obtain f where f: "ref_frames [r] = {f}" and rs: "ref_frames (r # rs) = insert f (ref_frames rs)"
    by (cases r) simp_all
  obtain s1 where s1: "drop_ref r s = Inr s1" "run_refs rs s1 = Inr s'" using Cons.prems(1) by auto
  obtain ms m ms1 m1 where p: "s = (ms, m)" "s1 = (ms1, m1)" by (cases s, cases s1)
  have "mapped_high ms1" using drop_ref_frame(1) [of r ms m ms1 m1 f] s1(1) f Cons.prems(2) p by simp
  moreover have "agree m0 m1 T"
    using Cons.prems(2-5) s1(1) p f rs by (intro drop_ref_agree [of r ms m ms1 m1 f]) auto
  ultimately show ?case using Cons.IH [OF s1(2)] Cons.prems(4,5) rs p by simp
qed

lemma agree_subset: "agree m0 m T \<Longrightarrow> T' \<subseteq> T \<Longrightarrow> agree m0 m T'"
  by (auto simp: agree_def)

text \<open>One level: when the loop body drops the references of a child, the loop drops those of all of
  them, although the frames given back on the way are overwritten.\<close>

lemma entries_loop:
  fixes pg m0 t skip child
  defines "pl \<equiv> \<lambda>i. let e = load_u64 (PHYS_MAP_BASE + t + 8 * i) m0 in if skip e then [] else child (pte_addr pg e)"
  assumes child: "\<And>a s. mapped_high (fst s) \<Longrightarrow> wf_refs (child a) \<Longrightarrow>
      agree m0 (snd s) (set (tables_of (child a))) \<Longrightarrow> body a s = run_refs (child a) s"
    and "\<forall>i\<in>set is. i < 512" and "wf_refs (concat (map pl is) @ [Table t])" and "mapped_high (fst s)"
    and "agree m0 (snd s) (set (tables_of (concat (map pl is) @ [Table t])))"
  shows "fold_res (\<lambda>i s. let e = load_u64 (PHYS_MAP_BASE + t + 8 * i) (snd s) in
           if skip e then Inr s else body (pte_addr pg e) s) is s = run_refs (concat (map pl is)) s"
    (is "fold_res ?step is s = _")
  using assms(3-)
proof (induction "is" arbitrary: s)
  case Nil
  then show ?case by simp
next
  case (Cons i "is")
  let ?rest = "concat (map pl is) @ [Table t]"
  have wf: "wf_refs (pl i)" "wf_refs ?rest" "ref_frames (pl i) \<inter> set (tables_of ?rest) = {}"
    using wf_refs_append [of "pl i" ?rest] Cons.prems(2) by simp_all
  have e: "load_u64 (PHYS_MAP_BASE + t + 8 * i) (snd s) = load_u64 (PHYS_MAP_BASE + t + 8 * i) m0"
    using Cons.prems(1,4) by (simp add: agree_def)
  have ag: "agree m0 (snd s) (set (tables_of (pl i)))" "agree m0 (snd s) (set (tables_of ?rest))"
    using Cons.prems(4) by (auto elim: agree_subset)
  have step: "?step i s = run_refs (pl i) s"
    using child [OF Cons.prems(3)] wf(1) ag(1) by (simp add: e pl_def Let_def split: if_splits)
  show ?case
  proof (cases "run_refs (pl i) s")
    case (Inl p)
    then show ?thesis using step by (simp add: fold_res_append)
  next
    case (Inr s1)
    have "mapped_high (fst s1) \<and> agree m0 (snd s1) (set (tables_of ?rest))"
      using wf by (intro run_refs_agree [OF Inr Cons.prems(3) ag(2)]) (auto simp: wf_refs_def ref_frames_def)
    with Cons.IH [of s1] Cons.prems(1) wf(2) Inr step show ?thesis by (simp add: fold_res_append)
  qed
qed


lemma phys_virt_high: "mapped_high ms \<Longrightarrow> t < 2 ^ 39 \<Longrightarrow> phys_virt ms t = Inr (PHYS_MAP_BASE + t)"
  by (simp add: phys_virt_def mapped_high_def virt_addr_def const_defs add_u64_def)

lemma page_base_aligned: "t mod 4096 = 0 \<Longrightarrow> page_base t = t"
  by (simp add: page_base_def const_defs)

lemma table_loop_plan:
  fixes m0 :: memory
  assumes child: "\<And>a s. mapped_high (fst s) \<Longrightarrow> wf_refs (child a) \<Longrightarrow>
      agree m0 (snd s) (set (tables_of (child a))) \<Longrightarrow> body a s = run_refs (child a) s"
    and n: "n \<le> 512" and high: "mapped_high (fst s)"
    and wf: "wf_refs (plan_loop pg n skip child PHYS_MAP_BASE t m0 @ [Table t])"
    and ag: "agree m0 (snd s) (set (tables_of (plan_loop pg n skip child PHYS_MAP_BASE t m0 @ [Table t])))"
  shows "bind_res (table_loop pg n skip body t s) (mem_dealloc (page_base t)) =
    run_refs (plan_loop pg n skip child PHYS_MAP_BASE t m0 @ [Table t]) s"
proof -
  have t: "t mod 4096 = 0" "t < 2 ^ 39" using wf by (auto simp: wf_refs_def)
  have "table_loop pg n skip body t s = run_refs (plan_loop pg n skip child PHYS_MAP_BASE t m0) s"
    unfolding table_loop_def phys_virt_high [OF high t(2)] bind_res_simps plan_loop_def
    using n wf ag high child by (intro entries_loop) (auto simp: plan_loop_def)
  moreover have "drop_ref (Table t) = mem_dealloc t" by (rule ext) (simp add: drop_ref_def)
  ultimately show ?thesis by (simp only: fold_res_append page_base_aligned [OF t(1)] fold_res_one)
qed

lemma cleanup_pt_plan:
  assumes "mapped_high (fst s)" and "wf_refs (plan_pt pg PHYS_MAP_BASE m0 t @ [Table t])"
    and "agree m0 (snd s) (set (tables_of (plan_pt pg PHYS_MAP_BASE m0 t @ [Table t])))"
  shows "bind_res (cleanup_pt pg t s) (mem_dealloc (page_base t)) = run_refs (plan_pt pg PHYS_MAP_BASE m0 t @ [Table t]) s"
  unfolding cleanup_pt_def plan_pt_def
proof (rule table_loop_plan)
  fix a :: nat and s :: mem_state assume "wf_refs [Leaf a]"
  then show "release_frame (page_base a) s = run_refs [Leaf a] s"
    by (simp add: drop_ref_def wf_refs_def page_base_aligned fold_res_one del: fold_res.simps)
qed (use assms in \<open>simp_all add: plan_pt_def\<close>)

lemma cleanup_pd_plan:
  assumes "mapped_high (fst s)" and "wf_refs (plan_pd pg PHYS_MAP_BASE m0 t @ [Table t])"
    and "agree m0 (snd s) (set (tables_of (plan_pd pg PHYS_MAP_BASE m0 t @ [Table t])))"
  shows "bind_res (cleanup_pd pg t s) (mem_dealloc (page_base t)) = run_refs (plan_pd pg PHYS_MAP_BASE m0 t @ [Table t]) s"
  unfolding cleanup_pd_def plan_pd_def
  by (rule table_loop_plan [OF cleanup_pt_plan]) (use assms in \<open>simp_all add: plan_pd_def\<close>)

lemma cleanup_pdpt_plan:
  assumes "mapped_high (fst s)" and "wf_refs (plan_pdpt pg PHYS_MAP_BASE m0 t @ [Table t])"
    and "agree m0 (snd s) (set (tables_of (plan_pdpt pg PHYS_MAP_BASE m0 t @ [Table t])))"
  shows "bind_res (cleanup_pdpt pg t s) (mem_dealloc (page_base t)) = run_refs (plan_pdpt pg PHYS_MAP_BASE m0 t @ [Table t]) s"
  unfolding cleanup_pdpt_def plan_pdpt_def
  by (rule table_loop_plan [OF cleanup_pd_plan]) (use assms in \<open>simp_all add: plan_pdpt_def\<close>)

lemma cleanup_space_plan:
  assumes "mapped_high ms" and "wf_refs (space_refs pg PHYS_MAP_BASE m t)"
  shows "cleanup_user_address_space pg t (ms, m) = run_refs (space_refs pg PHYS_MAP_BASE m t) (ms, m)"
  unfolding cleanup_user_address_space_def space_refs_def
  by (rule table_loop_plan [OF cleanup_pdpt_plan]) (use assms in \<open>simp_all add: space_refs_def agree_def\<close>)

subsection \<open>Dropping references\<close>

lemma ref_release_refs:
  assumes "refcounts_ok ms"
  obtains ms' where "ref_release f ms = Inr (refs ms f = 1, ms')" "refcounts_ok ms'"
    "frame_allocator ms' = frame_allocator ms" "ms_phys_mem_offset ms' = ms_phys_mem_offset ms"
    "\<forall>g. g \<noteq> f \<longrightarrow> refs ms' g = refs ms g" "refs ms f \<noteq> 1 \<longrightarrow> refs ms' f = refs ms f - 1" "1 \<le> refs ms f"
proof (cases "refcounts ms f")
  case None
  show ?thesis
  proof (rule that)
    show "ref_release f ms = Inr (refs ms f = 1, ms)" using None by (simp add: ref_release_def refs_def)
  qed (use assms None in \<open>simp_all add: refs_def\<close>)
next
  case (Some n)
  then have n: "2 \<le> n" "n < 2 ^ 16" using assms by (auto simp: refcounts_ok_def ran_def)
  define ms' where "ms' = ms\<lparr>refcounts := (refcounts ms)(f := if n - 1 \<le> 1 then None else Some (n - 1))\<rparr>"
  show ?thesis
  proof (rule that)
    show "ref_release f ms = Inr (refs ms f = 1, ms')"
      using Some n by (simp add: ref_release_def refs_def ms'_def)
    show "refcounts_ok ms'" using assms n by (auto simp: refcounts_ok_def ms'_def ran_def split: if_splits)
  qed (use n Some in \<open>auto simp: refs_def ms'_def\<close>)
qed

lemma ref_share_refs:
  "refs ms f + 1 < 2 ^ 16 \<Longrightarrow> ref_share f ms = Inr (ms\<lparr>refcounts := (refcounts ms)(f \<mapsto> refs ms f + 1)\<rparr>)"
  by (simp add: ref_share_def refs_def split: option.splits)

lemma dealloc_history:
  assumes h: "frame_history mm (frame_allocator ms) m live freed" and mm: "memory_map_ok mm"
    and high: "mapped_high ms" and f: "f \<in> set live"
  obtains ms' m' where "mem_dealloc f (ms, m) = Inr (ms', m')" "mapped_high ms'" "refcounts ms' = refcounts ms"
    "frame_history mm (frame_allocator ms') m' (remove1 f live) (f # freed)"
    "set (remove1 f live) = set live - {f}"
proof -
  note ok = history_frames_ok [OF h mm]
  have "PHYS_MAP_BASE + f < 2 ^ 64" using frames_ok_virt [OF ok mm, of f] f high by (simp add: mapped_high_def)
  then obtain fa m' where d: "deallocate_frame f (frame_allocator ms) m = Inr (fa, m')" "fa_phys_mem_offset fa = PHYS_MAP_BASE"
    using high by (simp add: deallocate_frame_def mapped_high_def add_u64_def const_defs)
  from ok have "distinct live" by (simp add: frames_ok_def)
  then show ?thesis
    using that [of "ms\<lparr>frame_allocator := fa\<rparr>" m'] d high dealloc [OF h f d(1)]
    by (simp add: mem_dealloc_def mapped_high_def set_remove1_eq)
qed


lemma release_frame_cases:
  assumes h: "frame_history mm (frame_allocator ms) m live freed" and mm: "memory_map_ok mm"
    and high: "mapped_high ms" and ok: "refcounts_ok ms" and f: "f \<in> set live"
  obtains (last) ms' m' where "refs ms f = 1" "release_frame f (ms, m) = Inr (ms', m')" "mapped_high ms'" "refcounts_ok ms'"
      "frame_history mm (frame_allocator ms') m' (remove1 f live) (f # freed)" "set (remove1 f live) = set live - {f}"
      "\<And>g. g \<noteq> f \<Longrightarrow> refs ms' g = refs ms g"
    | (more) ms' where "1 < refs ms f" "release_frame f (ms, m) = Inr (ms', m)" "mapped_high ms'" "refcounts_ok ms'"
      "frame_history mm (frame_allocator ms') m live freed" "\<And>g. g \<noteq> f \<Longrightarrow> refs ms' g = refs ms g"
      "refs ms' f = refs ms f - 1"
proof -
  obtain ms1 where rel: "ref_release f ms = Inr (refs ms f = 1, ms1)" "refcounts_ok ms1"
    "frame_allocator ms1 = frame_allocator ms" "ms_phys_mem_offset ms1 = ms_phys_mem_offset ms"
    "\<forall>g. g \<noteq> f \<longrightarrow> refs ms1 g = refs ms g" "refs ms f \<noteq> 1 \<longrightarrow> refs ms1 f = refs ms f - 1" "1 \<le> refs ms f"
    by (rule ref_release_refs [OF ok, of f])
  have high1: "mapped_high ms1" using high rel(3,4) by (simp add: mapped_high_def)
  have h1: "frame_history mm (frame_allocator ms1) m live freed" using h rel(3) by simp
  show ?thesis
  proof (cases "refs ms f = 1")
    case True
    obtain ms2 m2 where d: "mem_dealloc f (ms1, m) = Inr (ms2, m2)" "mapped_high ms2" "refcounts ms2 = refcounts ms1"
      "frame_history mm (frame_allocator ms2) m2 (remove1 f live) (f # freed)" "set (remove1 f live) = set live - {f}"
      by (rule dealloc_history [OF h1 mm high1 f])
    show ?thesis
      by (rule last [OF True _ d(2) _ d(4,5)])
        (use rel(1,2,5) d(1,3) True in \<open>simp_all add: release_frame_def refcounts_ok_def refs_def\<close>)
  next
    case False
    show ?thesis
      by (rule more [OF _ _ high1 rel(2) h1])
        (use rel(1,5,6,7) False in \<open>simp_all add: release_frame_def\<close>)
  qed
qed

text \<open>Dropping the references of a list in order: a table goes back at once, a leaf frame with the last
  of its references. \<open>fs\<close> are the frames given back.\<close>

definition freed_by :: "space_ref list \<Rightarrow> MemoryServices \<Rightarrow> nat set" where
  "freed_by rs ms = set (tables_of rs) \<union> {f \<in> set (leaves_of rs). count_list (leaves_of rs) f = refs ms f}"

definition after_drops ::
  "MemoryMap \<Rightarrow> space_ref list \<Rightarrow> MemoryServices \<Rightarrow> nat list \<Rightarrow> nat list \<Rightarrow> mem_state \<Rightarrow> nat list \<Rightarrow> nat list \<Rightarrow> bool" where
  "after_drops mm rs ms live freed s live' fs \<longleftrightarrow>
     frame_history mm (frame_allocator (fst s)) (snd s) live' (fs @ freed) \<and> set live' = set live - set fs \<and>
     set fs = freed_by rs ms \<and>
     (\<forall>f. f \<notin> set fs \<longrightarrow> refs (fst s) f = refs ms f - count_list (leaves_of rs) f) \<and>
     refcounts_ok (fst s) \<and> mapped_high (fst s)"

lemma after_drops_table:
  assumes "after_drops mm rs ms1 live1 (f # freed) s live' fs" and "set live1 = set live - {f}"
    and "refcounts ms1 = refcounts ms"
  shows "after_drops mm (Table f # rs) ms live freed s live' (fs @ [f])"
proof -
  have "refs ms1 = refs ms" by (rule ext) (simp add: refs_def assms(3))
  with assms(1,2) show ?thesis by (auto simp: after_drops_def freed_by_def)
qed

lemma after_drops_last:
  assumes "after_drops mm rs ms1 live1 (f # freed) s live' fs" and "set live1 = set live - {f}"
    and "\<And>g. g \<noteq> f \<Longrightarrow> refs ms1 g = refs ms g" and "refs ms f = 1" and "f \<notin> ref_frames rs"
  shows "after_drops mm (Leaf f # rs) ms live freed s live' (fs @ [f])"
proof -
  have n: "f \<notin> set (leaves_of rs)" "f \<notin> set (tables_of rs)" using assms(5) by (auto simp: ref_frames_def)
  then have "insert f (freed_by rs ms1) = freed_by (Leaf f # rs) ms"
    using assms(3,4) by (auto simp: freed_by_def count_list_0_iff)
  with assms(1-3) n show ?thesis by (auto simp: after_drops_def)
qed

lemma after_drops_more:
  assumes "after_drops mm rs ms1 live freed s live' fs"
    and "\<And>g. g \<noteq> f \<Longrightarrow> refs ms1 g = refs ms g" and "refs ms1 f = refs ms f - 1" and "1 < refs ms f"
    and "f \<notin> set (tables_of rs)"
  shows "after_drops mm (Leaf f # rs) ms live freed s live' fs"
proof -
  have "freed_by rs ms1 = freed_by (Leaf f # rs) ms"
  proof (rule set_eqI)
    fix g show "g \<in> freed_by rs ms1 \<longleftrightarrow> g \<in> freed_by (Leaf f # rs) ms"
    proof (cases "g = f")
      case True
      have "count_list (leaves_of rs) f = refs ms f - 1 \<Longrightarrow> f \<in> set (leaves_of rs)"
        using assms(4) count_list_0_iff [of "leaves_of rs" f] by fastforce
      with True assms(3-5) show ?thesis by (auto simp: freed_by_def)
    qed (use assms(2) in \<open>auto simp: freed_by_def\<close>)
  qed
  moreover have "refs ms1 g - count_list (leaves_of rs) g = refs ms g - count_list (leaves_of (Leaf f # rs)) g" for g
    using assms(2-4) by (cases "g = f") auto
  ultimately show ?thesis using assms(1) by (simp add: after_drops_def)
qed

lemma run_refs_history:
  assumes mm: "memory_map_ok mm"
    and "frame_history mm (frame_allocator ms) m live freed" and "mapped_high ms" and "refcounts_ok ms"
    and "wf_refs rs" and "ref_frames rs \<subseteq> set live" and "\<forall>f\<in>set (leaves_of rs). count_list (leaves_of rs) f \<le> refs ms f"
  shows "\<exists>s live' fs. run_refs rs (ms, m) = Inr s \<and> after_drops mm rs ms live freed s live' fs"
  using assms(2-)
proof (induction rs arbitrary: ms m live freed)
  case Nil
  then have "after_drops mm [] ms live freed (ms, m) live []" by (simp add: after_drops_def freed_by_def)
  then show ?case by (metis fold_res.simps(1))
next
  case (Cons r rs)
  have wf: "wf_refs rs" using wf_refs_append [of "[r]" rs] Cons.prems(4) by simp
  show ?case
  proof (cases r)
    case (Table f)
    have f: "f \<in> set live" "ref_frames rs \<subseteq> set live - {f}"
      using Cons.prems(4,5) Table by (auto simp: wf_refs_def ref_frames_def)
    obtain ms1 m1 where d: "mem_dealloc f (ms, m) = Inr (ms1, m1)" "mapped_high ms1" "refcounts ms1 = refcounts ms"
      "frame_history mm (frame_allocator ms1) m1 (remove1 f live) (f # freed)" "set (remove1 f live) = set live - {f}"
      by (rule dealloc_history [OF Cons.prems(1) mm Cons.prems(2) f(1)])
    then show ?thesis
      using Cons.IH [OF d(4,2) _ wf] f(2) Cons.prems(3,6) Table after_drops_table [OF _ d(5,3)]
      by (fastforce simp: refcounts_ok_def refs_def drop_ref_simps)
  next
    case (Leaf f)
    have f: "f \<in> set live" "f \<notin> set (tables_of rs)" "count_list (leaves_of rs) f + 1 \<le> refs ms f"
      and bound: "\<And>g. g \<noteq> f \<Longrightarrow> g \<in> set (leaves_of rs) \<Longrightarrow> count_list (leaves_of rs) g \<le> refs ms g"
      and sub: "ref_frames rs \<subseteq> set live"
      using Cons.prems(4-6) Leaf by (auto simp: wf_refs_def split: if_splits)
    from Cons.prems(1) mm Cons.prems(2,3) f(1) show ?thesis
    proof (cases rule: release_frame_cases)
      case (last ms' m')
      have n: "f \<notin> ref_frames rs" using f(2,3) last(1) by (auto simp: ref_frames_def count_list_0_iff)
      have "\<forall>g\<in>set (leaves_of rs). count_list (leaves_of rs) g \<le> refs ms' g"
        using bound last(7) n by (metis UnCI ref_frames_def)
      then have "\<exists>s live' fs. run_refs rs (ms', m') = Inr s \<and> after_drops mm rs ms' (remove1 f live) (f # freed) s live' fs"
        using sub n last(6) by (intro Cons.IH last wf) auto
      then show ?thesis using last(2) after_drops_last [OF _ last(6,7,1) n] Leaf by (fastforce simp: drop_ref_simps)
    next
      case (more ms')
      have "\<forall>g\<in>set (leaves_of rs). count_list (leaves_of rs) g \<le> refs ms' g"
        using bound more(6,7) f(3) by (metis Nat.le_diff_conv2 One_nat_def add.commute le_add1 le_trans plus_1_eq_Suc)
      then have "\<exists>s live' fs. run_refs rs (ms', m) = Inr s \<and> after_drops mm rs ms' live freed s live' fs"
        by (intro Cons.IH more wf sub)
      then show ?thesis using more(2) after_drops_more [OF _ more(6,7,1) f(2)] Leaf by (fastforce simp: drop_ref_simps)
    qed
  qed
qed


subsection \<open>The property\<close>

text \<open>
  C29: Giving back an address space, whose page tables form a tree in physical memory and whose leaf
  frames are counted, walks the tables while it overwrites them and yet returns to the free list
  exactly the tables and those leaf frames whose last references it held, each once; every other
  frame keeps its holders, less the references of this address space. The allocator's history
  goes on, so that nothing given back is in use.
\<close>
theorem address_space_given_back:
  assumes "memory_map_ok mm" and "frame_history mm (frame_allocator ms) m live freed"
    and "mapped_high ms" and "refcounts_ok ms"
    and "wf_refs (space_refs pg PHYS_MAP_BASE m pml4)"
    and "ref_frames (space_refs pg PHYS_MAP_BASE m pml4) \<subseteq> set live"
    and "\<forall>f\<in>set (leaves_of (space_refs pg PHYS_MAP_BASE m pml4)).
           count_list (leaves_of (space_refs pg PHYS_MAP_BASE m pml4)) f \<le> refs ms f"
  shows "run_res (cleanup_user_address_space pg pml4 (ms, m)) (\<lambda>(ms', m').
    \<exists>live' fs. frame_history mm (frame_allocator ms') m' live' (fs @ freed) \<and> distinct fs \<and>
      set live' = set live - set fs \<and> set fs = freed_by (space_refs pg PHYS_MAP_BASE m pml4) ms \<and>
      (\<forall>f. f \<notin> set fs \<longrightarrow> refs ms' f = refs ms f - count_list (leaves_of (space_refs pg PHYS_MAP_BASE m pml4)) f))"
proof -
  obtain s live' fs where s: "run_refs (space_refs pg PHYS_MAP_BASE m pml4) (ms, m) = Inr s"
    and d: "after_drops mm (space_refs pg PHYS_MAP_BASE m pml4) ms live freed s live' fs"
    using run_refs_history [OF assms] by blast
  from d have h: "frame_history mm (frame_allocator (fst s)) (snd s) live' (fs @ freed)" by (simp add: after_drops_def)
  then have "distinct fs" using history_frames_ok [OF h assms(1)] by (simp add: frames_ok_def)
  with d show ?thesis
    unfolding cleanup_space_plan [OF assms(3,5)] s run_res_iff after_drops_def
    by (cases s) (simp, intro exI [of _ live'] exI [of _ fs], simp)
qed

text \<open>An address space of one private and one shared page, in a machine of six frames.\<close>

definition six_frames :: MemoryMap where
  "six_frames = [\<lparr>start_addr = 0x1000, end_addr = 0x7000, region_usable = True\<rparr>]"

definition plain_paging :: paging where
  "plain_paging = \<lparr>pte_unused = (\<lambda>e. e = 0), pte_addr = (\<lambda>e. e - e mod 4096), pte_huge = (\<lambda>e. odd (e div 128)),
     pte_of_frame = (\<lambda>f. f + 3), map_to = (\<lambda>_ _ _ _ s. (False, s)), map_active = (\<lambda>_ _ _ s. (False, s)),
     unmap_page = (\<lambda>_ _ m. (None, m)), update_flags = (\<lambda>_ _ _ m. (False, m))\<rparr>"

definition space_memory :: memory where
  "space_memory = store_u64 (PHYS_MAP_BASE + 0x1000) 0x2003 (store_u64 (PHYS_MAP_BASE + 0x2000) 0x3003
     (store_u64 (PHYS_MAP_BASE + 0x3000) 0x4003 (store_u64 (PHYS_MAP_BASE + 0x4000) 0x5003
     (store_u64 (PHYS_MAP_BASE + 0x4008) 0x6003 (\<lambda>_. 0)))))"

definition space_services :: MemoryServices where
  "space_services = \<lparr>frame_allocator = \<lparr>fa_memory_map = six_frames, fa_next = 6, free_head = 0, fa_phys_mem_offset = PHYS_MAP_BASE\<rparr>,
     ms_phys_mem_offset = PHYS_MAP_BASE, ms_memory_map = six_frames, mmio_next = MMIO_VIRT_BASE, mmio_cache = Map.empty,
     refcounts = [0x6000 \<mapsto> 2]\<rparr>"

lemma six_frame_addresses: "frame_addresses six_frames = [0x1000, 0x2000, 0x3000, 0x4000, 0x5000, 0x6000]"
proof -
  have "[0..<(0x7000 - 0x1000 + 4095) div 4096] = [0, 1, 2, 3, 4, 5 :: nat]"
    by (simp add: upt_rec)
  then show ?thesis by (simp add: frame_addresses_def six_frames_def step_by_page_def)
qed

lemma six_frames_ok: "memory_map_ok six_frames"
  by (simp add: memory_map_ok_def six_frame_addresses)

lemma space_history:
  "frame_history six_frames (frame_allocator space_services) space_memory (rev (frame_addresses six_frames)) []"
proof -
  let ?a = "set_phys_mem_offset PHYS_MAP_BASE (set_memory_map six_frames (frame_allocator_init six_frames))"
  have "n \<le> 6 \<Longrightarrow> frame_history six_frames (?a\<lparr>fa_next := n\<rparr>) space_memory (rev (take n (frame_addresses six_frames))) []" for n
  proof (induction n)
    case 0
    have "?a\<lparr>fa_next := 0\<rparr> = ?a" by (simp add: set_phys_mem_offset_def set_memory_map_def frame_allocator_init_def)
    moreover have "frame_history six_frames ?a space_memory [] []" by (intro frame_history.intros)
    ultimately show ?case by simp
  next
    case (Suc n)
    then have n: "n < length (frame_addresses six_frames)" by (simp add: six_frame_addresses)
    have "allocate_frame_sequential (?a\<lparr>fa_next := n\<rparr>) = Inr (Some (frame_addresses six_frames ! n), ?a\<lparr>fa_next := Suc n\<rparr>)"
      using n Suc.prems by (simp add: allocate_frame_sequential_def set_phys_mem_offset_def set_memory_map_def
          usable_nth [OF six_frames_ok] add_u64_ok)
    from sequential [OF Suc.IH this] Suc.prems n show ?case by (simp add: take_Suc_conv_app_nth)
  qed
  from this [of 6] show ?thesis
    by (simp add: space_services_def six_frame_addresses set_phys_mem_offset_def set_memory_map_def frame_allocator_init_def)
qed

lemma plan_loop_prefix:
  assumes "k \<le> n" and "\<forall>i. k \<le> i \<and> i < n \<longrightarrow> skip (load_u64 (off + t + 8 * i) m)"
  shows "plan_loop pg n skip child off t m = plan_loop pg k skip child off t m"
proof -
  have "[0..<n] = [0..<k] @ [k..<n]" using assms(1) by (metis le_add_diff_inverse upt_add_eq_append zero_le)
  moreover have "concat (map (\<lambda>i. let e = load_u64 (off + t + 8 * i) m in if skip e then [] else child (pte_addr pg e)) [k..<n]) = []"
    using assms(2) by auto
  ultimately show ?thesis by (simp add: plan_loop_def)
qed


lemma space_entry:
  assumes "t \<in> {0x1000, 0x2000, 0x3000, 0x4000}" and "i < 512"
  shows "load_u64 (PHYS_MAP_BASE + t + 8 * i) space_memory =
    (if i = 0 then t + 0x1003 else if t = 0x4000 \<and> i = 1 then 0x6003 else 0)"
proof -
  have zero: "load_u64 a (\<lambda>_. 0) = 0" for a
    by (simp add: load_u64_def load_bytes_def upt_rec)
  have same: "load_u64 (0x4008 + PHYS_MAP_BASE) (store_u64 (PHYS_MAP_BASE + 0x4008) 0x6003 m) = 0x6003" for m
    using load_store_u64_same [of "0x6003" "PHYS_MAP_BASE + 0x4008" m] by (simp add: add.commute)
  show ?thesis
    using assms by (auto simp: space_memory_def load_store_u64_same load_store_u64_disjoint zero same)
qed

lemma space_refs_example:
  "space_refs plain_paging PHYS_MAP_BASE space_memory 0x1000 =
     [Leaf 0x5000, Leaf 0x6000, Table 0x4000, Table 0x3000, Table 0x2000, Table 0x1000]"
proof -
  let ?sk = "pte_unused plain_paging" and ?sh = "\<lambda>e. pte_unused plain_paging e \<or> pte_huge plain_paging e"
  have unused: "pte_unused plain_paging = (\<lambda>e. e = 0)" "pte_addr plain_paging = (\<lambda>e. e - e mod 4096)"
    "pte_huge plain_paging = (\<lambda>e. odd (e div 128))"
    by (simp_all add: plain_paging_def)
  have one: "plan_loop plain_paging n skip child PHYS_MAP_BASE t space_memory = child (t + 0x1000)"
    if "t \<in> {0x1000, 0x2000, 0x3000}" "1 \<le> n" "n \<le> 512" "skip 0" "\<not> skip (t + 0x1003)" for t n skip child
  proof -
    have "plan_loop plain_paging n skip child PHYS_MAP_BASE t space_memory =
        plan_loop plain_paging 1 skip child PHYS_MAP_BASE t space_memory"
      using that by (intro plan_loop_prefix) (auto simp: space_entry)
    also have "\<dots> = child (t + 0x1000)"
      using that space_entry [of t 0] by (auto simp: plan_loop_def unused)
    finally show ?thesis .
  qed
  have "plan_pt plain_paging PHYS_MAP_BASE space_memory 0x4000 =
      plan_loop plain_paging 2 ?sk (\<lambda>a. [Leaf a]) PHYS_MAP_BASE 0x4000 space_memory"
    unfolding plan_pt_def by (intro plan_loop_prefix) (auto simp: space_entry unused)
  also have "\<dots> = [Leaf 0x5000, Leaf 0x6000]"
    using space_entry [of "0x4000" 0] space_entry [of "0x4000" 1] by (simp add: plan_loop_def unused upt_rec)
  finally have "plan_pt plain_paging PHYS_MAP_BASE space_memory 0x4000 = [Leaf 0x5000, Leaf 0x6000]" .
  moreover have "plan_pd plain_paging PHYS_MAP_BASE space_memory 0x3000 =
      plan_pt plain_paging PHYS_MAP_BASE space_memory 0x4000 @ [Table 0x4000]"
    unfolding plan_pd_def by (subst one) (simp_all add: unused)
  moreover have "plan_pdpt plain_paging PHYS_MAP_BASE space_memory 0x2000 =
      plan_pd plain_paging PHYS_MAP_BASE space_memory 0x3000 @ [Table 0x3000]"
    unfolding plan_pdpt_def by (subst one) (simp_all add: unused)
  moreover have "space_refs plain_paging PHYS_MAP_BASE space_memory 0x1000 =
      plan_pdpt plain_paging PHYS_MAP_BASE space_memory 0x2000 @ [Table 0x2000, Table 0x1000]"
    unfolding space_refs_def by (subst one) (simp_all add: unused)
  ultimately show ?thesis by simp
qed

theorem address_space_given_back_witness:
  "run_res (cleanup_user_address_space plain_paging 0x1000 (space_services, space_memory)) (\<lambda>(ms', m').
    \<exists>live' fs. frame_history six_frames (frame_allocator ms') m' live' fs \<and> set live' = {0x6000} \<and>
      set fs = {0x1000, 0x2000, 0x3000, 0x4000, 0x5000} \<and> refs ms' 0x6000 = 1)"
proof -
  have "mapped_high space_services" "refcounts_ok space_services"
    by (simp_all add: mapped_high_def refcounts_ok_def space_services_def)
  note given = address_space_given_back [OF six_frames_ok space_history this, of plain_paging "0x1000"]
  have r: "refs space_services f = (if f = 0x6000 then 2 else 1)" for f by (simp add: refs_def space_services_def)
  have fr: "freed_by (space_refs plain_paging PHYS_MAP_BASE space_memory 0x1000) space_services =
      {0x1000, 0x2000, 0x3000, 0x4000, 0x5000}"
    by (auto simp: freed_by_def space_refs_example r)
  have lv: "leaves_of (space_refs plain_paging PHYS_MAP_BASE space_memory 0x1000) = [0x5000, 0x6000]"
    by (simp add: space_refs_example)
  have "wf_refs (space_refs plain_paging PHYS_MAP_BASE space_memory 0x1000)"
    "ref_frames (space_refs plain_paging PHYS_MAP_BASE space_memory 0x1000) \<subseteq> set (rev (frame_addresses six_frames))"
    "\<forall>f\<in>set [0x5000, 0x6000]. count_list [0x5000, 0x6000] f \<le> refs space_services f"
    by (simp_all add: wf_refs_def space_refs_example six_frame_addresses r)
  from given [unfolded lv fr, OF this]
  obtain ms' m' live' fs where c: "cleanup_user_address_space plain_paging 0x1000 (space_services, space_memory) = Inr (ms', m')"
    and h: "frame_history six_frames (frame_allocator ms') m' live' fs" and l: "set live' = set (frame_addresses six_frames) - set fs"
    and fs: "set fs = {0x1000, 0x2000, 0x3000, 0x4000, 0x5000}"
    and k: "\<forall>f. f \<notin> set fs \<longrightarrow> refs ms' f = refs space_services f - count_list [0x5000, 0x6000] f"
    by (auto simp: run_res_iff)
  have "set live' = {0x6000}" unfolding l fs six_frame_addresses by auto
  moreover have "refs ms' 0x6000 = 1" using k fs by (simp add: r)
  ultimately show ?thesis unfolding c run_res_iff using h fs by blast
qed

end
