(* ===== verification/Mm_Syscalls.thy ===== *)
theory Mm_Syscalls
  imports Fd_Syscalls Memory_Services
begin

text \<open>
  The memory system calls of \<^verbatim>\<open>osl/src/syscalls/mem.rs\<close> (brk, mmap, munmap, mprotect), and the frames of
  shared memory objects and of completion rings. They join three components: the table of areas of
  the process, the page tables and frame counts of the memory services, and the descriptor table.
\<close>

definition USER_DATA_FLAGS :: PageTableFlags where
  "USER_DATA_FLAGS = \<lparr>PRESENT = True, WRITABLE = True, USER_ACCESSIBLE = True, NO_EXECUTE = True\<rparr>"

definition page_up :: "nat \<Rightarrow> nat res" where
  "page_up l = bind_res (add_u64 l PAGE_MASK) (\<lambda>x. Inr (page_base x))"

definition pages_from :: "nat \<Rightarrow> nat \<Rightarrow> nat list" where
  "pages_from base n = map (\<lambda>i. base + i * PAGE_SIZE) [0..<n]"

definition range_pages :: "(nat \<times> nat) list \<Rightarrow> nat list" where
  "range_pages rs = concat (map (\<lambda>(base, n). pages_from base n) rs)"

definition for_pages :: "(nat \<Rightarrow> mem_state \<Rightarrow> (bool \<times> mem_state) res) \<Rightarrow> nat list \<Rightarrow> mem_state \<Rightarrow> mem_state res" where
  "for_pages f = fold_res (\<lambda>v s. bind_res (f v s) (\<lambda>(_, s'). Inr s'))"

subsection \<open>brk\<close>

definition sys_brk :: "paging \<Rightarrow> nat \<Rightarrow> system \<Rightarrow> mem_state \<Rightarrow> (nat \<times> system \<times> mem_state) res" where
  "sys_brk pg addr st s =
     (let pid = running_pid st in
      if pid = KERNEL_PID then Inr (0, st, s)
      else case get_proc pid st of
        None \<Rightarrow> Inr (0, st, s)
      | Some p \<Rightarrow>
          if addr = 0 \<or> addr < brk_base p then Inr (brk_current p, st, s)
          else bind_res (page_up addr) (\<lambda>new_brk.
            if new_brk < brk_current p then
              bind_res (for_pages (unmap_and_free_user_page pg (pml4_phys p))
                  (pages_from new_brk ((brk_current p - new_brk) div PAGE_SIZE)) s) (\<lambda>s'.
                Inr (new_brk, upd_proc pid (\<lambda>p. p\<lparr>brk_current := new_brk\<rparr>) st, s'))
            else if new_brk = brk_current p then Inr (new_brk, st, s)
            else
              bind_res (alloc_and_map_user_pages pg ((new_brk - brk_current p) div PAGE_SIZE) (brk_current p)
                  (pml4_phys p) USER_DATA_FLAGS s) (\<lambda>(ok, s').
                if ok then Inr (new_brk, upd_proc pid (\<lambda>p. p\<lparr>brk_current := new_brk\<rparr>) st, s')
                else Inr (brk_current p, st, s'))))"

subsection \<open>mmap\<close>

text \<open>The frames of a shared object, mapped one by one; what was mapped before a failure stays.\<close>

fun mmap_shared_pages :: "paging \<Rightarrow> nat list \<Rightarrow> nat \<Rightarrow> nat \<Rightarrow> PageTableFlags \<Rightarrow> mem_state \<Rightarrow> (bool \<times> mem_state) res" where
  "mmap_shared_pages pg [] vaddr pml4 flags s = Inr (True, s)"
| "mmap_shared_pages pg (f # fs) vaddr pml4 flags s =
     bind_res (map_user_page pg pml4 vaddr f flags s) (\<lambda>(ok, s1).
       if \<not> ok then Inr (False, s1)
       else bind_res (ref_share f (fst s1)) (\<lambda>ms.
         if fs = [] then Inr (True, ms, snd s1)
         else bind_res (add_u64 vaddr PAGE_SIZE) (\<lambda>vaddr'. mmap_shared_pages pg fs vaddr' pml4 flags (ms, snd s1))))"

text \<open>Private pages with the content of a file from \<open>offset\<close> on.\<close>

fun mmap_file_pages :: "paging \<Rightarrow> nat \<Rightarrow> nat \<Rightarrow> nat \<Rightarrow> PageTableFlags \<Rightarrow> nat \<Rightarrow> u8 list \<Rightarrow> mem_state \<Rightarrow> (bool \<times> mem_state) res" where
  "mmap_file_pages pg 0 vaddr pml4 flags off c s = Inr (True, s)"
| "mmap_file_pages pg (Suc n) vaddr pml4 flags off c (ms, m) =
     bind_res (alloc_dma_pages 1 (ms, m)) (\<lambda>(fo, ms1).
       case fo of
         None \<Rightarrow> Inr (False, ms1, m)
       | Some f \<Rightarrow>
           bind_res (phys_virt ms1 f) (\<lambda>dst.
             let m1 = write_bytes dst PAGE_SIZE 0 m;
                 m2 = (if off < length c then store_bytes dst (take PAGE_SIZE (drop off c)) m1 else m1) in
             bind_res (map_user_page pg pml4 vaddr f flags (ms1, m2)) (\<lambda>(ok, s2).
               if \<not> ok then Inr (False, s2)
               else if n = 0 then Inr (True, s2)
               else bind_res (add_u64 vaddr PAGE_SIZE) (\<lambda>vaddr'.
                 bind_res (add_u64 off PAGE_SIZE) (\<lambda>off'. mmap_file_pages pg n vaddr' pml4 flags off' c s2)))))"

definition mmap_alloc_pages ::
  "paging \<Rightarrow> nat \<Rightarrow> nat \<Rightarrow> nat \<Rightarrow> PageTableFlags \<Rightarrow> (nat \<times> nat \<times> u8 list) option \<Rightarrow> mem_state \<Rightarrow> (bool \<times> mem_state) res" where
  "mmap_alloc_pages pg n vaddr pml4 flags file_info s =
     (case file_info of
        None \<Rightarrow> alloc_and_map_user_pages pg n vaddr pml4 flags s
      | Some (fd, off, c) \<Rightarrow> mmap_file_pages pg n vaddr pml4 flags off c s)"

text \<open>Where a mapping goes: at the given address, after unmapping what is there, or in a free gap.\<close>

datatype placed = Failed int | Placed nat nat

definition place_mapping :: "paging \<Rightarrow> bool \<Rightarrow> nat \<Rightarrow> nat \<Rightarrow> system \<Rightarrow> mem_state \<Rightarrow> (placed \<times> system \<times> mem_state) res" where
  "place_mapping pg fixed addr len st s =
     (let pid = running_pid st in
      if fixed then
        (if addr = 0 \<or> addr mod PAGE_SIZE \<noteq> 0 then Inr (Failed (- EINVAL), st, s)
         else case get_proc pid st of
           None \<Rightarrow> Inr (Failed (- ENOMEM), st, s)
         | Some p \<Rightarrow>
             bind_res (munmap_vmas addr len (pr_vmas p)) (\<lambda>(ranges, vmas).
             bind_res (for_pages (unmap_and_release_user_page pg (pml4_phys p)) (range_pages ranges) s) (\<lambda>s'.
               Inr (Placed addr (pml4_phys p), upd_proc pid (\<lambda>p. p\<lparr>pr_vmas := vmas\<rparr>) st, s'))))
      else
        (case get_proc pid st of
           None \<Rightarrow> Inr (Failed (- ENOMEM), st, s)
         | Some p \<Rightarrow>
             bind_res (find_mmap_gap len (pr_vmas p)) (\<lambda>g.
               case g of
                 None \<Rightarrow> Inr (Failed (- ENOMEM), st, s)
               | Some base \<Rightarrow> Inr (Placed base (pml4_phys p), st, s))))"

text \<open>Map the pages where they go and record the area, or fail with \<^verbatim>\<open>ENOMEM\<close>.\<close>

definition install_mapping ::
  "paging \<Rightarrow> bool \<Rightarrow> nat \<Rightarrow> Vma \<Rightarrow> (nat \<Rightarrow> nat \<Rightarrow> PageTableFlags \<Rightarrow> mem_state \<Rightarrow> (bool \<times> mem_state) res) \<Rightarrow>
   system \<Rightarrow> mem_state \<Rightarrow> (int \<times> system \<times> mem_state) res" where
  "install_mapping pg fixed addr vma map_pages st s =
     bind_res (place_mapping pg fixed addr (vlen vma) st s) (\<lambda>(pl, st1, s1).
       case pl of
         Failed e \<Rightarrow> Inr (e, st1, s1)
       | Placed base pml4 \<Rightarrow>
           bind_res (map_pages base pml4 (page_table_flags vma) s1) (\<lambda>(ok, s2).
             if ok then Inr (int base, upd_proc (running_pid st) (\<lambda>p. p\<lparr>pr_vmas := btree_insert base (vma\<lparr>vstart := base\<rparr>) (pr_vmas p)\<rparr>) st1, s2)
             else Inr (- ENOMEM, st1, s2)))"

definition mmap_shared_inner ::
  "paging \<Rightarrow> nat \<Rightarrow> nat \<Rightarrow> u32 \<Rightarrow> u32 \<Rightarrow> bool \<Rightarrow> nat \<Rightarrow> nat \<Rightarrow> nat list \<Rightarrow> system \<Rightarrow> mem_state \<Rightarrow> (int \<times> system \<times> mem_state) res" where
  "mmap_shared_inner pg addr len prot flags fixed fd offset frames st s =
     install_mapping pg fixed addr
       \<lparr>vstart = 0, vlen = len, vprot = prot, vflags = flags, vfd = Some fd, voffset = offset\<rparr>
       (mmap_shared_pages pg frames) st s"

definition mmap_shared ::
  "paging \<Rightarrow> nat \<Rightarrow> nat \<Rightarrow> u32 \<Rightarrow> u32 \<Rightarrow> bool \<Rightarrow> nat \<Rightarrow> nat \<Rightarrow> system \<Rightarrow> mem_state \<Rightarrow> (int \<times> system \<times> mem_state) res" where
  "mmap_shared pg addr len prot flags fixed fd offset st s =
     (if offset mod PAGE_SIZE \<noteq> 0 then Inr (- EINVAL, st, s)
      else case current_fd fd st of
        Some (Inr (SharedMem sm)) \<Rightarrow>
          let x = shmems (objs st) sm; n = len div PAGE_SIZE in
          bind_res (add_u64 offset len) (\<lambda>e.
          bind_res (if e > sm_size x then bind_res (page_up (sm_size x)) (\<lambda>sz. Inr (e > sz)) else Inr False) (\<lambda>too_long.
            if too_long then Inr (- EINVAL, st, s)
            else if offset div PAGE_SIZE + n > length (sm_frames x) then Inr (- EINVAL, st, s)
            else mmap_shared_inner pg addr len prot flags fixed fd offset
                   (take n (drop (offset div PAGE_SIZE) (sm_frames x))) st s))
      | _ \<Rightarrow> Inr (- ENODEV, st, s))"

text \<open>The descriptor argument of a private file mapping is taken as an \<^verbatim>\<open>i32\<close>; the file's content comes
  from its handle, which only regular files have.\<close>

definition fd_of_i32 :: "u64 \<Rightarrow> nat" where
  "fd_of_i32 a = unat (word_of_int (sint (ucast a :: u32)) :: u64)"

definition content_bytes :: "FileHandle \<Rightarrow> u8 list option" where
  "content_bytes h = (case h of VfsFile f \<Rightarrow> Some (content f) | _ \<Rightarrow> None)"

definition mmap_file_info :: "u64 \<Rightarrow> nat \<Rightarrow> system \<Rightarrow> int + nat \<times> nat \<times> u8 list" where
  "mmap_file_info a5 r9 st =
     (let fd = fd_of_i32 a5 in
      if r9 mod PAGE_SIZE \<noteq> 0 then Inl (- EINVAL)
      else case current_fd fd st of
        Some (Inr (File h)) \<Rightarrow>
          (case content_bytes (handles (objs st) h) of Some c \<Rightarrow> Inr (fd, r9, c) | None \<Rightarrow> Inl (- ENODEV))
      | _ \<Rightarrow> Inl (- EBADF))"

text \<open>\<open>r9\<close> is the sixth argument, read from the saved user registers.\<close>

definition sys_mmap ::
  "paging \<Rightarrow> nat \<Rightarrow> nat \<Rightarrow> u64 \<Rightarrow> u64 \<Rightarrow> u64 \<Rightarrow> nat \<Rightarrow> system \<Rightarrow> mem_state \<Rightarrow> (int \<times> system \<times> mem_state) res" where
  "sys_mmap pg addr len prot flags a5 r9 st s =
     (if running_pid st = KERNEL_PID then Inr (- ENOMEM, st, s)
      else bind_res (page_up len) (\<lambda>aligned_len.
        let flags32 = (ucast flags :: u32); prot32 = (ucast prot :: u32); n = aligned_len div PAGE_SIZE;
            anonymous = (flags32 AND MAP_ANONYMOUS \<noteq> 0); fixed = (flags32 AND MAP_FIXED \<noteq> 0);
            shared = (flags32 AND MAP_SHARED \<noteq> 0); private = (flags32 AND MAP_PRIVATE \<noteq> 0) in
        if aligned_len = 0 then Inr (- EINVAL, st, s)
        else if shared = private then Inr (- EINVAL, st, s)
        else if shared \<and> anonymous then Inr (- EINVAL, st, s)
        else if shared then mmap_shared pg addr aligned_len prot32 flags32 fixed (unat a5) r9 st s
        else case (if anonymous then Inr None else map_sum id Some (mmap_file_info a5 r9 st)) of
          Inl e \<Rightarrow> Inr (e, st, s)
        | Inr file_info \<Rightarrow>
            install_mapping pg fixed addr
              \<lparr>vstart = addr, vlen = aligned_len, vprot = prot32, vflags = flags32, vfd = map_option fst file_info,
                voffset = (case file_info of None \<Rightarrow> 0 | Some (_, off, _) \<Rightarrow> off)\<rparr>
              (\<lambda>base pml4 fl. mmap_alloc_pages pg n base pml4 fl file_info) st s))"

subsection \<open>munmap and mprotect\<close>

definition sys_munmap :: "paging \<Rightarrow> nat \<Rightarrow> nat \<Rightarrow> system \<Rightarrow> mem_state \<Rightarrow> (int \<times> system \<times> mem_state) res" where
  "sys_munmap pg addr len st s =
     (let pid = running_pid st in
      if addr mod PAGE_SIZE \<noteq> 0 \<or> len = 0 then Inr (- EINVAL, st, s)
      else if pid = KERNEL_PID then Inr (- EINVAL, st, s)
      else bind_res (page_up len) (\<lambda>aligned_len.
        case get_proc pid st of
          None \<Rightarrow> Inr (- EINVAL, st, s)
        | Some p \<Rightarrow>
            bind_res (munmap_vmas addr aligned_len (pr_vmas p)) (\<lambda>(ranges, vmas).
            bind_res (for_pages (unmap_and_release_user_page pg (pml4_phys p)) (range_pages ranges) s) (\<lambda>s'.
              Inr (0, upd_proc pid (\<lambda>p. p\<lparr>pr_vmas := vmas\<rparr>) st, s')))))"

definition sys_mprotect :: "paging \<Rightarrow> nat \<Rightarrow> nat \<Rightarrow> u64 \<Rightarrow> system \<Rightarrow> mem_state \<Rightarrow> (int \<times> system \<times> mem_state) res" where
  "sys_mprotect pg addr len prot st s =
     (let pid = running_pid st; prot32 = (ucast prot :: u32) in
      if addr mod PAGE_SIZE \<noteq> 0 \<or> len = 0 then Inr (- EINVAL, st, s)
      else if pid = KERNEL_PID then Inr (- EINVAL, st, s)
      else bind_res (page_up len) (\<lambda>aligned_len.
        case get_proc pid st of
          None \<Rightarrow> Inr (- EINVAL, st, s)
        | Some p \<Rightarrow>
            bind_res (mprotect_vmas addr aligned_len prot32 (pr_vmas p)) (\<lambda>(ranges, vmas).
            bind_res (for_pages (\<lambda>v. update_user_page_flags pg (pml4_phys p) v (prot_to_page_flags prot32)) (range_pages ranges) s) (\<lambda>s'.
              Inr (0, upd_proc pid (\<lambda>p. p\<lparr>pr_vmas := vmas\<rparr>) st, s')))))"

subsection \<open>Frames of shared objects\<close>

definition alloc_zeroed_page :: "mem_state \<Rightarrow> (nat option \<times> mem_state) res" where
  "alloc_zeroed_page s =
     bind_res (alloc_dma_pages 1 s) (\<lambda>(fo, ms).
       case fo of
         None \<Rightarrow> Inr (None, ms, snd s)
       | Some f \<Rightarrow> bind_res (phys_virt ms f) (\<lambda>dst. Inr (Some f, ms, write_bytes dst PAGE_SIZE 0 (snd s))))"

text \<open>The frames of \<^verbatim>\<open>SharedMemInner::new\<close>. A failure drops the vector of frames, not the frames.\<close>

fun alloc_shmem_frames :: "nat \<Rightarrow> mem_state \<Rightarrow> (nat list option \<times> mem_state) res" where
  "alloc_shmem_frames 0 s = Inr (Some [], s)"
| "alloc_shmem_frames (Suc n) s =
     bind_res (alloc_zeroed_page s) (\<lambda>(fo, s1).
       case fo of
         None \<Rightarrow> Inr (None, s1)
       | Some f \<Rightarrow> bind_res (alloc_shmem_frames n s1) (\<lambda>(fs, s2). Inr (map_option (Cons f) fs, s2)))"

definition drop_shmem :: "SharedMemInner \<Rightarrow> mem_state \<Rightarrow> mem_state res" where
  "drop_shmem x s = (if owned x then fold_res release_shared_frame (sm_frames x) s else Inr s)"

text \<open>Dropping the rings of a port with the memory services.\<close>

definition drop_port_ring :: "IoRing \<Rightarrow> mem_state \<Rightarrow> mem_state res" where
  "drop_port_ring r s = drop_IoRing (\<lambda>f acc. bind_res acc (release_shared_frame f)) r (Inr s)"


subsection \<open>A ring page mapped after it was freed\<close>

lemma release_shared_frame_last:
  assumes h: "frame_history mm (frame_allocator ms) m live freed" and mm: "memory_map_ok mm"
    and high: "mapped_high ms" and f: "f \<in> set live" and one: "refcounts ms f = None"
  obtains ms' m' where "release_shared_frame f (ms, m) = Inr (ms', m')" "mapped_high ms'" "refcounts ms' = refcounts ms"
    "frame_history mm (frame_allocator ms') m' (remove1 f live) (f # freed)" "set (remove1 f live) = set live - {f}"
proof -
  have "page_base f = f"
    using frames_ok_frame(2) [OF history_frames_ok [OF h mm] mm, of f] f by (simp add: page_base_aligned)
  then have "release_shared_frame f (ms, m) = mem_dealloc f (ms, m)"
    using one by (simp add: release_shared_frame_def ref_release_def)
  with that show ?thesis by (metis dealloc_history [OF h mm high f])
qed

text \<open>A descriptor of a one-page object, mapped shared into a free gap.\<close>

lemma mmap_shared_page:
  assumes "running_pid st \<noteq> KERNEL_PID" and "get_proc (running_pid st) st = Some p"
    and "get_fd (unat a5) (pr_fds p) = Inr (SharedMem sm)" and "shmems (objs st) sm = from_existing [g] PAGE_SIZE"
    and "find_mmap_gap PAGE_SIZE (pr_vmas p) = Inr (Some base)" and "base < 2 ^ 47" and "pml4_phys p < 2 ^ 39"
    and "map_to pg (pml4_phys p) (page_base base) (page_base g) (prot_to_page_flags (ucast prot)) (frame_allocator ms, m) =
           (True, frame_allocator ms, m')"
    and "mapped_high ms" and "refcounts ms g = None"
  shows "\<exists>st'. sys_mmap pg 0 PAGE_SIZE prot 1 a5 0 st (ms, m) =
    Inr (int base, st', ms\<lparr>refcounts := (refcounts ms)(g \<mapsto> 2)\<rparr>, m')"
proof -
  have up: "page_up PAGE_SIZE = Inr PAGE_SIZE" by (simp add: page_up_def page_base_def const_defs add_u64_def)
  have fl: "(ucast (1 :: u64) :: u32) = 1" by simp
  have v: "virt_addr base = Inr base" using assms(6) by (simp add: virt_addr_def)
  have fd: "current_fd (unat a5) st = Some (Inr (SharedMem sm))"
    using assms(2,3) by (simp add: current_fd_def with_process_ref_def)
  have m: "mmap_shared_pages pg [g] base (pml4_phys p) (prot_to_page_flags (ucast prot)) (ms, m) =
      Inr (True, ms\<lparr>refcounts := (refcounts ms)(g \<mapsto> 2)\<rparr>, m')"
    using assms(8,10) by (simp add: map_user_page_def v phys_virt_high [OF assms(9,7)] ref_share_def del: One_nat_def)
  define vma where "vma = \<lparr>vstart = 0, vlen = PAGE_SIZE, vprot = ucast prot, vflags = 1, vfd = Some (unat a5), voffset = 0\<rparr>"
  have pl: "place_mapping pg False 0 PAGE_SIZE st (ms, m) = Inr (Placed base (pml4_phys p), st, ms, m)"
    using assms(2,5) by (simp add: place_mapping_def)
  have "\<exists>st'. install_mapping pg False 0 vma (mmap_shared_pages pg [g]) st (ms, m) =
      Inr (int base, st', ms\<lparr>refcounts := (refcounts ms)(g \<mapsto> 2)\<rparr>, m')"
    using m pl by (simp add: install_mapping_def vma_def page_table_flags_def del: mmap_shared_pages.simps bind_res_eq_Inr)
  then obtain st' where i: "install_mapping pg False 0 vma (mmap_shared_pages pg [g]) st (ms, m) =
      Inr (int base, st', ms\<lparr>refcounts := (refcounts ms)(g \<mapsto> 2)\<rparr>, m')" by blast
  have "mmap_shared pg 0 PAGE_SIZE (ucast prot) 1 False (unat a5) 0 st (ms, m) =
      install_mapping pg False 0 vma (mmap_shared_pages pg [g]) st (ms, m)"
    using assms(4) by (simp add: mmap_shared_def fd from_existing_def mmap_shared_inner_def vma_def PAGE_SIZE_def add_u64_def)
  with assms(1) i show ?thesis
    unfolding sys_mmap_def up by (simp add: fl const_defs Let_def del: mmap_shared_pages.simps bind_res_eq_Inr)
qed



definition ring_table :: fd_table where
  "ring_table = [Some \<lparr>object = SharedMem 7, fd_flags = 0\<rparr>]"

definition ring_owner :: system where
  "ring_owner = (let st = map_kern (\<lambda>k. k\<lparr>cpu := (cpu k)\<lparr>current_pid := 1\<rparr>\<rparr>) family in
     st\<lparr>procs := \<lparr>proc_table = [(1, example_process 1 0 ring_table None)], next_pid = 2\<rparr>,
        objs := (objs st)\<lparr>shmems := (\<lambda>_. from_existing [0x2000] PAGE_SIZE)\<rparr>\<rparr>)"

definition page_ring :: IoRing where
  "page_ring = \<lparr>sq_phys = [0x1000], cq_phys = [0x2000], sq_entries = 1, cq_entries = 1,
     sq_ring = \<lparr>header = zero_header, entry_count = 1, entries = [zero_sqe]\<rparr>,
     cq_ring = \<lparr>header = zero_header, entry_count = 1, entries = [zero_cqe]\<rparr>\<rparr>"


end
