(* ===== verification/Elf.thy ===== *)
theory Elf
  imports Memory_Services
begin

text \<open>
  The ELF parser of \<^verbatim>\<open>libkernel/src/elf.rs\<close> and the loader of \<^verbatim>\<open>osl/src/elf_loader.rs\<close>. A file is its list
  of bytes. What the parser accepts is what the loader relies on: every slice that the loader takes
  of the file is inside it.
\<close>

subsection \<open>The parser\<close>

datatype ElfError = TooSmall | BadMagic | Not64Bit | NotLittleEndian | NotExec | NotX86_64 | BadPhdr

record Elf64Ehdr =
  e_ident :: "u8 list"
  e_type :: nat
  e_machine :: nat
  e_entry :: nat
  e_phoff :: nat
  e_phentsize :: nat
  e_phnum :: nat

record Elf64Phdr =
  p_type :: nat
  p_flags :: u32
  p_offset :: nat
  p_vaddr :: nat
  p_filesz :: nat
  p_memsz :: nat

record LoadSegment =
  seg_vaddr :: nat
  seg_offset :: nat
  seg_filesz :: nat
  seg_memsz :: nat
  seg_flags :: u32

record ElfInfo =
  elf_entry :: nat
  segments :: "LoadSegment list"
  phdr_vaddr :: nat
  phnum :: nat
  phentsize :: nat

definition EHDR_SIZE :: nat where [const_defs]: "EHDR_SIZE = 64"
definition PHDR_SIZE :: nat where [const_defs]: "PHDR_SIZE = 56"
definition ELF_MAGIC :: "u8 list" where [const_defs]: "ELF_MAGIC = [0x7F, 0x45, 0x4C, 0x46]"
definition ELFCLASS64 :: u8 where [const_defs]: "ELFCLASS64 = 2"
definition ELFDATA2LSB :: u8 where [const_defs]: "ELFDATA2LSB = 1"
definition ET_EXEC :: nat where [const_defs]: "ET_EXEC = 2"
definition EM_X86_64 :: nat where [const_defs]: "EM_X86_64 = 62"
definition PT_LOAD :: nat where [const_defs]: "PT_LOAD = 1"
definition PT_PHDR :: nat where [const_defs]: "PT_PHDR = 6"
definition PF_X :: u32 where [const_defs]: "PF_X = 1"
definition PF_W :: u32 where [const_defs]: "PF_W = 2"

text \<open>A little-endian field of a structure with C layout.\<close>

definition field_at :: "u8 list \<Rightarrow> nat \<Rightarrow> nat \<Rightarrow> nat" where
  "field_at data off n = of_le_bytes (take n (drop off data))"

definition read_ehdr :: "u8 list \<Rightarrow> Elf64Ehdr" where
  "read_ehdr data =
     \<lparr>e_ident = take 16 data, e_type = field_at data 16 2, e_machine = field_at data 18 2, e_entry = field_at data 24 8,
      e_phoff = field_at data 32 8, e_phentsize = field_at data 54 2, e_phnum = field_at data 56 2\<rparr>"

definition read_phdr :: "u8 list \<Rightarrow> nat \<Rightarrow> Elf64Phdr" where
  "read_phdr data off =
     \<lparr>p_type = field_at data off 4, p_flags = of_nat (field_at data (off + 4) 4), p_offset = field_at data (off + 8) 8,
      p_vaddr = field_at data (off + 16) 8, p_filesz = field_at data (off + 32) 8, p_memsz = field_at data (off + 40) 8\<rparr>"

text \<open>The loop over the program headers: the segments so far and the address of the table, if a
  header gives it. Its index arithmetic is not checked and panics on overflow.\<close>

fun parse_phdrs ::
  "u8 list \<Rightarrow> Elf64Ehdr \<Rightarrow> nat list \<Rightarrow> LoadSegment list \<times> nat option \<Rightarrow> (ElfError + LoadSegment list \<times> nat option) res" where
  "parse_phdrs data eh [] acc = Inr (Inr acc)"
| "parse_phdrs data eh (i # is) (segs, pv) =
     bind_res (mul_u64 i (e_phentsize eh)) (\<lambda>d.
     bind_res (add_u64 (e_phoff eh) d) (\<lambda>off.
     bind_res (add_u64 off PHDR_SIZE) (\<lambda>e.
       if e > length data then Inr (Inl BadPhdr)
       else
         let ph = read_phdr data off;
             pv' = (if p_type ph = PT_PHDR then Some (p_vaddr ph) else pv) in
         if p_type ph \<noteq> PT_LOAD then parse_phdrs data eh is (segs, pv')
         else if p_offset ph + p_filesz ph \<ge> 2 ^ 64 then Inr (Inl BadPhdr)
         else if p_offset ph + p_filesz ph > length data then Inr (Inl BadPhdr)
         else parse_phdrs data eh is
                (segs @ [\<lparr>seg_vaddr = p_vaddr ph, seg_offset = p_offset ph, seg_filesz = p_filesz ph,
                          seg_memsz = p_memsz ph, seg_flags = p_flags ph\<rparr>], pv'))))"

fun phdr_address :: "Elf64Ehdr \<Rightarrow> LoadSegment list \<Rightarrow> nat res" where
  "phdr_address eh [] = Inr 0"
| "phdr_address eh (seg # segs) =
     (if e_phoff eh \<ge> seg_offset seg
      then bind_res (add_u64 (seg_offset seg) (seg_filesz seg)) (\<lambda>e.
        if e_phoff eh < e then add_u64 (seg_vaddr seg) (e_phoff eh - seg_offset seg)
        else phdr_address eh segs)
      else phdr_address eh segs)"

definition parse :: "u8 list \<Rightarrow> (ElfError + ElfInfo) res" where
  "parse data =
     (if length data < EHDR_SIZE then Inr (Inl TooSmall)
      else
        let eh = read_ehdr data in
        if take 4 (e_ident eh) \<noteq> ELF_MAGIC then Inr (Inl BadMagic)
        else if e_ident eh ! 4 \<noteq> ELFCLASS64 then Inr (Inl Not64Bit)
        else if e_ident eh ! 5 \<noteq> ELFDATA2LSB then Inr (Inl NotLittleEndian)
        else if e_type eh \<noteq> ET_EXEC then Inr (Inl NotExec)
        else if e_machine eh \<noteq> EM_X86_64 then Inr (Inl NotX86_64)
        else bind_res (parse_phdrs data eh [0..<e_phnum eh] ([], None)) (\<lambda>r.
          case r of
            Inl e \<Rightarrow> Inr (Inl e)
          | Inr (segs, pv) \<Rightarrow>
              bind_res (case pv of Some v \<Rightarrow> Inr v | None \<Rightarrow> phdr_address eh segs) (\<lambda>v.
                Inr (Inr \<lparr>elf_entry = e_entry eh, segments = segs, phdr_vaddr = v, phnum = e_phnum eh,
                          phentsize = e_phentsize eh\<rparr>))))"

subsection \<open>The loader\<close>

definition ELF_STACK_PAGES :: nat where [const_defs]: "ELF_STACK_PAGES = 8"
definition ELF_STACK_SIZE :: nat where [const_defs]: "ELF_STACK_SIZE = 0x8000"
definition ELF_STACK_VIRT :: nat where [const_defs]: "ELF_STACK_VIRT = 0x7FFFF0000000"

text \<open>The slice \<^verbatim>\<open>&data[a..][..n]\<close>, with its two range checks.\<close>

definition slice :: "'a list \<Rightarrow> nat \<Rightarrow> nat \<Rightarrow> 'a list res" where
  "slice data a n = (if a > length data \<or> n > length data - a then Inl IndexOutOfBounds else Inr (take n (drop a data)))"

text \<open>Fill the zeroed page at \<open>dst\<close> that will be mapped at \<open>page\<close> with what the segment has for it.\<close>

definition fill_page :: "u8 list \<Rightarrow> LoadSegment \<Rightarrow> nat \<Rightarrow> nat \<Rightarrow> memory \<Rightarrow> memory res" where
  "fill_page data seg page dst m =
     (let copy_start = (if page < seg_vaddr seg then seg_vaddr seg - page else 0);
          seg_off = (if page \<ge> seg_vaddr seg then page - seg_vaddr seg else 0) in
      if seg_off < seg_filesz seg then
        bind_res (sub_u64 PAGE_SIZE copy_start) (\<lambda>room.
        bind_res (add_u64 (seg_offset seg) seg_off) (\<lambda>from.
        bind_res (slice data from (min (seg_filesz seg - seg_off) room)) (\<lambda>src.
          Inr (store_bytes (dst + copy_start) src m))))
      else Inr m)"

definition segment_page_flags :: "LoadSegment \<Rightarrow> PageTableFlags" where
  "segment_page_flags seg =
     \<lparr>PRESENT = True, WRITABLE = (seg_flags seg AND PF_W \<noteq> 0), USER_ACCESSIBLE = True, NO_EXECUTE = (seg_flags seg AND PF_X = 0)\<rparr>"

definition load_page :: "paging \<Rightarrow> u8 list \<Rightarrow> nat \<Rightarrow> LoadSegment \<Rightarrow> nat \<Rightarrow> mem_state \<Rightarrow> mem_state res" where
  "load_page pg data pml4 seg page s =
     bind_res (alloc_dma_pages 1 s) (\<lambda>(fo, ms).
       case fo of
         None \<Rightarrow> Inl UnwrapNone
       | Some f \<Rightarrow>
           bind_res (phys_virt ms f) (\<lambda>dst.
           bind_res (fill_page data seg page dst (write_bytes dst PAGE_SIZE 0 (snd s))) (\<lambda>m.
           bind_res (map_user_page pg pml4 page f (segment_page_flags seg) (ms, m)) (\<lambda>(ok, s').
             if ok then Inr s' else Inl UnwrapNone))))"

definition load_segment :: "paging \<Rightarrow> u8 list \<Rightarrow> nat \<Rightarrow> LoadSegment \<Rightarrow> mem_state \<Rightarrow> mem_state res" where
  "load_segment pg data pml4 seg s =
     bind_res (add_u64 (seg_vaddr seg) (seg_memsz seg)) (\<lambda>e.
     bind_res (add_u64 e PAGE_MASK) (\<lambda>e'.
       let page_start = page_base (seg_vaddr seg); page_end = page_base e' in
       fold_res (\<lambda>i. load_page pg data pml4 seg (page_start + i * PAGE_SIZE)) [0..<(page_end - page_start) div PAGE_SIZE] s))"

definition load_stack :: "paging \<Rightarrow> nat \<Rightarrow> mem_state \<Rightarrow> (nat \<times> mem_state) res" where
  "load_stack pg pml4 s =
     bind_res (alloc_dma_pages ELF_STACK_PAGES s) (\<lambda>(fo, ms).
       case fo of
         None \<Rightarrow> Inl UnwrapNone
       | Some f \<Rightarrow>
           bind_res (phys_virt ms f) (\<lambda>base.
           bind_res (fold_res (\<lambda>i s.
               bind_res (map_user_page pg pml4 (ELF_STACK_VIRT + i * PAGE_SIZE) (f + i * PAGE_SIZE)
                   \<lparr>PRESENT = True, WRITABLE = True, USER_ACCESSIBLE = True, NO_EXECUTE = True\<rparr> s) (\<lambda>(ok, s').
                 if ok then Inr s' else Inl UnwrapNone))
             [0..<ELF_STACK_PAGES] (ms, write_bytes base ELF_STACK_SIZE 0 (snd s))) (\<lambda>s'.
             Inr (base, s'))))"

definition load_elf_address_space ::
  "paging \<Rightarrow> nat \<Rightarrow> u8 list \<Rightarrow> ElfInfo \<Rightarrow> mem_state \<Rightarrow> ((nat \<times> nat) \<times> mem_state) res" where
  "load_elf_address_space pg cr3 data info s =
     bind_res (create_user_page_table pg cr3 s) (\<lambda>(pml4, s1).
     bind_res (fold_res (load_segment pg data pml4) (segments info) s1) (\<lambda>s2.
     bind_res (load_stack pg pml4 s2) (\<lambda>(base, s3). Inr ((pml4, base), s3))))"

definition compute_brk_base :: "ElfInfo \<Rightarrow> nat res" where
  "compute_brk_base info =
     bind_res (fold_res (\<lambda>seg mx. bind_res (add_u64 (seg_vaddr seg) (seg_memsz seg)) (\<lambda>e. Inr (max mx e))) (segments info) 0) (\<lambda>mx.
     bind_res (add_u64 mx PAGE_MASK) (\<lambda>x. Inr (page_base x)))"

subsection \<open>What the parser accepts, the loader can load\<close>

definition in_file :: "u8 list \<Rightarrow> LoadSegment \<Rightarrow> bool" where
  "in_file data seg \<longleftrightarrow> seg_offset seg + seg_filesz seg \<le> length data"

lemma parse_phdrs_in_file:
  assumes "parse_phdrs data eh is acc = Inr (Inr (segs, pv))" and "\<forall>seg\<in>set (fst acc). in_file data seg"
  shows "\<forall>seg\<in>set segs. in_file data seg"
  using assms
proof (induction "is" arbitrary: acc)
  case Nil
  then show ?case by simp
next
  case (Cons i "is")
  obtain segs0 pv0 where acc: "acc = (segs0, pv0)" by (cases acc)
  have "\<exists>acc'. parse_phdrs data eh is acc' = Inr (Inr (segs, pv)) \<and> (\<forall>seg\<in>set (fst acc'). in_file data seg)"
    using Cons.prems unfolding acc by (fastforce simp: Let_def in_file_def split: if_splits)
  with Cons.IH show ?case by blast
qed

lemma parse_in_file:
  assumes "parse data = Inr (Inr info)" and "seg \<in> set (segments info)"
  shows "in_file data seg"
proof (cases "parse_phdrs data (read_ehdr data) [0..<e_phnum (read_ehdr data)] ([], None)")
  case (Inl p)
  with assms(1) show ?thesis by (simp add: parse_def Let_def split: if_splits)
next
  case (Inr r)
  with assms(1) obtain pv where "r = Inr (segments info, pv)"
    by (cases r) (auto simp: parse_def Let_def split: if_splits)
  with parse_phdrs_in_file [of data] Inr assms(2) show ?thesis by fastforce
qed

text \<open>The byte at \<open>x\<close> after \<open>min (n - o') (PAGE_SIZE - c)\<close> bytes of the segment were copied over a zeroed
  page; \<open>c\<close> and \<open>o'\<close> are the offsets in the page and in the segment at which the copy starts.\<close>

lemma copied_byte:
  fixes page v n off :: nat
  assumes len: "length src = min (n - o') (PAGE_SIZE - c)" and nth: "\<And>i. i < length src \<Longrightarrow> src ! i = data ! (off + o' + i)"
    and c: "c = (if page < v then v - page else 0)" and o': "o' = (if page \<ge> v then page - v else 0)" and n: "o' < n"
  shows "store_bytes (dst + c) src (write_bytes dst PAGE_SIZE 0 m) x =
    (if dst \<le> x \<and> x < dst + PAGE_SIZE
     then let a = page + (x - dst) in if v \<le> a \<and> a < v + n then data ! (off + (a - v)) else 0 else m x)"
proof (cases "dst + c \<le> x \<and> x < dst + c + length src")
  case True
  then have i: "x - (dst + c) < length src" by auto
  have "store_bytes (dst + c) src (write_bytes dst PAGE_SIZE 0 m) x = src ! (x - (dst + c))"
    using True by (simp add: store_bytes_def)
  then have "store_bytes (dst + c) src (write_bytes dst PAGE_SIZE 0 m) x = data ! (off + o' + (x - (dst + c)))"
    by (simp only: nth [OF i])
  moreover have "dst \<le> x" "x < dst + PAGE_SIZE" "v \<le> page + (x - dst)" "page + (x - dst) < v + n"
    "o' + (x - (dst + c)) = page + (x - dst) - v"
    using True len by (auto simp: c o' split: if_splits)
  ultimately show ?thesis by (simp add: add.assoc)
next
  case False
  then have "store_bytes (dst + c) src (write_bytes dst PAGE_SIZE 0 m) x = write_bytes dst PAGE_SIZE 0 m x"
    by (auto simp: store_bytes_def)
  moreover have "\<not> (v \<le> page + (x - dst) \<and> page + (x - dst) < v + n)" if "dst \<le> x" "x < dst + PAGE_SIZE"
    using False that len n by (auto simp: c o' split: if_splits)
  ultimately show ?thesis by (auto simp: write_bytes_def Let_def)
qed

text \<open>
  C31: When the parser accepts a file, the loader's copy into any page of any segment stays inside the
  file and inside the page, and the page gets the image of the segment: the bytes of the file at
  the addresses that the segment takes from it, and zeroes at the other addresses of the page.
\<close>
theorem loaded_page_is_segment_image:
  assumes "parse data = Inr (Inr info)" and "seg \<in> set (segments info)" and "length data < 2 ^ 64"
    and "page = page_base (seg_vaddr seg) + p * PAGE_SIZE"
  shows "run_res (fill_page data seg page dst (write_bytes dst PAGE_SIZE 0 m)) (\<lambda>m'.
    \<forall>x. m' x = (if dst \<le> x \<and> x < dst + PAGE_SIZE
                then let a = page + (x - dst) in
                  if seg_vaddr seg \<le> a \<and> a < seg_vaddr seg + seg_filesz seg
                  then data ! (seg_offset seg + (a - seg_vaddr seg)) else 0
                else m x))"
proof -
  let ?v = "seg_vaddr seg" and ?o = "seg_offset seg" and ?n = "seg_filesz seg"
  have inside: "?o + ?n \<le> length data" using parse_in_file [OF assms(1,2)] by (simp add: in_file_def)
  have near: "?v < page + PAGE_SIZE"
  proof -
    have "?v mod PAGE_SIZE < PAGE_SIZE" by (simp add: PAGE_SIZE_def)
    then have "?v < page_base ?v + PAGE_SIZE" using mod_less_eq_dividend [of ?v PAGE_SIZE] by (simp add: page_base_def)
    then show ?thesis by (simp add: assms(4))
  qed
  define c where "c = (if page < ?v then ?v - page else 0)"
  define o' where "o' = (if page \<ge> ?v then page - ?v else 0)"
  define src where "src = take (min (?n - o') (PAGE_SIZE - c)) (drop (?o + o') data)"
  show ?thesis
  proof (cases "o' < ?n")
    case True
    have len: "length src = min (?n - o') (PAGE_SIZE - c)" using inside True by (simp add: src_def)
    have nth: "src ! i = data ! (?o + o' + i)" if "i < length src" for i
      using that inside True by (simp add: src_def len)
    have c: "c \<le> PAGE_SIZE" using near by (auto simp: c_def)
    have fp: "fill_page data seg page dst (write_bytes dst PAGE_SIZE 0 m) =
        Inr (store_bytes (dst + c) src (write_bytes dst PAGE_SIZE 0 m))"
      using True c inside assms(3)
      by (simp add: fill_page_def Let_def c_def [symmetric] o'_def [symmetric] add_u64_def slice_def src_def)
    show ?thesis
      unfolding fp using copied_byte [OF len nth c_def o'_def True] by (simp add: run_res_def)
  next
    case False
    then have "fill_page data seg page dst (write_bytes dst PAGE_SIZE 0 m) = Inr (write_bytes dst PAGE_SIZE 0 m)"
      by (simp add: fill_page_def Let_def o'_def)
    with False show ?thesis by (auto simp: run_res_def write_bytes_def o'_def Let_def split: if_splits)
  qed
qed


text \<open>A file with one segment of four bytes, sixteen bytes before the end of a page.\<close>

definition tiny_elf :: "u8 list" where
  "tiny_elf =
    [0x7f, 0x45, 0x4c, 0x46, 2, 1, 1, 0, 0, 0, 0, 0, 0, 0, 0, 0, 2, 0, 0x3e, 0, 1, 0, 0, 0, 0xf0, 0xf,
     0x40, 0, 0, 0, 0, 0, 0x40, 0, 0, 0, 0, 0, 0, 0, 0, 0, 0, 0, 0, 0, 0, 0, 0, 0, 0, 0, 0x40, 0, 0x38,
     0, 1, 0, 0, 0, 0, 0, 0, 0, 1, 0, 0, 0, 5, 0, 0, 0, 0x78, 0, 0, 0, 0, 0, 0, 0, 0xf0, 0xf, 0x40, 0, 0,
     0, 0, 0, 0, 0, 0, 0, 0, 0, 0, 0, 4, 0, 0, 0, 0, 0, 0, 0, 8, 0, 0, 0, 0, 0, 0, 0, 0, 0x10, 0, 0, 0,
     0, 0, 0, 0x90, 0x90, 0xf, 5]"

lemma tiny_elf_parse:
  "parse tiny_elf = Inr (Inr \<lparr>elf_entry = 0x400FF0, segments = [\<lparr>seg_vaddr = 0x400FF0, seg_offset = 120, seg_filesz = 4,
     seg_memsz = 8, seg_flags = 5\<rparr>], phdr_vaddr = 0, phnum = 1, phentsize = 56\<rparr>)"
  by (simp add: parse_def tiny_elf_def read_ehdr_def read_phdr_def field_at_def const_defs Let_def add_u64_def mul_u64_def)

theorem loaded_page_is_segment_image_witness:
  "run_res (fill_page tiny_elf \<lparr>seg_vaddr = 0x400FF0, seg_offset = 120, seg_filesz = 4, seg_memsz = 8, seg_flags = 5\<rparr>
      0x400000 0x7000 (write_bytes 0x7000 PAGE_SIZE 0 (\<lambda>_. 1))) (\<lambda>m'.
    m' 0x7FEF = 0 \<and> m' 0x7FF0 = 0x90 \<and> m' 0x7FF3 = 0x05 \<and> m' 0x7FF4 = 0 \<and> m' 0x8000 = 1)"
proof -
  have b: "0x400000 = page_base 0x400FF0 + 0 * PAGE_SIZE" by (simp add: page_base_def PAGE_SIZE_def)
  have d: "tiny_elf ! 120 = 0x90" "tiny_elf ! 123 = 0x05" "length tiny_elf < 2 ^ 64" by (simp_all add: tiny_elf_def)
  show ?thesis
    using loaded_page_is_segment_image [OF tiny_elf_parse, of "\<lparr>seg_vaddr = 0x400FF0, seg_offset = 120, seg_filesz = 4, seg_memsz = 8, seg_flags = 5\<rparr>"
        "0x400000" 0 "0x7000" "\<lambda>_. 1"] b d
    by (auto simp: run_res_iff PAGE_SIZE_def)
qed

end
