(* ===== verification/Ipc.thy ===== *)
theory Ipc
  imports Fd_Syscalls
begin

text \<open>
  The IPC system calls of \<^verbatim>\<open>osl/src/ipc.rs\<close>: creating a channel, sending and receiving, and the passing
  of descriptors. A message in user memory is 48 bytes; descriptors travel as the kernel objects
  that they name, with a reference of their own, and get new numbers in the receiver. A call is modelled
  up to its yield; its outcome says how it goes on.
\<close>

subsection \<open>Messages in memory\<close>

definition IPC_CLOEXEC :: u32 where [const_defs]: "IPC_CLOEXEC = 1"
definition IPC_NONBLOCK :: u32 where [const_defs]: "IPC_NONBLOCK = 1"
definition IPC_MSG_SIZE :: nat where [const_defs]: "IPC_MSG_SIZE = 48"

definition fd_bytes :: "int \<Rightarrow> u8 list" where
  "fd_bytes fd = le_bytes 4 (unat (word_of_int fd :: u32))"

definition ipc_msg_to_bytes :: "IpcMessage \<Rightarrow> u8 list" where
  "ipc_msg_to_bytes x =
     le_bytes 8 (unat (msg_tag x)) @ concat (map (\<lambda>d. le_bytes 8 (unat d)) (msg_data x)) @ concat (map fd_bytes (msg_fds x))"

text \<open>Reading a message out of its bytes.\<close>

definition ipc_msg_of_bytes :: "u8 list \<Rightarrow> IpcMessage" where
  "ipc_msg_of_bytes bs =
     \<lparr>msg_tag = of_nat (of_le_bytes (take 8 bs)),
      msg_data = map (\<lambda>i. of_nat (of_le_bytes (take 8 (drop (8 + 8 * i) bs)))) [0..<3],
      msg_fds = map (\<lambda>i. sint (of_nat (of_le_bytes (take 4 (drop (32 + 4 * i) bs))) :: u32)) [0..<4]\<rparr>"

definition load_msg :: "nat \<Rightarrow> memory \<Rightarrow> IpcMessage" where
  "load_msg a m = ipc_msg_of_bytes (load_bytes a IPC_MSG_SIZE m)"

definition store_msg :: "nat \<Rightarrow> IpcMessage \<Rightarrow> memory \<Rightarrow> memory" where
  "store_msg a x m = store_bytes a (ipc_msg_to_bytes x) m"

subsection \<open>Passing descriptors\<close>

text \<open>Close the objects in the slots; what the closes ask for is dropped.\<close>

definition close_slots :: "TransferFds \<Rightarrow> objects \<Rightarrow> objects res" where
  "close_slots slots os = close_objects (List.map_filter id slots) os"

text \<open>The loop of \<^verbatim>\<open>extract_transfer_fds\<close>; \<open>acc\<close> are the slots filled so far.\<close>

fun extract_loop :: "int list \<Rightarrow> TransferFds \<Rightarrow> system \<Rightarrow> ((int + TransferFds) \<times> system) res" where
  "extract_loop [] acc st = Inr (Inr acc, st)"
| "extract_loop (fd # fds) acc st =
     (if fd = -1 then extract_loop fds (acc @ [None]) st
      else if fd < 0 then
        bind_res (close_slots acc (objs st)) (\<lambda>os. Inr (Inl (- EBADF), st\<lparr>objs := os\<rparr>))
      else case with_process_ref (running_pid st) (\<lambda>p. get_fd_entry (nat fd) (pr_fds p)) st of
        Some (Inr e) \<Rightarrow>
          bind_res (notify_dup (object e) (objs st)) (\<lambda>os.
            extract_loop fds (acc @ [Some (object e)]) (st\<lparr>objs := os\<rparr>))
      | _ \<Rightarrow> bind_res (close_slots acc (objs st)) (\<lambda>os. Inr (Inl (- EBADF), st\<lparr>objs := os\<rparr>)))"

definition extract_transfer_fds :: "IpcMessage \<Rightarrow> system \<Rightarrow> ((int + TransferFds option) \<times> system) res" where
  "extract_transfer_fds x st =
     (if \<forall>fd\<in>set (msg_fds x). fd = -1 then Inr (Inr None, st)
      else bind_res (extract_loop (msg_fds x) [] st) (\<lambda>(r, st'). Inr (map_sum id Some r, st')))"

text \<open>Close the descriptors that were allocated, in order.\<close>

fun close_allocated :: "int list \<Rightarrow> system \<Rightarrow> system res" where
  "close_allocated [] st = Inr st"
| "close_allocated (afd # afds) st =
     (if afd = -1 then close_allocated afds st
      else case get_proc (running_pid st) st of
        None \<Rightarrow> close_allocated afds st
      | Some p \<Rightarrow>
          bind_res (close_fd (nat afd) (pr_fds p) (objs st)) (\<lambda>(_, t, os).
            close_allocated afds (upd_proc (running_pid st) (\<lambda>p. p\<lparr>pr_fds := t\<rparr>) (st\<lparr>objs := os\<rparr>))))"

text \<open>The loop of \<^verbatim>\<open>install_transfer_fds\<close>. The object whose allocation fails has been moved into the
  failed call: it is neither in the table nor among the slots that are closed.\<close>

fun install_loop :: "TransferFds \<Rightarrow> int list \<Rightarrow> system \<Rightarrow> ((int + int list) \<times> system) res" where
  "install_loop [] allocated st = Inr (Inr allocated, st)"
| "install_loop (None # slots) allocated st = install_loop slots (allocated @ [-1]) st"
| "install_loop (Some obj # slots) allocated st =
     (case helper_alloc_fd obj st of
        (Inr fd, st') \<Rightarrow> install_loop slots (allocated @ [int fd]) st'
      | (Inl _, st') \<Rightarrow>
          bind_res (close_allocated allocated st') (\<lambda>st1.
          bind_res (close_slots slots (objs st1)) (\<lambda>os. Inr (Inl (- EMFILE), st1\<lparr>objs := os\<rparr>))))"

definition install_transfer_fds :: "IpcMessage \<Rightarrow> TransferFds \<Rightarrow> system \<Rightarrow> ((int + IpcMessage) \<times> system) res" where
  "install_transfer_fds x slots st =
     bind_res (install_loop slots [] st) (\<lambda>(r, st').
       Inr (case r of Inl e \<Rightarrow> Inl e | Inr allocated \<Rightarrow> Inr (x\<lparr>msg_fds := allocated\<rparr>), st'))"

definition deliver_to_user :: "EnvelopedMessage \<Rightarrow> nat \<Rightarrow> memory \<Rightarrow> system \<Rightarrow> (int \<times> memory \<times> system) res" where
  "deliver_to_user env ptr m st =
     (case env_fds env of
        None \<Rightarrow> Inr (0, store_msg ptr (msg env) m, st)
      | Some slots \<Rightarrow>
          bind_res (install_transfer_fds (msg env) slots st) (\<lambda>(r, st').
            Inr (case r of Inl e \<Rightarrow> (e, m, st') | Inr x \<Rightarrow> (0, store_msg ptr x m, st'))))"

subsection \<open>The system calls\<close>

definition get_channel_send :: "nat \<Rightarrow> system \<Rightarrow> int + nat" where
  "get_channel_send fd st =
     (case current_fd fd st of
        Some (Inr obj) \<Rightarrow> (case as_channel obj of Some (Send c) \<Rightarrow> Inr c | _ \<Rightarrow> Inl (- EBADF))
      | _ \<Rightarrow> Inl (- EBADF))"

definition get_channel_recv :: "nat \<Rightarrow> system \<Rightarrow> int + nat" where
  "get_channel_recv fd st =
     (case current_fd fd st of
        Some (Inr obj) \<Rightarrow> (case as_channel obj of Some (Recv c) \<Rightarrow> Inr c | _ \<Rightarrow> Inl (- EBADF))
      | _ \<Rightarrow> Inl (- EBADF))"

text \<open>A new channel gets the number \<open>c\<close>.\<close>

definition sys_ipc_create :: "nat \<Rightarrow> nat \<Rightarrow> u32 \<Rightarrow> nat \<Rightarrow> memory \<Rightarrow> system \<Rightarrow> (int \<times> memory \<times> system) res" where
  "sys_ipc_create fds_ptr cap flags c m st =
     (if \<not> validate_user_buf fds_ptr 8 then Inr (- EFAULT, m, st)
      else if flags AND NOT IPC_CLOEXEC \<noteq> 0 then Inr (- EINVAL, m, st)
      else
        let os = (objs st)\<lparr>channels := (channels (objs st))(c := channel_new cap)\<rparr>;
            fl = (if flags AND IPC_CLOEXEC \<noteq> 0 then FD_CLOEXEC else 0);
            pid = running_pid st; st0 = st\<lparr>objs := os\<rparr> in
        case get_proc pid st of
          None \<Rightarrow> Inr (- EBADF, m, st0)
        | Some p \<Rightarrow>
            (case alloc_fd_with_flags (Channel (Send c)) fl (pr_fds p) of
               Inl e \<Rightarrow> Inr (file_errno e, m, st0)
             | Inr (sfd, t) \<Rightarrow>
                 (case alloc_fd_with_flags (Channel (Recv c)) fl t of
                    Inl e \<Rightarrow>
                      bind_res (close_fd sfd t os) (\<lambda>(_, t', os').
                        Inr (file_errno e, m, upd_proc pid (\<lambda>p. p\<lparr>pr_fds := t'\<rparr>) (st\<lparr>objs := os'\<rparr>)))
                  | Inr (rfd, t') \<Rightarrow>
                      Inr (0, store_u32 (fds_ptr + 4) (rfd mod 2 ^ 32) (store_u32 fds_ptr (sfd mod 2 ^ 32) m),
                           upd_proc pid (\<lambda>p. p\<lparr>pr_fds := t'\<rparr>) st0))))"

text \<open>How a call goes on: it returns, it yields and then returns, it sleeps until the other side has
  acted, or it sleeps and tries again.\<close>

datatype ipc_outcome = Ipc_Return int | Ipc_Yield int | Ipc_Sleep | Ipc_Retry

definition upd_channel :: "nat \<Rightarrow> ChannelInner \<Rightarrow> kernel \<Rightarrow> system \<Rightarrow> system" where
  "upd_channel c x k st = st\<lparr>objs := (objs st)\<lparr>channels := (channels (objs st))(c := x), kern := k\<rparr>\<rparr>"

text \<open>Post a completion; when that wakes a thread, it gets the rest of the quantum and the caller yields.\<close>

definition post_and_donate :: "nat \<Rightarrow> Completion \<Rightarrow> system \<Rightarrow> bool \<times> system" where
  "post_and_donate i x st =
     (case post_at i x (obj_ports (objs st)) (kern (objs st)) of (woken, ps, k) \<Rightarrow>
        let st1 = st\<lparr>objs := (objs st)\<lparr>obj_ports := ps, kern := k\<rparr>\<rparr> in
        case woken of Some idx \<Rightarrow> (True, map_kern (set_donate_target idx) st1) | None \<Rightarrow> (False, st1))"

definition recv_completion :: "PendingPortRecv \<Rightarrow> EnvelopedMessage \<Rightarrow> Completion" where
  "recv_completion pr env =
     \<lparr>c_user_data = recv_user_data pr, c_result = 0, c_flags = 0, c_opcode = OP_IPC_RECV,
      read_buf = Some (ipc_msg_to_bytes (msg env)), read_dest = recv_buf_dest pr, transfer_fds = env_fds env\<rparr>"

text \<open>One round of the send loop. A message that comes back keeps its envelope for the next round,
  except where the call returns, which drops it.\<close>

definition ipc_send_round :: "nat \<Rightarrow> EnvelopedMessage \<Rightarrow> bool \<Rightarrow> system \<Rightarrow> (ipc_outcome \<times> EnvelopedMessage option \<times> system) res" where
  "ipc_send_round c env nonblock st =
     bind_res (try_send env nonblock (channels (objs st) c) (kern (objs st))) (\<lambda>(a, x, k, dropped).
     bind_res (close_objects (concat (map drop_env dropped)) (objs (upd_channel c x k st))) (\<lambda>os.
       let st1 = st\<lparr>objs := os\<rparr> in
       case a of
         Done \<Rightarrow> Inr (Ipc_Return 0, None, st1)
       | Donated t \<Rightarrow> Inr (Ipc_Yield 0, None, map_kern (set_donate_target t) st1)
       | Send_Block \<Rightarrow> Inr (Ipc_Sleep, None, st1)
       | BlockWithMsg e \<Rightarrow> Inr (Ipc_Retry, Some e, st1)
       | Send_WouldBlock e \<Rightarrow> bind_res (close_objects (drop_env e) os) (\<lambda>os'. Inr (Ipc_Return (- EAGAIN), None, st\<lparr>objs := os'\<rparr>))
       | Send_PeerClosed e \<Rightarrow> bind_res (close_objects (drop_env e) os) (\<lambda>os'. Inr (Ipc_Return (- EPIPE), None, st\<lparr>objs := os'\<rparr>))
       | PostToPort pr e \<Rightarrow>
           (case post_and_donate (recv_port pr) (recv_completion pr e) st1 of (yields, st2) \<Rightarrow>
              Inr (if yields then Ipc_Yield 0 else Ipc_Return 0, None, st2))))"

text \<open>A sender that slept with its message in the channel looks whether the receiver is gone.\<close>

definition ipc_send_woken :: "nat \<Rightarrow> system \<Rightarrow> int" where
  "ipc_send_woken c st = (if is_recv_closed (channels (objs st) c) then - EPIPE else 0)"

definition sys_ipc_send :: "nat \<Rightarrow> nat \<Rightarrow> u32 \<Rightarrow> memory \<Rightarrow> system \<Rightarrow> (ipc_outcome \<times> EnvelopedMessage option \<times> system) res" where
  "sys_ipc_send fd ptr flags m st =
     (if \<not> validate_user_buf ptr IPC_MSG_SIZE then Inr (Ipc_Return (- EFAULT), None, st)
      else case get_channel_send fd st of
        Inl e \<Rightarrow> Inr (Ipc_Return e, None, st)
      | Inr c \<Rightarrow>
          bind_res (extract_transfer_fds (load_msg ptr m) st) (\<lambda>(r, st1).
            case r of
              Inl e \<Rightarrow> Inr (Ipc_Return e, None, st1)
            | Inr slots \<Rightarrow>
                ipc_send_round c \<lparr>msg = load_msg ptr m, env_fds = slots\<rparr> (flags AND IPC_NONBLOCK \<noteq> 0) st1))"

definition ipc_recv_round :: "nat \<Rightarrow> nat \<Rightarrow> bool \<Rightarrow> memory \<Rightarrow> system \<Rightarrow> (ipc_outcome \<times> memory \<times> system) res" where
  "ipc_recv_round c ptr nonblock m st =
     bind_res (try_recv nonblock (channels (objs st) c) (kern (objs st))) (\<lambda>(a, x, k).
       let st1 = upd_channel c x k st in
       case a of
         Message env \<Rightarrow> bind_res (deliver_to_user env ptr m st1) (\<lambda>(rc, m', st2). Inr (Ipc_Return rc, m', st2))
       | Recv_Block \<Rightarrow> Inr (Ipc_Retry, m, st1)
       | MessageAndNotifySendPort env port ud \<Rightarrow>
           bind_res (deliver_to_user env ptr m st1) (\<lambda>(rc, m', st2).
             case post_and_donate port (simple_completion ud 0 OP_IPC_SEND) st2 of (yields, st3) \<Rightarrow>
               Inr (if yields then Ipc_Yield rc else Ipc_Return rc, m', st3))
       | Recv_WouldBlock \<Rightarrow> Inr (Ipc_Return (- EAGAIN), m, st1)
       | Recv_PeerClosed \<Rightarrow> Inr (Ipc_Return (- EPIPE), m, st1))"

definition sys_ipc_recv :: "nat \<Rightarrow> nat \<Rightarrow> u32 \<Rightarrow> memory \<Rightarrow> system \<Rightarrow> (ipc_outcome \<times> memory \<times> system) res" where
  "sys_ipc_recv fd ptr flags m st =
     (if \<not> validate_user_buf ptr IPC_MSG_SIZE then Inr (Ipc_Return (- EFAULT), m, st)
      else case get_channel_recv fd st of
        Inl e \<Rightarrow> Inr (Ipc_Return e, m, st)
      | Inr c \<Rightarrow> ipc_recv_round c ptr (flags AND IPC_NONBLOCK \<noteq> 0) m st)"

subsection \<open>Messages round trip through memory\<close>

definition msg_ok :: "IpcMessage \<Rightarrow> bool" where
  "msg_ok x \<longleftrightarrow> length (msg_data x) = 3 \<and> length (msg_fds x) = 4 \<and> (\<forall>fd\<in>set (msg_fds x). - (2 ^ 31) \<le> fd \<and> fd < 2 ^ 31)"

lemma of_le_bytes_fd:
  assumes "- (2 ^ 31) \<le> fd" and "fd < 2 ^ 31"
  shows "sint (of_nat (of_le_bytes (fd_bytes fd)) :: u32) = fd"
proof -
  have "unat (word_of_int fd :: u32) < 256 ^ 4" using unsigned_less [of "word_of_int fd :: u32"] by simp
  then have "of_le_bytes (fd_bytes fd) = unat (word_of_int fd :: u32)"
    by (simp add: fd_bytes_def of_le_bytes_le_bytes)
  then have "(of_nat (of_le_bytes (fd_bytes fd)) :: u32) = word_of_int fd" by simp
  moreover have "sint (word_of_int fd :: u32) = fd"
    using assms by (simp add: signed_take_bit_int_eq_self sint_sbintrunc' flip: sint_uint)
  ultimately show ?thesis by simp
qed

lemma length_fd_bytes [simp]: "length (fd_bytes fd) = 4"
  by (simp add: fd_bytes_def)

lemma msg_okE:
  assumes "msg_ok x"
  obtains a b c e f g h where "msg_data x = [a, b, c]" "msg_fds x = [e, f, g, h]"
  using assms by (auto simp: msg_ok_def length_Suc_conv numeral_eq_Suc)

lemma length_msg_bytes [simp]: "msg_ok x \<Longrightarrow> length (ipc_msg_to_bytes x) = 48"
  by (elim msg_okE) (simp add: ipc_msg_to_bytes_def)

lemma msg_bytes_roundtrip:
  assumes "msg_ok x"
  shows "ipc_msg_of_bytes (ipc_msg_to_bytes x) = x"
proof -
  obtain a b c e f g h where d: "msg_data x = [a, b, c]" and fd: "msg_fds x = [e, f, g, h]"
    using assms by (rule msg_okE)
  have [simp]: "sint (of_nat (of_le_bytes (fd_bytes i)) :: u32) = i" if "i \<in> {e, f, g, h}" for i
    using of_le_bytes_fd [of i] assms that by (auto simp: msg_ok_def fd)
  have u: "[0..<3] = [0, 1, 2 :: nat]" "[0..<4] = [0, 1, 2, 3 :: nat]" by (simp_all add: upt_rec)
  show ?thesis
    by (cases x) (use d fd in \<open>simp add: ipc_msg_of_bytes_def ipc_msg_to_bytes_def u of_le_bytes_word\<close>)
qed

lemma load_store_msg: "msg_ok x \<Longrightarrow> load_msg a (store_msg a x m) = x"
  using load_store_bytes_same [of a "ipc_msg_to_bytes x" m]
  by (simp add: load_msg_def store_msg_def IPC_MSG_SIZE_def msg_bytes_roundtrip)

lemma load_msg_ok: "msg_ok (load_msg a m)"
  unfolding load_msg_def msg_ok_def ipc_msg_of_bytes_def
  using sint_lt [where 'a = 32] sint_ge [where 'a = 32] by (auto simp del: upt.simps)


subsection \<open>What travels with a message\<close>

text \<open>The descriptor field of a message says the same as a slot: unused, or a name of the object.\<close>

definition names :: "fd_table \<Rightarrow> FdObject option \<Rightarrow> int \<Rightarrow> bool" where
  "names t s fd \<longleftrightarrow> (case s of None \<Rightarrow> fd = -1 | Some obj \<Rightarrow> 0 \<le> fd \<and> get_fd (nat fd) t = Inr obj)"

lemma names_simps [simp]:
  "names t None fd \<longleftrightarrow> fd = -1" "names t (Some obj) fd \<longleftrightarrow> 0 \<le> fd \<and> get_fd (nat fd) t = Inr obj"
  by (simp_all add: names_def)

lemma notify_dup_kern: "notify_dup obj os = Inr os' \<Longrightarrow> kern os' = kern os"
  by (auto simp: notify_dup_def handle_on_dup_def split: FdObject.splits FileHandle.splits ChannelFd.splits)

lemma extract_loop_objects:
  assumes "extract_loop fds acc st = Inr (Inr slots, st')" and "get_proc (running_pid st) st = Some p"
  shows "\<exists>ss. slots = acc @ ss \<and> list_all2 (names (pr_fds p)) ss fds \<and> procs st' = procs st \<and> kern (objs st') = kern (objs st)"
  using assms
proof (induction fds arbitrary: acc st)
  case Nil
  then show ?case by simp
next
  case (Cons fd fds)
  show ?case
  proof (cases "fd = -1")
    case True
    with Cons.prems have "extract_loop fds (acc @ [None]) st = Inr (Inr slots, st')" by simp
    from Cons.IH [OF this Cons.prems(2)] obtain ss where
      "slots = acc @ None # ss" "list_all2 (names (pr_fds p)) ss fds" "procs st' = procs st" "kern (objs st') = kern (objs st)"
      by auto
    with True show ?thesis by (intro exI [of _ "None # ss"]) simp
  next
    case False
    from Cons.prems False obtain e os where e: "0 \<le> fd" "get_fd_entry (nat fd) (pr_fds p) = Inr e"
      "notify_dup (object e) (objs st) = Inr os"
      "extract_loop fds (acc @ [Some (object e)]) (st\<lparr>objs := os\<rparr>) = Inr (Inr slots, st')"
      by (auto simp: with_process_ref_def split: if_splits sum.splits)
    have g: "get_fd (nat fd) (pr_fds p) = Inr (object e)"
      using e(2) by (auto simp: get_fd_entry_def get_fd_def split: if_splits option.splits)
    have k: "kern os = kern (objs st)" by (rule notify_dup_kern [OF e(3)])
    have "get_proc (running_pid (st\<lparr>objs := os\<rparr>)) (st\<lparr>objs := os\<rparr>) = Some p"
      using Cons.prems(2) by (simp add: running_pid_def k)
    from Cons.IH [OF e(4) this] obtain ss where "slots = acc @ Some (object e) # ss" "list_all2 (names (pr_fds p)) ss fds"
      "procs st' = procs st" "kern (objs st') = kern (objs st)"
      using k by auto
    with e(1) g show ?thesis by (intro exI [of _ "Some (object e) # ss"]) simp
  qed
qed

text \<open>Allocating a descriptor for the running process leaves the others as they are.\<close>

definition keeps_fds :: "fd_table \<Rightarrow> fd_table \<Rightarrow> bool" where
  "keeps_fds t t' \<longleftrightarrow> (\<forall>j obj. get_fd j t = Inr obj \<longrightarrow> get_fd j t' = Inr obj)"

lemma keeps_fds_trans: "keeps_fds t t' \<Longrightarrow> keeps_fds t' t'' \<Longrightarrow> keeps_fds t t''"
  by (simp add: keeps_fds_def)

lemma helper_alloc_fd_get:
  assumes "helper_alloc_fd obj st = (Inr fd, st')" and "get_proc (running_pid st) st = Some q"
    and "length (pr_fds q) \<le> MAX_FDS"
  obtains q' where "get_proc (running_pid st) st' = Some q'" "running_pid st' = running_pid st" "objs st' = objs st"
    "get_fd fd (pr_fds q') = Inr obj" "keeps_fds (pr_fds q) (pr_fds q')" "length (pr_fds q') \<le> MAX_FDS" "fd < MAX_FDS"
proof -
  from assms obtain t where t: "alloc_fd_with_flags obj 0 (pr_fds q) = Inr (fd, t)"
    and st': "st' = upd_proc (running_pid st) (\<lambda>p. p\<lparr>pr_fds := t\<rparr>) st"
    by (auto simp: helper_alloc_fd_def helper_alloc_fd_with_flags_def Let_def split: sum.splits)
  have "length t \<le> MAX_FDS" "fd < MAX_FDS"
    using t assms(3) by (auto simp: alloc_fd_with_flags_def position_Some_iff split: option.splits if_splits)
  moreover have "keeps_fds (pr_fds q) t"
    unfolding keeps_fds_def using alloc_fd_get(2,3) [OF t] by (metis sum.distinct(2))
  ultimately show ?thesis
    using that [of "q\<lparr>pr_fds := t\<rparr>"] alloc_fd_get [OF t] assms(2) st' by (simp add: running_pid_def)
qed

lemma install_loop_objects:
  assumes "install_loop slots allocated st = Inr (Inr al, st')" and "get_proc (running_pid st) st = Some q"
    and "length (pr_fds q) \<le> MAX_FDS"
  shows "\<exists>as q'. al = allocated @ as \<and> get_proc (running_pid st) st' = Some q' \<and> keeps_fds (pr_fds q) (pr_fds q') \<and>
    list_all2 (names (pr_fds q')) slots as \<and> (\<forall>a\<in>set as. -1 \<le> a \<and> a < int MAX_FDS)"
  using assms
proof (induction slots allocated st arbitrary: q rule: install_loop.induct)
  case (1 allocated st)
  then show ?case by (simp add: keeps_fds_def)
next
  case (2 slots allocated st)
  from "2.IH" [of q] "2.prems" obtain as q' where "al = allocated @ (-1) # as" "get_proc (running_pid st) st' = Some q'"
    "keeps_fds (pr_fds q) (pr_fds q')" "list_all2 (names (pr_fds q')) slots as" "\<forall>a\<in>set as. -1 \<le> a \<and> a < int MAX_FDS"
    by auto
  then show ?case by (intro exI [of _ "-1 # as"] exI [of _ q']) (simp add: MAX_FDS_def)
next
  case (3 obj slots allocated st)
  then obtain fd st1 where a: "helper_alloc_fd obj st = (Inr fd, st1)"
    and l: "install_loop slots (allocated @ [int fd]) st1 = Inr (Inr al, st')"
    by (auto split: prod.splits sum.splits)
  obtain q1 where q1: "get_proc (running_pid st) st1 = Some q1" "running_pid st1 = running_pid st" "objs st1 = objs st"
    "get_fd fd (pr_fds q1) = Inr obj" "keeps_fds (pr_fds q) (pr_fds q1)" "length (pr_fds q1) \<le> MAX_FDS" "fd < MAX_FDS"
    by (rule helper_alloc_fd_get [OF a "3.prems"(2,3)])
  have p1: "get_proc (running_pid st1) st1 = Some q1" using q1(1,2) by simp
  from "3.IH"(1) [OF a [symmetric] refl l p1 q1(6)] obtain as q' where
    "al = allocated @ int fd # as" "get_proc (running_pid st) st' = Some q'"
    "keeps_fds (pr_fds q1) (pr_fds q')" "list_all2 (names (pr_fds q')) slots as" "\<forall>a\<in>set as. -1 \<le> a \<and> a < int MAX_FDS"
    unfolding q1(2) by auto
  with q1(4,5,7) show ?case
    by (intro exI [of _ "int fd # as"] exI [of _ q']) (auto simp: keeps_fds_def)
qed

lemma install_error: "install_loop slots al st = Inr (Inl e, st') \<Longrightarrow> e = - EMFILE"
  by (induction slots al st rule: install_loop.induct) (auto split: prod.splits sum.splits)

text \<open>The message that the next receive takes.\<close>

definition next_message :: "ChannelInner \<Rightarrow> EnvelopedMessage option" where
  "next_message x = (if capacity x = 0 then pending_send x else case ch_queue x of [] \<Rightarrow> None | env # _ \<Rightarrow> Some env)"

definition idle :: "ChannelInner \<Rightarrow> bool" where
  "idle x \<longleftrightarrow> ch_queue x = [] \<and> pending_send x = None \<and> pending_port x = None"

text \<open>Taking references to the objects of a message changes nothing of a channel but its counts.\<close>

definition only_counts :: "ChannelInner \<Rightarrow> ChannelInner \<Rightarrow> bool" where
  "only_counts x x' \<longleftrightarrow> x' = x\<lparr>send_count := send_count x', recv_count := recv_count x'\<rparr>"

lemma only_counts_trans: "only_counts x y \<Longrightarrow> only_counts y z \<Longrightarrow> only_counts x z"
  by (cases x; cases y; cases z) (simp add: only_counts_def)

lemma only_counts_parts:
  assumes "only_counts x x'"
  shows "idle x' = idle x" "pending_send_port x' = pending_send_port x"
  using assms by (cases x; cases x'; simp add: only_counts_def idle_def)+

lemma notify_dup_counts_only: "notify_dup obj os = Inr os' \<Longrightarrow> only_counts (channels os c) (channels os' c) \<and> obj_ports os' = obj_ports os"
  by (auto simp: notify_dup_def handle_on_dup_def dup_send_def dup_recv_def only_counts_def
      split: FdObject.splits FileHandle.splits ChannelFd.splits if_splits)

lemma extract_loop_counts_only:
  "extract_loop fds acc st = Inr (Inr slots, st') \<Longrightarrow>
    only_counts (channels (objs st) c) (channels (objs st') c) \<and> obj_ports (objs st') = obj_ports (objs st)"
proof (induction fds arbitrary: acc st)
  case (Cons fd fds)
  show ?case
  proof (cases "fd = -1")
    case False
    with Cons.prems obtain e :: FdEntry and os where "notify_dup (object e) (objs st) = Inr os"
      "extract_loop fds (acc @ [Some (object e)]) (st\<lparr>objs := os\<rparr>) = Inr (Inr slots, st')"
      by (auto split: if_splits option.splits sum.splits)
    with Cons.IH [of "acc @ [Some (object e)]" "st\<lparr>objs := os\<rparr>"] notify_dup_counts_only [of "object e" "objs st" os c]
    show ?thesis by (auto intro: only_counts_trans)
  qed (use Cons in simp)
qed (simp add: only_counts_def)

lemma send_round_deposits:
  assumes "ipc_send_round c env nonblock st = Inr (r, left, st')" and "idle (channels (objs st) c)"
    and "r \<in> {Ipc_Return 0, Ipc_Yield 0, Ipc_Sleep}"
  shows "next_message (channels (objs st') c) = Some env"
  using assms
  by (auto simp: ipc_send_round_def try_send_def try_send_sync_def try_send_async_def idle_def next_message_def opt_list_def
      upd_channel_def Let_def const_defs split: if_splits option.splits)

lemma try_recv_takes:
  assumes "try_recv nonblock x k = Inr (a, x', k')" and "next_message x = Some env"
  shows "(a = Message env \<or> (\<exists>port ud. a = MessageAndNotifySendPort env port ud)) \<and> cpu k' = cpu k"
  using assms
  by (auto simp: try_recv_def next_message_def wake_opt_def unblock_def Let_def split: if_splits option.splits list.splits)

lemma post_and_donate_procs: "post_and_donate i y st = (b, st') \<Longrightarrow> procs st' = procs st"
  by (auto simp: post_and_donate_def Let_def split: prod.splits option.splits)

lemma recv_round_takes:
  assumes "ipc_recv_round c ptr nonblock m st = Inr (r, m', st')" and "next_message (channels (objs st) c) = Some env"
    and "r \<in> {Ipc_Return 0, Ipc_Yield 0}"
  shows "\<exists>st0 st1. deliver_to_user env ptr m st0 = Inr (0, m', st1) \<and> procs st0 = procs st \<and>
    running_pid st0 = running_pid st \<and> procs st1 = procs st'"
proof -
  from assms(1) obtain a x k where T: "try_recv nonblock (channels (objs st) c) (kern (objs st)) = Inr (a, x, k)"
    by (auto simp: ipc_recv_round_def)
  let ?st = "upd_channel c x k st"
  note A = try_recv_takes [OF T assms(2)]
  from assms(1) A T obtain rc m1 st1 where D: "deliver_to_user env ptr m ?st = Inr (rc, m1, st1)"
    by (auto simp: ipc_recv_round_def Let_def)
  have "rc = 0 \<and> m1 = m' \<and> procs st1 = procs st'"
    using assms(1,3) A T D
    by (auto simp: ipc_recv_round_def Let_def dest: post_and_donate_procs [THEN sym] split: prod.split_asm if_split_asm)
  with D have "\<exists>st1. deliver_to_user env ptr m ?st = Inr (0, m', st1) \<and> procs st1 = procs st'" by blast
  with D have "\<exists>st1. deliver_to_user env ptr m ?st = Inr (0, m', st1) \<and> procs st1 = procs st'" by blast
  moreover have "procs ?st = procs st" "running_pid ?st = running_pid st"
    using A by (simp_all add: upd_channel_def running_pid_def)
  ultimately show ?thesis by blast
qed

text \<open>The sender's copy of the message and the receiver's: same tag and data, and the descriptors of each
  name in the owner's table the same objects.\<close>

definition same_message :: "fd_table \<Rightarrow> IpcMessage \<Rightarrow> fd_table \<Rightarrow> IpcMessage \<Rightarrow> bool" where
  "same_message t x t' y \<longleftrightarrow> msg_tag y = msg_tag x \<and> msg_data y = msg_data x \<and>
     (\<exists>slots. list_all2 (names t) slots (msg_fds x) \<and> list_all2 (names t') slots (msg_fds y))"

lemma map_sum_Inr: "map_sum id Some r = Inr s \<longleftrightarrow> (\<exists>x. r = Inr x \<and> s = Some x)"
  and map_sum_Inl: "map_sum id Some r = Inl e \<longleftrightarrow> r = Inl e"
  by (cases r; auto)+

lemma extract_names:
  assumes "extract_transfer_fds x st = Inr (Inr s, st')" and "get_proc (running_pid st) st = Some p"
  shows "list_all2 (names (pr_fds p)) (case s of None \<Rightarrow> replicate (length (msg_fds x)) None | Some ss \<Rightarrow> ss) (msg_fds x)"
proof (cases "\<forall>fd\<in>set (msg_fds x). fd = -1")
  case True
  then have "list_all2 (names t) (replicate (length fds) None) fds" if "fds = msg_fds x" for t fds
    unfolding that by (simp add: list_all2_conv_all_nth)
  with True assms(1) show ?thesis by (simp add: extract_transfer_fds_def)
next
  case False
  with assms(1) obtain ss where "extract_loop (msg_fds x) [] st = Inr (Inr ss, st')" "s = Some ss"
    by (auto simp: extract_transfer_fds_def map_sum_Inr)
  with extract_loop_objects [OF _ assms(2), of "msg_fds x" "[]" ss st'] show ?thesis by auto
qed

lemma extract_counts_only:
  "extract_transfer_fds x st = Inr (Inr s, st') \<Longrightarrow>
    only_counts (channels (objs st) c) (channels (objs st') c) \<and> obj_ports (objs st') = obj_ports (objs st)"
  by (auto simp: extract_transfer_fds_def map_sum_Inr only_counts_def [of x x for x] dest: extract_loop_counts_only [of _ _ _ _ _ c] split: if_splits)

lemma extract_error: "extract_transfer_fds x st = Inr (Inl e, st') \<Longrightarrow> e = - EBADF"
proof -
  have loop: "extract_loop fds acc st = Inr (Inl e, st') \<Longrightarrow> e = - EBADF" for fds acc
    by (induction fds acc st rule: extract_loop.induct) (auto split: if_splits option.splits sum.splits)
  show "extract_transfer_fds x st = Inr (Inl e, st') \<Longrightarrow> e = - EBADF"
    by (auto simp: extract_transfer_fds_def map_sum_Inl dest: loop split: if_splits)
qed

lemma deliver_names:
  assumes "deliver_to_user env ptr m st = Inr (0, m', st')" and "get_proc (running_pid st) st = Some q"
    and "length (pr_fds q) \<le> MAX_FDS" and "msg_ok (msg env)" and "length (the (env_fds env)) = 4 \<or> env_fds env = None"
    and "list_all2 (names t) (case env_fds env of None \<Rightarrow> replicate 4 None | Some ss \<Rightarrow> ss) (msg_fds (msg env))"
  shows "\<exists>q'. get_proc (running_pid st) st' = Some q' \<and> same_message t (msg env) (pr_fds q') (load_msg ptr m')"
proof (cases "env_fds env")
  case None
  have "\<forall>fd\<in>set (msg_fds (msg env)). fd = -1"
    using assms(6) None by (auto simp: list_all2_conv_all_nth in_set_conv_nth)
  then have "list_all2 (names u) (replicate 4 None) (msg_fds (msg env))" for u
    using assms(4) by (simp add: list_all2_conv_all_nth msg_ok_def)
  with None assms(1,2,4) show ?thesis
    by (auto simp: deliver_to_user_def load_store_msg same_message_def intro!: exI [of _ "replicate 4 None"])
next
  case (Some slots)
  with assms(1) obtain y st1 where y: "install_loop slots [] st = Inr (y, st1)"
    by (auto simp: deliver_to_user_def install_transfer_fds_def)
  with assms(1) Some obtain al where I: "install_loop slots [] st = Inr (Inr al, st')"
    and m': "m' = store_msg ptr ((msg env)\<lparr>msg_fds := al\<rparr>) m"
    by (cases y) (auto simp: deliver_to_user_def install_transfer_fds_def EMFILE_def dest: install_error)
  from install_loop_objects [OF I assms(2,3)] obtain q' where q': "get_proc (running_pid st) st' = Some q'"
    "list_all2 (names (pr_fds q')) slots al" "\<forall>a\<in>set al. -1 \<le> a \<and> a < int MAX_FDS" by auto
  have "length al = 4" using list_all2_lengthD [OF q'(2)] assms(5) Some by simp
  then have "msg_ok ((msg env)\<lparr>msg_fds := al\<rparr>)"
    using assms(4) q'(3) by (fastforce simp: msg_ok_def MAX_FDS_def)
  with q'(1,2) assms(6) Some show ?thesis
    by (auto simp: m' load_store_msg same_message_def)
qed

text \<open>C32: Capabilities travel. When a send on an idle channel succeeds (whether it returns, hands its
  quantum to a waiting receiver or sleeps with the message in the channel) and the next receive on the channel
  succeeds, the message in the receiver's buffer has the sender's tag and data, and each of its descriptors is
  -1 where the sender's was, and otherwise names in the receiver's table the object that the sender's
  descriptor named in the sender's table.\<close>

theorem ipc_transfers_capabilities:
  assumes "sys_ipc_send sfd src fl m st = Inr (r, left, st1)" and "r \<in> {Ipc_Return 0, Ipc_Yield 0, Ipc_Sleep}"
    and "get_proc (running_pid st) st = Some p" and "get_channel_send sfd st = Inr c" and "idle (channels (objs st) c)"
    and "sys_ipc_recv rfd dst fl' m2 st2 = Inr (r', m3, st3)" and "r' \<in> {Ipc_Return 0, Ipc_Yield 0}"
    and "get_proc (running_pid st2) st2 = Some q" and "get_channel_recv rfd st2 = Inr c"
    and "channels (objs st2) c = channels (objs st1) c" and "length (pr_fds q) \<le> MAX_FDS"
  shows "\<exists>q'. get_proc (running_pid st2) st3 = Some q' \<and>
    same_message (pr_fds p) (load_msg src m) (pr_fds q') (load_msg dst m3)"
proof -
  let ?x = "load_msg src m"
  have v: "validate_user_buf src IPC_MSG_SIZE" using assms(1,2) by (auto simp: sys_ipc_send_def EFAULT_def split: if_splits)
  with assms(1,4) obtain y stx where y: "extract_transfer_fds ?x st = Inr (y, stx)"
    by (auto simp: sys_ipc_send_def)
  with assms(1,2,4) v obtain s where E: "extract_transfer_fds ?x st = Inr (Inr s, stx)"
    and R: "ipc_send_round c \<lparr>msg = ?x, env_fds = s\<rparr> (fl AND IPC_NONBLOCK \<noteq> 0) stx = Inr (r, left, st1)"
    by (cases y) (auto simp: sys_ipc_send_def EBADF_def dest: extract_error)
  have "next_message (channels (objs st2) c) = Some \<lparr>msg = ?x, env_fds = s\<rparr>"
    using send_round_deposits [OF R _ assms(2)] only_counts_parts(1) [OF conjunct1 [OF extract_counts_only [OF E, of c]]] assms(5,10) by simp
  moreover have "ipc_recv_round c dst (fl' AND IPC_NONBLOCK \<noteq> 0) m2 st2 = Inr (r', m3, st3)"
    using assms(6,7,9) by (auto simp: sys_ipc_recv_def const_defs split: if_splits)
  ultimately obtain st0 st4 where D: "deliver_to_user \<lparr>msg = ?x, env_fds = s\<rparr> dst m2 st0 = Inr (0, m3, st4)"
    "procs st0 = procs st2" "running_pid st0 = running_pid st2" "procs st4 = procs st3"
    using recv_round_takes [OF _ _ assms(7)] by blast
  have ok: "msg_ok ?x" "length (msg_fds ?x) = 4" using load_msg_ok [of src m] by (simp_all add: msg_ok_def)
  note N = extract_names [OF E assms(3), unfolded ok(2)]
  have "get_proc (running_pid st0) st0 = Some q" using assms(8) D(2,3) by (simp add: get_proc_def)
  from deliver_names [OF D(1) this assms(11), of "pr_fds p"] ok N list_all2_lengthD [OF N] show ?thesis
    using D(3,4) by (auto simp: get_proc_def split: option.splits)
qed

text \<open>Process 1 has the send end of a channel and a console, process 2 the receive end.\<close>

definition peers :: "nat \<Rightarrow> system" where
  "peers pid = map_kern (\<lambda>k. k\<lparr>cpu := (cpu k)\<lparr>current_pid := pid\<rparr>\<rparr>) (family\<lparr>
     procs := \<lparr>proc_table = [(1, example_process 1 0 [Some (from_object (Channel (Send 0)) 0), Some (from_object (File 0) 0)] None),
                            (2, example_process 2 0 [Some (from_object (Channel (Recv 0)) 0)] None)], next_pid = 3\<rparr>,
     objs := (objs family)\<lparr>channels := (\<lambda>_. channel_new 1)\<rparr>\<rparr>)"

definition example_msg :: IpcMessage where
  "example_msg = \<lparr>msg_tag = 7, msg_data = [1, 2, 3], msg_fds = [1, -1, -1, -1]\<rparr>"

lemma ipc_transfers_capabilities_witness:
  "\<exists>st1 m3 st3 q'. sys_ipc_send 0 0x2000 0 (store_msg 0x2000 example_msg (\<lambda>_. 0)) (peers 1) = Inr (Ipc_Return 0, None, st1)
     \<and> sys_ipc_recv 0 0x3000 0 (\<lambda>_. 0) ((peers 2)\<lparr>objs := (objs (peers 2))\<lparr>channels := channels (objs st1)\<rparr>\<rparr>) = Inr (Ipc_Return 0, m3, st3)
     \<and> get_proc 2 st3 = Some q'
     \<and> same_message [Some (from_object (Channel (Send 0)) 0), Some (from_object (File 0) 0)] example_msg (pr_fds q') (load_msg 0x3000 m3)"
proof -
  let ?m = "store_msg 0x2000 example_msg (\<lambda>_. 0)"
  have x: "load_msg 0x2000 ?m = example_msg"
    by (rule load_store_msg) (simp add: msg_ok_def example_msg_def)
  have v: "validate_user_buf 0x2000 IPC_MSG_SIZE" "validate_user_buf 0x3000 IPC_MSG_SIZE"
    by (simp_all add: validate_user_buf_def USER_LIMIT_def IPC_MSG_SIZE_def)
  have p: "get_proc (running_pid (peers 1)) (peers 1) =
      Some (example_process 1 0 [Some (from_object (Channel (Send 0)) 0), Some (from_object (File 0) 0)] None)"
    and q: "get_proc (running_pid (peers 2)) (peers 2) =
      Some (example_process 2 0 [Some (from_object (Channel (Recv 0)) 0)] None)"
    and ch: "channels (objs (peers i)) c = channel_new 1" and h: "handles (objs (peers i)) 0 = ConsoleHandle True" for i c
    by (simp_all add: peers_def running_pid_def get_proc_def btree_get_def family_def pipe_objects_def)
  have cs: "get_channel_send 0 (peers 1) = Inr 0"
    using p by (simp add: get_channel_send_def current_fd_def with_process_ref_def example_process_def get_fd_def from_object_def as_channel_def)
  have E: "extract_transfer_fds example_msg (peers 1) = Inr (Inr (Some [Some (File 0), None, None, None]), peers 1)"
    using p h by (simp add: extract_transfer_fds_def example_msg_def with_process_ref_def example_process_def get_fd_entry_def
        from_object_def notify_dup_def handle_on_dup_def)
  let ?env = "\<lparr>msg = example_msg, env_fds = Some [Some (File 0), None, None, None]\<rparr>"
  obtain st1 where S: "sys_ipc_send 0 0x2000 0 ?m (peers 1) = Inr (Ipc_Return 0, None, st1)"
    and c1: "channels (objs st1) 0 = (channel_new 1)\<lparr>ch_queue := [?env]\<rparr>"
    using v(1) cs E by (simp add: sys_ipc_send_def x ipc_send_round_def ch try_send_def try_send_async_def channel_new_def
        upd_channel_def Let_def)
  let ?st2 = "(peers 2)\<lparr>objs := (objs (peers 2))\<lparr>channels := channels (objs st1)\<rparr>\<rparr>"
  have q2: "get_proc (running_pid ?st2) ?st2 = Some (example_process 2 0 [Some (from_object (Channel (Recv 0)) 0)] None)"
    using q by (simp add: running_pid_def)
  then have cr: "get_channel_recv 0 ?st2 = Inr 0"
    by (simp add: get_channel_recv_def current_fd_def with_process_ref_def example_process_def get_fd_def from_object_def as_channel_def)
  let ?t = "[Some (from_object (Channel (Recv 0)) 0)]"
  have "position (\<lambda>s. s = None) ?t = None" by (simp add: position_None_iff)
  then have al: "alloc_fd_with_flags (File 0) 0 ?t = Inr (1, ?t @ [Some (from_object (File 0) 0)])"
    by (simp add: alloc_fd_with_flags_def MAX_FDS_def)
  have I: "install_loop [Some (File 0), None, None, None] [] st = Inr (Inr [1, -1, -1, -1],
      upd_proc (running_pid st) (\<lambda>p. p\<lparr>pr_fds := ?t @ [Some (from_object (File 0) 0)]\<rparr>) st)"
    if "get_proc (running_pid st) st = Some (example_process 2 0 ?t None)" for st
    using that al by (simp add: helper_alloc_fd_def helper_alloc_fd_with_flags_def example_process_def)
  let ?st = "upd_channel 0 (channel_new 1) (kern (objs ?st2)) ?st2"
  have "get_proc (running_pid ?st) ?st = Some (example_process 2 0 ?t None)"
    using q2 by (simp add: upd_channel_def running_pid_def)
  from I [OF this] obtain m3 st3 where R: "sys_ipc_recv 0 0x3000 0 (\<lambda>_. 0) ?st2 = Inr (Ipc_Return 0, m3, st3)"
    using v(2) cr c1
    by (simp add: sys_ipc_recv_def ipc_recv_round_def try_recv_def channel_new_def deliver_to_user_def install_transfer_fds_def)
  have "running_pid ?st2 = 2" by (simp add: peers_def running_pid_def)
  with ipc_transfers_capabilities [OF S _ p cs _ R _ q2 cr] S R show ?thesis
    unfolding x by (simp add: ch idle_def channel_new_def example_process_def MAX_FDS_def)
qed

subsection \<open>A receiver without a free descriptor\<close>

text \<open>C33: A message with a descriptor for a receiver whose table is full is lost, and the reference it carried is
  never given back: \<^verbatim>\<open>ipc_recv\<close> answers \<open>- EMFILE\<close>, the buffer and the tables are unchanged, the objects
  of the later slots are closed, but the object whose allocation failed keeps its count although no table
  and no message holds it any more. If it is a send end, its channel never closes for the
  receivers.\<close>

theorem install_failure_leaks:
  assumes "get_proc (running_pid st) st = Some q" and "length (pr_fds q) = MAX_FDS" and "None \<notin> set (pr_fds q)"
    and "counts_ok (objs st) (add_mset obj (mset (List.map_filter id slots)) + H)"
  shows "\<exists>st'. deliver_to_user \<lparr>msg = x, env_fds = Some (Some obj # slots)\<rparr> ptr m st = Inr (- EMFILE, m, st')
    \<and> procs st' = procs st \<and> counts_ok (objs st') (add_mset obj H)
    \<and> (\<forall>c. obj = Channel (Send c) \<longrightarrow> \<not> send_closed (channels (objs st') c))"
proof -
  have "position (\<lambda>s. s = None) (pr_fds q) = None" using assms(3) unfolding position_None_iff by (metis nth_mem)
  then have a: "helper_alloc_fd obj st = (Inl (file_errno TooManyOpenFiles), st)"
    using assms(1,2) by (simp add: helper_alloc_fd_def helper_alloc_fd_with_flags_def alloc_fd_with_flags_def)
  obtain os where os: "close_slots slots (objs st) = Inr os" "counts_ok os (add_mset obj H)"
    using close_objects_counts [OF assms(4), of "List.map_filter id slots"] by (auto simp: close_slots_def)
  have "deliver_to_user \<lparr>msg = x, env_fds = Some (Some obj # slots)\<rparr> ptr m st = Inr (- EMFILE, m, st\<lparr>objs := os\<rparr>)"
    using a os(1) by (simp add: deliver_to_user_def install_transfer_fds_def)
  with os(2) counts_okD(2) [OF os(2)] show ?thesis by (intro exI [of _ "st\<lparr>objs := os\<rparr>"]) auto
qed

text \<open>A process with 64 consoles receives a send end.\<close>

definition full_table :: system where
  "full_table = parent_running\<lparr>
     procs := \<lparr>proc_table = [(1, example_process 1 0 (replicate 64 (Some (from_object (File 0) 0))) None)], next_pid = 2\<rparr>,
     objs := (objs parent_running)\<lparr>channels := (\<lambda>_. closed_channel)(0 := (channel_new 1)\<lparr>recv_count := 0, recv_closed := True\<rparr>)\<rparr>\<rparr>"

lemma table_refs_same: "table_refs (replicate n (Some (from_object obj fl))) = replicate_mset n obj"
  by (induction n) (simp_all add: from_object_def)

lemma install_failure_leaks_witness:
  "\<exists>st'. deliver_to_user \<lparr>msg = example_msg, env_fds = Some [Some (Channel (Send 0)), None, None, None]\<rparr> 0x2000 (\<lambda>_. 0) full_table
      = Inr (- EMFILE, \<lambda>_. 0, st') \<and> \<not> send_closed (channels (objs st') 0)"
proof -
  have g: "get_proc (running_pid full_table) full_table =
      Some (example_process 1 0 (replicate 64 (Some (from_object (File 0) 0))) None)"
    by (simp add: full_table_def parent_running_def running_pid_def get_proc_def btree_get_def)
  have "counts_ok (objs full_table) (add_mset (Channel (Send 0)) (mset (List.map_filter id [None, None, None]))
      + add_mset (File 2) (table_refs (replicate 64 (Some (from_object (File 0) 0)))))"
    unfolding table_refs_same
    by (auto simp: counts_ok_def full_table_def parent_running_def family_def pipe_objects_def writes_to_def closed_channel_def
        closed_pipe_def make_pipe_def channel_new_def IrqInner_new_def List.map_filter_def)
  from install_failure_leaks [OF g _ _ this, where x = example_msg and ptr = "0x2000" and m = "\<lambda>_. 0"] show ?thesis
    by (auto simp: example_process_def MAX_FDS_def)
qed

end
