(* ===== verification/Io_Port.thy ===== *)
theory Io_Port
  imports Ipc Timer Notify Irq_Handle
begin

text \<open>
  The completion-port system calls of \<^verbatim>\<open>osl/src/io_port.rs\<close>: submissions, the tasks that they start, waiting,
  and the shared rings. They join ports, channels, interrupt handles, notifications, files and the
  timer. What other threads do while a caller is switched out is an argument; a call that sleeps is modelled round
  by round.
\<close>

subsection \<open>Tasks\<close>

text \<open>The tasks that the calls spawn, with what their futures hold. A timeout makes its \<^verbatim>\<open>Delay\<close> when it is first
  polled. A cancel flag is known by its number.\<close>

datatype io_task =
    Timeout_New (task_port: nat) (task_user_data: u64) nat
  | Timeout_Wait (task_port: nat) (task_user_data: u64) Delay
  | HandleReadFuture (task_port: nat) (task_user_data: u64) nat nat nat
  | HandleWriteFuture (task_port: nat) (task_user_data: u64) nat "u8 list"
  | Wakeup_New nat nat nat
  | CancellableDelay nat Delay nat

datatype io_effect = Spawn io_task | Unmask_Gsi u32 | Cancel nat

text \<open>\<^verbatim>\<open>FileHandle::poll_read\<close>; the task \<open>wkr\<close> is woken when it would block.\<close>

definition handle_poll_read :: "nat \<Rightarrow> nat \<Rightarrow> nat \<Rightarrow> system \<Rightarrow> (io_outcome \<times> system) res" where
  "handle_poll_read wkr h len st =
     (let os = objs st in
      case handles os h of
        ConsoleHandle readable \<Rightarrow>
          if \<not> readable then Inr (Io_Err BadFd, st)
          else (case poll_read_input wkr len (console st) of (r, c) \<Rightarrow> Inr (io_of_read r, st\<lparr>console := c\<rparr>))
      | PipeReader n \<Rightarrow>
          (case pipe_poll_read wkr len (pipes os n) of (r, p) \<Rightarrow>
             Inr (io_of_read r, st\<lparr>objs := os\<lparr>pipes := (pipes os)(n := p)\<rparr>\<rparr>))
      | _ \<Rightarrow> handle_read h len st)"

definition post_quiet :: "nat \<Rightarrow> Completion \<Rightarrow> system \<Rightarrow> system" where
  "post_quiet i x st =
     (case post_at i x (obj_ports (objs st)) (kern (objs st)) of (_, ps, k) \<Rightarrow>
        st\<lparr>objs := (objs st)\<lparr>obj_ports := ps, kern := k\<rparr>\<rparr>)"

definition read_completion :: "u64 \<Rightarrow> int \<Rightarrow> u8 list \<Rightarrow> nat \<Rightarrow> Completion" where
  "read_completion ud res buf dest =
     \<lparr>c_user_data = ud, c_result = res, c_flags = 0, c_opcode = OP_READ, read_buf = Some buf, read_dest = dest,
      transfer_fds = None\<rparr>"

text \<open>
  A task \<open>tid\<close> is polled; \<open>n\<close> ticks fire while a delay registers, \<open>cancelled\<close> are the flags that are set. The
  result is the task as it goes on, or \<open>None\<close> when it is done. The console's output is given back.
\<close>

type_synonym poll_result = "(io_task option \<times> u8 list \<times> timer \<times> system) res"

definition poll_timeout :: "nat \<Rightarrow> nat \<Rightarrow> nat \<Rightarrow> u64 \<Rightarrow> Delay \<Rightarrow> timer \<Rightarrow> system \<Rightarrow> poll_result" where
  "poll_timeout n tid port ud d t st =
     bind_res (poll_delay n d tid t) (\<lambda>(r, t').
       Inr (case r of
              Poll_Ready _ \<Rightarrow> (None, [], t', post_quiet port (simple_completion ud 0 OP_TIMEOUT) st)
            | Poll_Pending \<Rightarrow> (Some (Timeout_Wait port ud d), [], t', st)))"

definition poll_cancellable :: "nat \<Rightarrow> (nat \<Rightarrow> bool) \<Rightarrow> nat \<Rightarrow> nat \<Rightarrow> Delay \<Rightarrow> nat \<Rightarrow> timer \<Rightarrow> system \<Rightarrow> poll_result" where
  "poll_cancellable n cancelled tid thread d c t st =
     (if cancelled c then Inr (None, [], t, st)
      else bind_res (poll_delay n d tid t) (\<lambda>(r, t').
        Inr (case r of
               Poll_Ready _ \<Rightarrow> (None, [], t', map_kern (unblock thread) st)
             | Poll_Pending \<Rightarrow> (Some (CancellableDelay thread d c), [], t', st))))"

fun poll_io_task :: "(u8 list \<Rightarrow> bool) \<Rightarrow> nat \<Rightarrow> (nat \<Rightarrow> bool) \<Rightarrow> nat \<Rightarrow> io_task \<Rightarrow> timer \<Rightarrow> system \<Rightarrow> poll_result" where
  "poll_io_task utf8 n cancelled tid (Timeout_New port ud ms) t st =
     bind_res (from_millis ms t) (\<lambda>d. poll_timeout n tid port ud d t st)"
| "poll_io_task utf8 n cancelled tid (Timeout_Wait port ud d) t st = poll_timeout n tid port ud d t st"
| "poll_io_task utf8 n cancelled tid (HandleReadFuture port ud h len dest) t st =
     bind_res (handle_poll_read tid h len st) (\<lambda>(r, st').
       Inr (case r of
              Io_Ok bs \<Rightarrow> (None, [], t, post_quiet port (read_completion ud (int (length bs)) bs dest) st')
            | Io_Err e \<Rightarrow> (None, [], t, post_quiet port (read_completion ud (file_errno e) [] dest) st')
            | Io_Blocked \<Rightarrow> (Some (HandleReadFuture port ud h len dest), [], t, st')))"
| "poll_io_task utf8 n cancelled tid (HandleWriteFuture port ud h buf) t st =
     (case handle_write utf8 h buf st of (r, out, _, st') \<Rightarrow>
        Inr (None, out, t,
             post_quiet port (simple_completion ud (case r of Inr k \<Rightarrow> int k | Inl e \<Rightarrow> file_errno e) OP_WRITE) st'))"
| "poll_io_task utf8 n cancelled tid (Wakeup_New thread ms c) t st =
     bind_res (from_millis ms t) (\<lambda>d. poll_cancellable n cancelled tid thread d c t st)"
| "poll_io_task utf8 n cancelled tid (CancellableDelay thread d c) t st = poll_cancellable n cancelled tid thread d c t st"

subsection \<open>Submissions\<close>

definition fd_usize :: "int \<Rightarrow> nat" where
  "fd_usize fd = nat (fd mod 2 ^ 64)"

definition sys_io_create :: "u32 \<Rightarrow> nat \<Rightarrow> system \<Rightarrow> int \<times> system" where
  "sys_io_create flags i st =
     (if flags \<noteq> 0 then (- EINVAL, st)
      else fd_result (helper_alloc_fd (Port i)
             (st\<lparr>objs := (objs st)\<lparr>obj_ports := (obj_ports (objs st))(i := CompletionPort_new)\<rparr>\<rparr>)))"

text \<open>A completion without data for the submission \<open>sub\<close>.\<close>

abbreviation answer :: "IoSubmission \<Rightarrow> int \<Rightarrow> Completion" where
  "answer sub res \<equiv> simple_completion (sub_user_data sub) res (sub_opcode sub)"

definition get_ipc_send_channel :: "nat \<Rightarrow> system \<Rightarrow> int + nat" where
  "get_ipc_send_channel fd st =
     (case current_fd fd st of
        Some (Inr obj) \<Rightarrow> (case as_channel obj of Some (Send c) \<Rightarrow> Inr c | _ \<Rightarrow> Inl (- EBADF))
      | _ \<Rightarrow> Inl (- EBADF))"

definition get_ipc_recv_channel :: "nat \<Rightarrow> system \<Rightarrow> int + nat" where
  "get_ipc_recv_channel fd st =
     (case current_fd fd st of
        Some (Inr obj) \<Rightarrow> (case as_channel obj of Some (Recv c) \<Rightarrow> Inr c | _ \<Rightarrow> Inl (- EBADF))
      | _ \<Rightarrow> Inl (- EBADF))"

type_synonym submission_result = "(bool \<times> io_effect list \<times> system) res"

text \<open>The arms of \<^verbatim>\<open>process_submission\<close>, one per operation.\<close>

definition submit_nop :: "nat \<Rightarrow> IoSubmission \<Rightarrow> system \<Rightarrow> submission_result" where
  "submit_nop port sub st = (case post_and_donate port (answer sub 0) st of (y, st') \<Rightarrow> Inr (y, [], st'))"

definition timeout_ms :: "nat \<Rightarrow> nat res" where
  "timeout_ms ns = bind_res (add_u64 ns 999999) (\<lambda>x. Inr (x div 1000000))"

definition submit_timeout :: "nat \<Rightarrow> IoSubmission \<Rightarrow> system \<Rightarrow> submission_result" where
  "submit_timeout port sub st =
     bind_res (timeout_ms (sub_timeout_ns sub)) (\<lambda>ms.
       Inr (False, [Spawn (Timeout_New port (sub_user_data sub) ms)], st))"

definition submit_read :: "nat \<Rightarrow> IoSubmission \<Rightarrow> system \<Rightarrow> submission_result" where
  "submit_read port sub st =
     (case get_fd_file (fd_usize (sub_fd sub)) st of
        Inl _ \<Rightarrow> Inr (False, [], post_quiet port (answer sub (- EBADF)) st)
      | Inr h \<Rightarrow>
          if sub_buf_len sub = 0 then Inr (False, [], post_quiet port (answer sub 0) st)
          else if \<not> validate_user_buf (sub_buf_addr sub) (sub_buf_len sub)
          then Inr (False, [], post_quiet port (answer sub (- EFAULT)) st)
          else Inr (False, [Spawn (HandleReadFuture port (sub_user_data sub) h (sub_buf_len sub) (sub_buf_addr sub))], st))"

definition submit_write :: "nat \<Rightarrow> IoSubmission \<Rightarrow> memory \<Rightarrow> system \<Rightarrow> submission_result" where
  "submit_write port sub m st =
     (case get_fd_file (fd_usize (sub_fd sub)) st of
        Inl _ \<Rightarrow> Inr (False, [], post_quiet port (answer sub (- EBADF)) st)
      | Inr h \<Rightarrow>
          if sub_buf_len sub = 0 then Inr (False, [], post_quiet port (answer sub 0) st)
          else if \<not> validate_user_buf (sub_buf_addr sub) (sub_buf_len sub)
          then Inr (False, [], post_quiet port (answer sub (- EFAULT)) st)
          else Inr (False, [Spawn (HandleWriteFuture port (sub_user_data sub) h
                              (load_bytes (sub_buf_addr sub) (sub_buf_len sub) m))], st))"

definition submit_irq_wait :: "nat \<Rightarrow> IoSubmission \<Rightarrow> system \<Rightarrow> submission_result" where
  "submit_irq_wait port sub st =
     (case get_fd_irq (fd_usize (sub_fd sub)) st of
        Inl _ \<Rightarrow> Inr (False, [], post_quiet port (answer sub (- EBADF)) st)
      | Inr i \<Rightarrow>
          let os = objs st in
          bind_res (arm_irq port (sub_user_data sub) (irqs (irq_sys os) i)) (\<lambda>(x, posts, g).
            case post_all posts (obj_ports os, kern os) of (ps, k) \<Rightarrow>
              Inr (False, [Unmask_Gsi g],
                   st\<lparr>objs := os\<lparr>irq_sys := (irq_sys os)\<lparr>irqs := (irqs (irq_sys os))(i := x)\<rparr>, obj_ports := ps, kern := k\<rparr>\<rparr>)))"

definition submit_ipc_recv :: "nat \<Rightarrow> IoSubmission \<Rightarrow> system \<Rightarrow> submission_result" where
  "submit_ipc_recv port sub st =
     (case get_ipc_recv_channel (fd_usize (sub_fd sub)) st of
        Inl _ \<Rightarrow> Inr (False, [], post_quiet port (answer sub (- EBADF)) st)
      | Inr c \<Rightarrow>
          if sub_buf_addr sub \<noteq> 0 \<and> \<not> validate_user_buf (sub_buf_addr sub) IPC_MSG_SIZE
          then Inr (False, [], post_quiet port (answer sub (- EFAULT)) st)
          else
            let info = \<lparr>recv_port = port, recv_user_data = sub_user_data sub, recv_buf_dest = sub_buf_addr sub\<rparr> in
            case arm_recv info (channels (objs st) c) (kern (objs st)) of (a, x, k) \<Rightarrow>
              (let st1 = upd_channel c x k st in
               case a of
                 ArmRecv_Ready env \<Rightarrow>
                   (case post_and_donate port (recv_completion info env) st1 of (y, st2) \<Rightarrow> Inr (y, [], st2))
               | ReadyAndNotifySendPort env sp sud \<Rightarrow>
                   (case post_and_donate sp (simple_completion sud 0 OP_IPC_SEND)
                           (post_quiet port (recv_completion info env) st1) of (y, st2) \<Rightarrow> Inr (y, [], st2))
               | ArmRecv_PeerClosed \<Rightarrow> Inr (False, [], post_quiet port (answer sub (- EPIPE)) st1)
               | ArmRecv_Armed \<Rightarrow> Inr (False, [], st1)))"

definition submit_ipc_send :: "nat \<Rightarrow> IoSubmission \<Rightarrow> memory \<Rightarrow> system \<Rightarrow> submission_result" where
  "submit_ipc_send port sub m st =
     (case get_ipc_send_channel (fd_usize (sub_fd sub)) st of
        Inl _ \<Rightarrow> Inr (False, [], post_quiet port (answer sub (- EBADF)) st)
      | Inr c \<Rightarrow>
          if \<not> validate_user_buf (sub_buf_addr sub) IPC_MSG_SIZE
          then Inr (False, [], post_quiet port (answer sub (- EFAULT)) st)
          else
            bind_res (extract_transfer_fds (load_msg (sub_buf_addr sub) m) st) (\<lambda>(r, st0).
              case r of
                Inl _ \<Rightarrow> Inr (False, [], post_quiet port (answer sub (- EBADF)) st0)
              | Inr slots \<Rightarrow>
                  let info = \<lparr>send_port = port, send_user_data = sub_user_data sub,
                              envelope = \<lparr>msg = load_msg (sub_buf_addr sub) m, env_fds = slots\<rparr>\<rparr> in
                  bind_res (arm_send info (channels (objs st0) c) (kern (objs st0))) (\<lambda>(a, x, k, dropped).
                  bind_res (close_objects (concat (map drop_env dropped)) (objs (upd_channel c x k st0))) (\<lambda>os.
                    let st1 = st0\<lparr>objs := os\<rparr> in
                    case a of
                      ArmSend_Ready \<Rightarrow> (case post_and_donate port (answer sub 0) st1 of (y, st2) \<Rightarrow> Inr (y, [], st2))
                    | ReadyDonate t \<Rightarrow>
                        (case post_at port (answer sub 0) (obj_ports os) (kern os) of (woken, ps, k') \<Rightarrow>
                           Inr (True, [], map_kern (set_donate_target (case woken of Some w \<Rightarrow> w | None \<Rightarrow> t))
                             (st1\<lparr>objs := os\<lparr>obj_ports := ps, kern := k'\<rparr>\<rparr>)))
                    | ReadyToRecvPort pr env \<Rightarrow>
                        (case post_and_donate port (answer sub 0) (post_quiet (recv_port pr) (recv_completion pr env) st1) of
                           (y, st2) \<Rightarrow> Inr (y, [], st2))
                    | ArmSend_Armed \<Rightarrow> Inr (False, [], st1)
                    | ArmSend_PeerClosed \<Rightarrow> Inr (False, [], post_quiet port (answer sub (- EPIPE)) st1)))))"

definition submit_ring_wait :: "nat \<Rightarrow> IoSubmission \<Rightarrow> system \<Rightarrow> submission_result" where
  "submit_ring_wait port sub st =
     (case get_fd_notify (fd_usize (sub_fd sub)) st of
        Inl _ \<Rightarrow> Inr (False, [], post_quiet port (answer sub (- EBADF)) st)
      | Inr i \<Rightarrow>
          let os = objs st in
          case arm_notify port (sub_user_data sub) (notifies os i) (obj_ports os) (kern os) of (_, x, ps, k) \<Rightarrow>
            Inr (False, [], st\<lparr>objs := os\<lparr>notifies := (notifies os)(i := x), obj_ports := ps, kern := k\<rparr>\<rparr>))"

definition process_submission :: "nat \<Rightarrow> IoSubmission \<Rightarrow> memory \<Rightarrow> system \<Rightarrow> submission_result" where
  "process_submission port sub m st =
     (if sub_opcode sub = OP_NOP then submit_nop port sub st
      else if sub_opcode sub = OP_TIMEOUT then submit_timeout port sub st
      else if sub_opcode sub = OP_READ then submit_read port sub st
      else if sub_opcode sub = OP_WRITE then submit_write port sub m st
      else if sub_opcode sub = OP_IRQ_WAIT then submit_irq_wait port sub st
      else if sub_opcode sub = OP_IPC_RECV then submit_ipc_recv port sub st
      else if sub_opcode sub = OP_IPC_SEND then submit_ipc_send port sub m st
      else if sub_opcode sub = OP_RING_WAIT then submit_ring_wait port sub st
      else Inr (False, [], post_quiet port (answer sub (- EINVAL)) st))"

subsection \<open>Submitting from user memory\<close>

definition SUBMISSION_SIZE :: nat where [const_defs]: "SUBMISSION_SIZE = 48"
definition COMPLETION_SIZE :: nat where [const_defs]: "COMPLETION_SIZE = 24"

definition load_submission :: "nat \<Rightarrow> memory \<Rightarrow> IoSubmission" where
  "load_submission a m =
     \<lparr>sub_user_data = of_nat (load_u64 a m), sub_opcode = of_nat (load_u32 (a + 8) m),
      sub_flags = of_nat (load_u32 (a + 12) m), sub_fd = sint (of_nat (load_u32 (a + 16) m) :: u32),
      sub_pad = sint (of_nat (load_u32 (a + 20) m) :: u32), sub_buf_addr = load_u64 (a + 24) m,
      sub_buf_len = load_u32 (a + 32) m, sub_offset = of_nat (load_u32 (a + 36) m),
      sub_timeout_ns = load_u64 (a + 40) m\<rparr>"

text \<open>What the other threads do when the caller yields after entry \<open>i\<close>.\<close>

type_synonym yields = "nat \<Rightarrow> memory \<times> system \<Rightarrow> memory \<times> system"

text \<open>The submission loop: \<open>n\<close> entries from entry \<open>i\<close> on, each read with \<open>get\<close>.\<close>

fun submit_loop ::
  "(nat \<Rightarrow> memory \<Rightarrow> system \<Rightarrow> IoSubmission res) \<Rightarrow> nat \<Rightarrow> yields \<Rightarrow> nat \<Rightarrow> nat \<Rightarrow> memory \<Rightarrow> system \<Rightarrow> (io_effect list \<times> memory \<times> system) res" where
  "submit_loop get port yields i 0 m st = Inr ([], m, st)"
| "submit_loop get port yields i (Suc n) m st =
     bind_res (get i m st) (\<lambda>sub.
     bind_res (process_submission port sub m st) (\<lambda>(y, es, st').
       case (if y then yields i (m, st') else (m, st')) of (m1, st1) \<Rightarrow>
         bind_res (submit_loop get port yields (Suc i) n m1 st1) (\<lambda>(es', r). Inr (es @ es', r))))"

definition sys_io_submit ::
  "nat \<Rightarrow> nat \<Rightarrow> u32 \<Rightarrow> yields \<Rightarrow> memory \<Rightarrow> system \<Rightarrow> (int \<times> io_effect list \<times> memory \<times> system) res" where
  "sys_io_submit port_fd entries_ptr cnt yields m st =
     (if cnt = 0 then Inr (0, [], m, st)
      else if \<not> validate_user_buf entries_ptr (SUBMISSION_SIZE * unat cnt) then Inr (- EFAULT, [], m, st)
      else case get_fd_port port_fd st of
        Inl e \<Rightarrow> Inr (e, [], m, st)
      | Inr port \<Rightarrow>
          bind_res (submit_loop (\<lambda>i m _. Inr (load_submission (entries_ptr + SUBMISSION_SIZE * i) m)) port yields 0 (unat cnt) m st)
            (\<lambda>(es, m', st'). Inr (int (unat cnt), es, m', st')))"

subsection \<open>Waiting for completions\<close>

definition cqe_bytes :: "IoCompletion \<Rightarrow> u8 list" where
  "cqe_bytes e =
     le_bytes 8 (unat (cqe_user_data e)) @ le_bytes 8 (unat (word_of_int (cqe_result e) :: u64)) @
     le_bytes 4 (unat (cqe_flags e)) @ le_bytes 4 (unat (cqe_opcode e))"

definition upd_port :: "nat \<Rightarrow> CompletionPort \<Rightarrow> system \<Rightarrow> system" where
  "upd_port i p st = st\<lparr>objs := (objs st)\<lparr>obj_ports := (obj_ports (objs st))(i := p)\<rparr>\<rparr>"

text \<open>What a completion carries is handed over in the caller's context: descriptors are installed and the
  message rewritten (a failure is ignored), then the bytes are copied.\<close>

definition install_completion :: "Completion \<Rightarrow> system \<Rightarrow> (u8 list option \<times> system) res" where
  "install_completion c st =
     (case (transfer_fds c, read_buf c) of
        (Some tfds, Some buf) \<Rightarrow>
          if length buf = IPC_MSG_SIZE then
            bind_res (install_transfer_fds (ipc_msg_of_bytes buf) tfds st) (\<lambda>(r, st').
              Inr (Some (case r of Inr x \<Rightarrow> ipc_msg_to_bytes x | Inl _ \<Rightarrow> buf), st'))
          else Inr (Some buf, st)
      | _ \<Rightarrow> Inr (read_buf c, st))"

definition copy_to_user :: "u8 list option \<Rightarrow> nat \<Rightarrow> memory \<Rightarrow> memory" where
  "copy_to_user rb dest m =
     (case rb of
        Some buf \<Rightarrow> if buf \<noteq> [] \<and> dest \<noteq> 0 \<and> validate_user_buf dest (length buf) then store_bytes dest buf m else m
      | None \<Rightarrow> m)"

definition deliver_completion :: "Completion \<Rightarrow> memory \<Rightarrow> system \<Rightarrow> (memory \<times> system) res" where
  "deliver_completion c m st =
     bind_res (install_completion c st) (\<lambda>(rb, st'). Inr (copy_to_user rb (read_dest c) m, st'))"

fun store_completions :: "nat \<Rightarrow> Completion list \<Rightarrow> memory \<Rightarrow> system \<Rightarrow> (memory \<times> system) res" where
  "store_completions ptr [] m st = Inr (m, st)"
| "store_completions ptr (c # cs) m st =
     bind_res (deliver_completion c m st) (\<lambda>(m', st').
       store_completions (ptr + COMPLETION_SIZE) cs (store_bytes ptr (cqe_bytes (to_cqe c)) m') st')"

record io_waiting =
  w_port :: nat
  w_ptr :: nat
  w_min :: nat
  w_max :: nat
  w_deadline :: "nat option"
  w_cancel :: nat

text \<open>\<^verbatim>\<open>sys_io_wait\<close> up to its loop; \<open>t\<close> and \<open>t'\<close> are the timer at its two looks at the clock, \<open>cancel\<close> the new flag.\<close>

definition sys_io_wait ::
  "nat \<Rightarrow> nat \<Rightarrow> u32 \<Rightarrow> u32 \<Rightarrow> nat \<Rightarrow> nat \<Rightarrow> timer \<Rightarrow> timer \<Rightarrow> system \<Rightarrow> ((int + io_waiting) \<times> io_effect list) res" where
  "sys_io_wait port_fd ptr max_n min_n timeout_ns cancel t t' st =
     (if max_n = 0 then Inr (Inl 0, [])
      else if \<not> validate_user_buf ptr (COMPLETION_SIZE * unat max_n) then Inr (Inl (- EFAULT), [])
      else case get_fd_port port_fd st of
        Inl e \<Rightarrow> Inr (Inl e, [])
      | Inr port \<Rightarrow>
          if has_ring (obj_ports (objs st) port) then Inr (Inl (- EINVAL), [])
          else
            let w = \<lparr>w_port = port, w_ptr = ptr, w_min = min (unat min_n) (unat max_n), w_max = unat max_n,
                     w_deadline = None, w_cancel = cancel\<rparr> in
            if timeout_ns = 0 then Inr (Inr w, [])
            else
              bind_res (timeout_ms timeout_ns) (\<lambda>ms.
              bind_res (add_u64 (ticks t) ms) (\<lambda>deadline.
                Inr (Inr (w\<lparr>w_deadline := Some deadline\<rparr>),
                     [Spawn (Wakeup_New (current_thread_idx (kern (objs st))) (deadline - ticks t') cancel)]))))"

text \<open>One round of its loop.\<close>

definition io_wait_round :: "io_waiting \<Rightarrow> timer \<Rightarrow> memory \<Rightarrow> system \<Rightarrow> (ipc_outcome \<times> io_effect list \<times> memory \<times> system) res" where
  "io_wait_round w t m st =
     (let p = obj_ports (objs st) (w_port w);
          timed_out = (case w_deadline w of None \<Rightarrow> False | Some d \<Rightarrow> d \<le> ticks t) in
      if w_min w \<le> pending p \<or> timed_out then
        case drain (w_max w) p of (cs, p') \<Rightarrow>
          bind_res (store_completions (w_ptr w) cs m (upd_port (w_port w) p' st)) (\<lambda>(m', st').
            Inr (Ipc_Return (int (length cs)), [Cancel (w_cancel w)], m', st'))
      else
        bind_res (wait_while (Some p) set_waiter (kern (objs st))) (\<lambda>(g, k).
          Inr (Ipc_Retry, [], m, map_kern (\<lambda>_. k) (upd_port (w_port w) (case g of Some p' \<Rightarrow> p' | None \<Rightarrow> p) st))))"

subsection \<open>Shared rings\<close>

definition IO_RING_PARAMS_SIZE :: nat where [const_defs]: "IO_RING_PARAMS_SIZE = 16"

definition ring_size :: "nat \<Rightarrow> nat \<Rightarrow> u32 res" where
  "ring_size n most = bind_res (next_power_of_two (max n 1)) (\<lambda>p. Inr (of_nat (min p most)))"

text \<open>
  Setting up the rings. Pages come from \<open>alloc_page\<close> and go back with \<open>release\<close>, acting on the memory manager's state
  \<open>mm\<close>; \<open>s1\<close> and \<open>s2\<close> are the numbers of the two shared memory objects.
\<close>

definition sys_io_setup_rings ::
  "('m \<Rightarrow> nat option \<times> 'm) \<Rightarrow> (nat \<Rightarrow> 'm \<Rightarrow> 'm) \<Rightarrow> nat \<Rightarrow> nat \<Rightarrow> nat \<times> nat \<Rightarrow> 'm \<Rightarrow> memory \<Rightarrow> system \<Rightarrow> (int \<times> 'm \<times> memory \<times> system) res" where
  "sys_io_setup_rings alloc_page release port_fd ptr ss mm m st =
     (case ss of (s1, s2) \<Rightarrow>
      if \<not> validate_user_buf ptr IO_RING_PARAMS_SIZE then Inr (- EFAULT, mm, m, st)
      else case get_fd_port port_fd st of
        Inl e \<Rightarrow> Inr (e, mm, m, st)
      | Inr port \<Rightarrow>
          if has_ring (obj_ports (objs st) port) then Inr (- EBUSY, mm, m, st)
          else
            bind_res (ring_size (load_u32 ptr m) MAX_SQ_ENTRIES) (\<lambda>sqn.
            bind_res (ring_size (load_u32 (ptr + 4) m) MAX_CQ_ENTRIES) (\<lambda>cqn.
            bind_res (IoRing_new alloc_page sqn cqn mm) (\<lambda>(rg, mm1).
              case rg of
                None \<Rightarrow> Inr (- ENOMEM, mm1, m, st)
              | Some r \<Rightarrow>
                  let st0 = st\<lparr>objs := (objs st)\<lparr>shmems := (shmems (objs st))
                              (s1 := \<lparr>sm_frames = sq_phys r, sm_size = PAGE_SIZE, owned = False\<rparr>,
                               s2 := \<lparr>sm_frames = cq_phys r, sm_size = PAGE_SIZE, owned = False\<rparr>)\<rparr>\<rparr> in
                  case helper_alloc_fd (SharedMem s1) st0 of
                    (Inl _, st1) \<Rightarrow> Inr (- EMFILE, drop_IoRing release r mm1, m, st1)
                  | (Inr sfd, st1) \<Rightarrow>
                      (case helper_alloc_fd (SharedMem s2) st1 of
                         (Inl e, st2) \<Rightarrow>
                           bind_res (close_allocated [int sfd] st2) (\<lambda>st3. Inr (e, drop_IoRing release r mm1, m, st3))
                       | (Inr cfd, st2) \<Rightarrow>
                           Inr (0, mm1,
                                store_u32 (ptr + 12) (cfd mod 2 ^ 32) (store_u32 (ptr + 8) (sfd mod 2 ^ 32)
                                  (store_u32 (ptr + 4) (unat cqn) (store_u32 ptr (unat sqn) m))),
                                upd_port port (setup_ring r (obj_ports (objs st2) port)) st2))))))"

text \<open>Reading entry \<open>i\<close> after \<open>sq_head\<close> of the port's ring; the port has one.\<close>

definition ring_entry :: "nat \<Rightarrow> u32 \<Rightarrow> nat \<Rightarrow> memory \<Rightarrow> system \<Rightarrow> IoSubmission res" where
  "ring_entry port h i m st =
     (case io_ring (obj_ports (objs st) port) of
        None \<Rightarrow> Inl UnwrapNone
      | Some r \<Rightarrow> Inr (read_sqe (h + of_nat i) r))"

text \<open>Phase 1: the submissions.\<close>

definition ring_submit :: "nat \<Rightarrow> u32 \<Rightarrow> yields \<Rightarrow> memory \<Rightarrow> system \<Rightarrow> (io_effect list \<times> memory \<times> system) res" where
  "ring_submit port to_submit yields m st =
     (if to_submit = 0 then Inr ([], m, st)
      else case io_ring (obj_ports (objs st) port) of
        None \<Rightarrow> Inl UnwrapNone
      | Some r \<Rightarrow>
          let h = sq_head r; cnt = min (sq_tail r - h) to_submit in
          bind_res (submit_loop (ring_entry port h) port yields 0 (unat cnt) m st) (\<lambda>(es, m', st').
            if cnt = 0 then Inr (es, m', st')
            else case io_ring (obj_ports (objs st') port) of
              None \<Rightarrow> Inl UnwrapNone
            | Some r' \<Rightarrow>
                Inr (es, m', upd_port port ((obj_ports (objs st') port)\<lparr>io_ring := Some (advance_sq_head cnt r')\<rparr>) st')))"

text \<open>Phase 2, and after each sleep: completions that carry data are handed over and moved to the ring.\<close>

definition post_ring :: "nat \<Rightarrow> Completion \<Rightarrow> system \<Rightarrow> system" where
  "post_ring port c st =
     (let p = obj_ports (objs st) port in
      case io_ring p of
        None \<Rightarrow> st
      | Some r \<Rightarrow> upd_port port (p\<lparr>io_ring := Some (snd (post_cqe (to_cqe c) r))\<rparr>) st)"

fun flush_loop :: "nat \<Rightarrow> Completion list \<Rightarrow> memory \<Rightarrow> system \<Rightarrow> (memory \<times> system) res" where
  "flush_loop port [] m st = Inr (m, st)"
| "flush_loop port (c # cs) m st =
     bind_res (deliver_completion c m st) (\<lambda>(m', st'). flush_loop port cs m' (post_ring port c st'))"

definition flush_completions :: "nat \<Rightarrow> memory \<Rightarrow> system \<Rightarrow> (memory \<times> system) res" where
  "flush_completions port m st =
     (let p = obj_ports (objs st) port in
      case drain (pending p) p of (cs, p') \<Rightarrow>
        if has_ring p' then flush_loop port cs m (upd_port port p' st)
        else Inr (m, upd_port port p' st))"

text \<open>Phase 3: one look at the ring.\<close>

definition ring_wait_round :: "nat \<Rightarrow> u32 \<Rightarrow> system \<Rightarrow> (ipc_outcome \<times> system) res" where
  "ring_wait_round port min_complete st =
     (let p = obj_ports (objs st) port in
      case io_ring p of
        Some r \<Rightarrow>
          if min_complete \<le> cq_available r then Inr (Ipc_Return (int (unat (cq_available r))), st)
          else bind_res (wait_while (Some p) set_waiter (kern (objs st))) (\<lambda>(g, k).
            Inr (Ipc_Retry, map_kern (\<lambda>_. k) (upd_port port (case g of Some p' \<Rightarrow> p' | None \<Rightarrow> p) st)))
      | None \<Rightarrow>
          bind_res (wait_while (Some p) set_waiter (kern (objs st))) (\<lambda>(g, k).
            Inr (Ipc_Retry, map_kern (\<lambda>_. k) (upd_port port (case g of Some p' \<Rightarrow> p' | None \<Rightarrow> p) st))))"

definition sys_io_ring_enter ::
  "nat \<Rightarrow> u32 \<Rightarrow> u32 \<Rightarrow> u32 \<Rightarrow> yields \<Rightarrow> memory \<Rightarrow> system \<Rightarrow> (ipc_outcome \<times> io_effect list \<times> memory \<times> system) res" where
  "sys_io_ring_enter port_fd to_submit min_complete flags yields m st =
     (if flags \<noteq> 0 then Inr (Ipc_Return (- EINVAL), [], m, st)
      else case get_fd_port port_fd st of
        Inl e \<Rightarrow> Inr (Ipc_Return e, [], m, st)
      | Inr port \<Rightarrow>
          if \<not> has_ring (obj_ports (objs st) port) then Inr (Ipc_Return (- EINVAL), [], m, st)
          else
            bind_res (ring_submit port to_submit yields m st) (\<lambda>(es, m1, st1).
            bind_res (flush_completions port m1 st1) (\<lambda>(m2, st2).
              if min_complete > 0 then
                bind_res (ring_wait_round port min_complete st2) (\<lambda>(r, st3). Inr (r, es, m2, st3))
              else
                Inr (Ipc_Return (case io_ring (obj_ports (objs st2) port) of
                                   Some r \<Rightarrow> int (unat (cq_available r)) | None \<Rightarrow> 0), es, m2, st2))))"

text \<open>A caller that slept flushes and looks again.\<close>

definition ring_enter_woken :: "nat \<Rightarrow> u32 \<Rightarrow> memory \<Rightarrow> system \<Rightarrow> (ipc_outcome \<times> memory \<times> system) res" where
  "ring_enter_woken port min_complete m st =
     bind_res (flush_completions port m st) (\<lambda>(m1, st1).
     bind_res (ring_wait_round port min_complete st1) (\<lambda>(r, st2). Inr (r, m1, st2)))"

subsection \<open>Every submission is answered\<close>

text \<open>What a call does to the ports is a sequence of posts; which thread a post wakes does not matter for them.\<close>

lemma post_at_ports: "fst (snd (post_at i x ps k)) = fst (snd (post_at i x ps k'))"
  by (auto simp: post_at_def post_def port_post_def wake_waiter_def split: option.splits prod.splits if_splits)

definition posted :: "(nat \<times> Completion) list \<Rightarrow> ports \<Rightarrow> ports" where
  "posted xs ps = fst (post_all xs (ps, boot_kernel))"

lemma post_all_ports: "fst (post_all xs (ps, k)) = posted xs ps"
proof -
  have "fst (post_all xs (ps, k)) = fst (post_all xs (ps, k'))" for k'
  proof (induction xs arbitrary: ps k k')
    case (Cons a xs)
    obtain i x where a: "a = (i, x)" by (cases a)
    show ?case
      using Cons [of "fst (snd (post_at i x ps k))" "snd (snd (post_at i x ps k))" "snd (snd (post_at i x ps k'))"]
        post_at_ports [of i x ps k k'] by (simp add: a) (metis prod.collapse)
  qed simp
  then show ?thesis by (simp add: posted_def)
qed

lemma posted_Nil [simp]: "posted [] ps = ps"
  by (simp add: posted_def)

lemma posted_append: "posted (xs @ ys) ps = posted ys (posted xs ps)"
  using post_all_ports [of ys "posted xs ps"] by (simp add: posted_def post_all_append) (metis posted_def prod.collapse)

lemma posted_one: "post_at i x ps k = (w, ps', k') \<Longrightarrow> ps' = posted [(i, x)] ps"
  using post_all_ports [of "[(i, x)]" ps k] by simp

lemma post_quiet_ports [simp]: "obj_ports (objs (post_quiet i x st)) = posted [(i, x)] (obj_ports (objs st))"
  by (auto simp: post_quiet_def dest: posted_one split: prod.splits)

lemma post_and_donate_ports: "post_and_donate i x st = (y, st') \<Longrightarrow> obj_ports (objs st') = posted [(i, x)] (obj_ports (objs st))"
  by (auto simp: post_and_donate_def Let_def dest: posted_one split: prod.splits option.splits)

lemma close_ports: "close obj os = Inr (r, os') \<Longrightarrow> obj_ports os' = obj_ports os"
  by (auto simp: close_def handle_close_def split: FdObject.splits FileHandle.splits ChannelFd.splits)

lemma close_objects_ports: "close_objects xs os = Inr os' \<Longrightarrow> obj_ports os' = obj_ports os"
  by (induction xs arbitrary: os) (auto dest: close_ports)

lemma extract_loop_ports: "extract_loop fds acc st = Inr (r, st') \<Longrightarrow> obj_ports (objs st') = obj_ports (objs st)"
proof (induction fds acc st rule: extract_loop.induct)
  case (2 fd fds acc st)
  then show ?case
    by (auto dest: notify_dup_counts_only [of _ _ _ undefined] close_objects_ports simp: close_slots_def
        split: if_splits option.splits sum.splits)
qed simp

lemma extract_ports: "extract_transfer_fds x st = Inr (r, st') \<Longrightarrow> obj_ports (objs st') = obj_ports (objs st)"
  by (auto simp: extract_transfer_fds_def dest: extract_loop_ports split: if_splits)

text \<open>A post that answers the submission, and a place where the submission waits for its answer.\<close>

definition answers :: "nat \<Rightarrow> IoSubmission \<Rightarrow> nat \<times> Completion \<Rightarrow> bool" where
  "answers port sub p \<longleftrightarrow> fst p = port \<and> c_user_data (snd p) = sub_user_data sub \<and> c_opcode (snd p) = sub_opcode sub"

definition task_holds :: "nat \<Rightarrow> IoSubmission \<Rightarrow> io_task \<Rightarrow> bool" where
  "task_holds port sub tk \<longleftrightarrow>
     (case tk of
        Timeout_New i ud _ \<Rightarrow> i = port \<and> ud = sub_user_data sub \<and> sub_opcode sub = OP_TIMEOUT
      | Timeout_Wait i ud _ \<Rightarrow> i = port \<and> ud = sub_user_data sub \<and> sub_opcode sub = OP_TIMEOUT
      | HandleReadFuture i ud _ _ _ \<Rightarrow> i = port \<and> ud = sub_user_data sub \<and> sub_opcode sub = OP_READ
      | HandleWriteFuture i ud _ _ \<Rightarrow> i = port \<and> ud = sub_user_data sub \<and> sub_opcode sub = OP_WRITE
      | _ \<Rightarrow> False)"

definition held :: "nat \<Rightarrow> IoSubmission \<Rightarrow> io_effect list \<Rightarrow> system \<Rightarrow> bool" where
  "held port sub effs st \<longleftrightarrow>
     (\<exists>tk. effs = [Spawn tk] \<and> task_holds port sub tk)
   \<or> sub_opcode sub = OP_IRQ_WAIT \<and> (\<exists>i. irq_pending (irqs (irq_sys (objs st)) i) = Some (port, sub_user_data sub))
   \<or> sub_opcode sub = OP_IPC_RECV \<and> (\<exists>c. pending_port (channels (objs st) c) =
        Some \<lparr>recv_port = port, recv_user_data = sub_user_data sub, recv_buf_dest = sub_buf_addr sub\<rparr>)
   \<or> sub_opcode sub = OP_IPC_SEND \<and> (\<exists>c env. pending_send_port (channels (objs st) c) =
        Some \<lparr>send_port = port, send_user_data = sub_user_data sub, envelope = env\<rparr>)
   \<or> sub_opcode sub = OP_RING_WAIT \<and> (\<exists>i. ntf_pending (notifies (objs st) i) = Some (port, sub_user_data sub))"

text \<open>The answer of an operation: one post among the posts it makes, or a place where it is held.\<close>

definition accounted :: "nat \<Rightarrow> IoSubmission \<Rightarrow> io_effect list \<Rightarrow> system \<Rightarrow> system \<Rightarrow> bool" where
  "accounted port sub effs st st' \<longleftrightarrow>
     (\<exists>posts. obj_ports (objs st') = posted posts (obj_ports (objs st)) \<and>
        ((\<exists>x. filter (answers port sub) posts = [x])
         \<or> sub_opcode sub = OP_IRQ_WAIT \<and> filter (answers port sub) posts \<noteq> []
         \<or> filter (answers port sub) posts = [] \<and> held port sub effs st'))"

lemma accountedI1:
  "obj_ports (objs st') = posted [(port, x)] (obj_ports (objs st)) \<Longrightarrow> answers port sub (port, x) \<Longrightarrow> accounted port sub effs st st'"
  unfolding accounted_def by (intro exI [of _ "[(port, x)]"]) simp

lemma accountedI2:
  "obj_ports (objs st') = posted [a, b] (obj_ports (objs st)) \<Longrightarrow> answers port sub a \<noteq> answers port sub b \<Longrightarrow> accounted port sub effs st st'"
  unfolding accounted_def by (intro exI [of _ "[a, b]"]) auto

lemma accounted_held: "obj_ports (objs st') = obj_ports (objs st) \<Longrightarrow> held port sub effs st' \<Longrightarrow> accounted port sub effs st st'"
  unfolding accounted_def by (intro exI [of _ "[]"]) simp

lemma answers_answer [simp]: "answers port sub (port, answer sub res)"
  by (simp add: answers_def simple_completion_def)

lemma accounted_quiet [simp]:
  "obj_ports (objs st0) = obj_ports (objs st) \<Longrightarrow> op = sub_opcode sub \<Longrightarrow>
    accounted port sub effs st (post_quiet port (simple_completion (sub_user_data sub) res op) st0)"
  by (rule accountedI1 [of _ port "answer sub res"]) simp_all

lemma accounted_donate:
  "post_and_donate port (simple_completion (sub_user_data sub) res op) st0 = (y, st') \<Longrightarrow> op = sub_opcode sub \<Longrightarrow>
    obj_ports (objs st0) = obj_ports (objs st) \<Longrightarrow> accounted port sub effs st st'"
  by (rule accountedI1 [of _ port "answer sub res"]) (simp_all add: post_and_donate_ports)

lemma accounted_spawn [simp]: "task_holds port sub tk \<Longrightarrow> accounted port sub [Spawn tk] st st"
  by (rule accounted_held) (auto simp: held_def)

lemma submit_timeout_accounted:
  "submit_timeout port sub st = Inr (y, effs, st') \<Longrightarrow> sub_opcode sub = OP_TIMEOUT \<Longrightarrow> accounted port sub effs st st'"
  by (auto simp: submit_timeout_def task_holds_def)

lemma submit_read_accounted:
  "submit_read port sub st = Inr (y, effs, st') \<Longrightarrow> sub_opcode sub = OP_READ \<Longrightarrow> accounted port sub effs st st'"
  by (auto simp: submit_read_def task_holds_def split: sum.splits if_splits)

lemma submit_write_accounted:
  "submit_write port sub m st = Inr (y, effs, st') \<Longrightarrow> sub_opcode sub = OP_WRITE \<Longrightarrow> accounted port sub effs st st'"
  by (auto simp: submit_write_def task_holds_def split: sum.splits if_splits)

lemma submit_ring_wait_accounted:
  assumes "submit_ring_wait port sub st = Inr (y, effs, st')" and "sub_opcode sub = OP_RING_WAIT"
  shows "accounted port sub effs st st'"
proof (cases "get_fd_notify (fd_usize (sub_fd sub)) st")
  case (Inr i)
  show ?thesis
  proof (cases "notified (notifies (objs st) i)")
    case True
    with assms Inr obtain w ps k where "post_at port (answer sub 0) (obj_ports (objs st)) (kern (objs st)) = (w, ps, k)"
      "obj_ports (objs st') = ps"
      by (auto simp: submit_ring_wait_def arm_notify_def Let_def split: prod.splits)
    then show ?thesis using posted_one by (intro accountedI1 [of _ port "answer sub 0"]) simp_all
  next
    case False
    with assms Inr show ?thesis
      by (auto simp: submit_ring_wait_def arm_notify_def Let_def held_def intro!: accounted_held)
  qed
qed (use assms in \<open>auto simp: submit_ring_wait_def\<close>)

lemma submit_irq_wait_accounted:
  assumes "submit_irq_wait port sub st = Inr (y, effs, st')" and "sub_opcode sub = OP_IRQ_WAIT"
  shows "accounted port sub effs st st'"
proof (cases "get_fd_irq (fd_usize (sub_fd sub)) st")
  case (Inr i)
  with assms(1) obtain x posts g
    where arm: "arm_irq port (sub_user_data sub) (irqs (irq_sys (objs st)) i) = Inr (x, posts, g)"
    by (auto simp: submit_irq_wait_def Let_def)
  obtain ps k where p: "post_all posts (obj_ports (objs st), kern (objs st)) = (ps, k)" by (metis surj_pair)
  have st': "obj_ports (objs st') = ps" "irqs (irq_sys (objs st')) i = x"
    using assms(1) Inr arm p by (auto simp: submit_irq_wait_def Let_def)
  have ps: "obj_ports (objs st') = posted posts (obj_ports (objs st))"
    using post_all_ports [of posts "obj_ports (objs st)" "kern (objs st)"] p st'(1) by simp
  have all: "\<forall>a\<in>set posts. answers port sub a" and pend: "posts = [] \<Longrightarrow> irq_pending x = Some (port, sub_user_data sub)"
    using arm assms(2)
    by (auto simp: arm_irq_def answers_def simple_completion_def dest: arg_cong [of _ _ irq_pending] split: if_splits)
  then have "filter (answers port sub) posts = posts" by simp
  with ps pend st'(2) assms(2) show ?thesis
    unfolding accounted_def by (intro exI [of _ posts]) (auto simp: held_def)
qed (use assms in \<open>auto simp: submit_irq_wait_def\<close>)

lemma submit_ipc_recv_accounted:
  assumes "submit_ipc_recv port sub st = Inr (y, effs, st')" and "sub_opcode sub = OP_IPC_RECV"
  shows "accounted port sub effs st st'"
proof (cases "get_ipc_recv_channel (fd_usize (sub_fd sub)) st")
  case (Inr c)
  let ?info = "\<lparr>recv_port = port, recv_user_data = sub_user_data sub, recv_buf_dest = sub_buf_addr sub\<rparr>"
  have rc: "answers port sub (port, recv_completion ?info env)" for env
    using assms(2) by (simp add: answers_def recv_completion_def)
  have sc: "\<not> answers port sub (i, simple_completion ud 0 OP_IPC_SEND)" for i ud
    using assms(2) by (simp add: answers_def simple_completion_def OP_IPC_SEND_def OP_IPC_RECV_def)
  obtain a x k where arm: "arm_recv ?info (channels (objs st) c) (kern (objs st)) = (a, x, k)"
    by (metis prod_cases3)
  show ?thesis
  proof (cases "sub_buf_addr sub \<noteq> 0 \<and> \<not> validate_user_buf (sub_buf_addr sub) IPC_MSG_SIZE")
    case False
    note D = assms(1) [unfolded submit_ipc_recv_def Inr sum.case if_not_P [OF False] Let_def arm prod.case]
    have ports: "obj_ports (objs (upd_channel c x k st)) = obj_ports (objs st)" by (simp add: upd_channel_def)
    show ?thesis
    proof (cases a)
      case (ArmRecv_Ready env)
      with D post_and_donate_ports [of port "recv_completion ?info env" "upd_channel c x k st"] rc ports show ?thesis
        by (auto intro!: accountedI1 [of _ port "recv_completion ?info env"] split: prod.splits)
    next
      case (ReadyAndNotifySendPort env sp sud)
      with D post_and_donate_ports [of sp "simple_completion sud 0 OP_IPC_SEND" "post_quiet port (recv_completion ?info env) (upd_channel c x k st)"]
        rc sc ports posted_append [of "[(port, recv_completion ?info env)]" "[(sp, simple_completion sud 0 OP_IPC_SEND)]"]
      show ?thesis
        by (auto intro!: accountedI2 [of _ "(port, recv_completion ?info env)" "(sp, simple_completion sud 0 OP_IPC_SEND)"] split: prod.splits)
    next
      case ArmRecv_Armed
      with arm have "pending_port x = Some ?info"
        by (auto simp: arm_recv_def arm_recv_nothing_def split: if_splits option.splits list.splits)
      with D ArmRecv_Armed ports assms(2) show ?thesis
        by (auto simp: held_def upd_channel_def intro!: accounted_held)
    qed (use D ports assms(2) in auto)
  qed (use assms Inr in \<open>auto simp: submit_ipc_recv_def\<close>)
qed (use assms in \<open>auto simp: submit_ipc_recv_def\<close>)

lemma arm_send_armed:
  assumes "arm_send info x k = Inr (ArmSend_Armed, x', k', dropped)" and "pending_send_port x = None"
  shows "pending_send_port x' = Some info \<and> dropped = []"
  using assms by (auto simp: arm_send_def opt_list_def Let_def split: if_splits option.splits list.splits)

lemma submit_ipc_send_accounted:
  assumes "submit_ipc_send port sub m st = Inr (y, effs, st')" and "sub_opcode sub = OP_IPC_SEND"
    and "\<And>c. get_ipc_send_channel (fd_usize (sub_fd sub)) st = Inr c \<Longrightarrow> pending_send_port (channels (objs st) c) = None"
  shows "accounted port sub effs st st'"
proof (cases "get_ipc_send_channel (fd_usize (sub_fd sub)) st")
  case (Inr c)
  let ?x = "load_msg (sub_buf_addr sub) m"
  show ?thesis
  proof (cases "validate_user_buf (sub_buf_addr sub) IPC_MSG_SIZE")
    case True
    with assms(1) Inr obtain r st0 where E: "extract_transfer_fds ?x st = Inr (r, st0)"
      by (auto simp: submit_ipc_send_def)
    have p0: "obj_ports (objs st0) = obj_ports (objs st)" by (rule extract_ports [OF E])
    show ?thesis
    proof (cases r)
      case (Inr slots)
      let ?info = "\<lparr>send_port = port, send_user_data = sub_user_data sub, envelope = \<lparr>msg = ?x, env_fds = slots\<rparr>\<rparr>"
      have ps: "pending_send_port (channels (objs st0) c) = None"
        using only_counts_parts(2) extract_counts_only [OF E [unfolded Inr], of c] assms(3)
          \<open>get_ipc_send_channel (fd_usize (sub_fd sub)) st = Inr c\<close> by fastforce
      from assms(1) True E Inr \<open>get_ipc_send_channel (fd_usize (sub_fd sub)) st = Inr c\<close> obtain a x k dropped os
        where arm: "arm_send ?info (channels (objs st0) c) (kern (objs st0)) = Inr (a, x, k, dropped)"
          and os: "close_objects (concat (map drop_env dropped)) (objs (upd_channel c x k st0)) = Inr os"
        by (auto simp: submit_ipc_send_def Let_def)
      have nv: "(\<not> validate_user_buf (sub_buf_addr sub) IPC_MSG_SIZE) = False" using True by simp
      note D = assms(1) [unfolded submit_ipc_send_def \<open>get_ipc_send_channel (fd_usize (sub_fd sub)) st = Inr c\<close>
          sum.case nv if_False Let_def E bind_res_simps Inr prod.case arm os]
      have po: "obj_ports os = obj_ports (objs st)" using close_objects_ports [OF os] p0 by (simp add: upd_channel_def)
      show ?thesis
      proof (cases a)
        case (ReadyToRecvPort pr env)
        have "\<not> answers port sub (recv_port pr, recv_completion pr env)"
          using assms(2) by (simp add: answers_def recv_completion_def OP_IPC_SEND_def OP_IPC_RECV_def)
        with D ReadyToRecvPort po post_and_donate_ports [of port "answer sub 0" "post_quiet (recv_port pr) (recv_completion pr env) (st0\<lparr>objs := os\<rparr>)"]
          posted_append [of "[(recv_port pr, recv_completion pr env)]" "[(port, answer sub 0)]"]
        show ?thesis
          by (auto intro!: accountedI2 [of _ "(recv_port pr, recv_completion pr env)" "(port, answer sub 0)"] split: prod.splits)
      next
        case ArmSend_Armed
        with arm_send_armed [OF arm [unfolded ArmSend_Armed] ps] D os po assms(2) show ?thesis
          by (auto simp: held_def upd_channel_def intro!: accounted_held)
      next
        case (ReadyDonate t)
        with D po posted_one [of port "answer sub 0" "obj_ports os"] show ?thesis
          by (auto intro!: accountedI1 [of _ port "answer sub 0"] split: prod.splits)
      qed (use D po accounted_donate in \<open>auto split: prod.splits\<close>)
    qed (use assms Inr True E p0 in \<open>auto simp: submit_ipc_send_def\<close>)
  qed (use assms Inr in \<open>auto simp: submit_ipc_send_def\<close>)
qed (use assms in \<open>auto simp: submit_ipc_send_def\<close>)


definition recv_submission :: IoSubmission where
  "recv_submission = default_IoSubmission\<lparr>sub_user_data := 9, sub_opcode := OP_IPC_RECV, sub_fd := 0, sub_buf_addr := 0x3000\<rparr>"


lemma handle_write_ports: "handle_write utf8 h buf st = (r, out, w, st') \<Longrightarrow> obj_ports (objs st') = obj_ports (objs st)"
  by (auto simp: handle_write_def Let_def split: FileHandle.splits prod.splits)

lemma handle_poll_read_ports: "handle_poll_read tid h len st = Inr (r, st') \<Longrightarrow> obj_ports (objs st') = obj_ports (objs st)"
  by (auto simp: handle_poll_read_def handle_read_def Let_def split: FileHandle.splits prod.splits if_splits)

text \<open>C35: A task that was spawned for a submission answers it once. Each time the executor polls the task it
  either goes on and holds the same submission, with the ports unchanged, or it is done and has posted exactly
  one completion, with the submission's user data and operation, to the submission's port.\<close>

theorem io_task_answers:
  assumes "poll_io_task utf8 n cancelled tid tk t st = Inr (tk', out, t', st')" and "task_holds port sub tk"
  shows "case tk' of
      Some tk1 \<Rightarrow> task_holds port sub tk1 \<and> obj_ports (objs st') = obj_ports (objs st)
    | None \<Rightarrow> \<exists>x. answers port sub (port, x) \<and> obj_ports (objs st') = posted [(port, x)] (obj_ports (objs st))"
proof -
  have A: "\<exists>x'. answers port sub (port, x') \<and> posted [(port, x)] ps = posted [(port, x')] ps"
    if "c_user_data x = sub_user_data sub" "c_opcode x = sub_opcode sub" for x ps
    using that by (auto simp: answers_def)
  have T: ?thesis if P: "poll_timeout n tid port (sub_user_data sub) d t st = Inr (tk', out, t', st')" "sub_opcode sub = OP_TIMEOUT" for d
  proof -
    from P obtain r t1 where "poll_delay n d tid t = Inr (r, t1)" by (auto simp: poll_timeout_def)
    with P show ?thesis by (cases r) (auto simp: poll_timeout_def task_holds_def simple_completion_def intro!: A)
  qed
  show ?thesis
  proof (cases tk)
    case (HandleReadFuture i ud h len dest)
    with assms obtain r st1 where R: "handle_poll_read tid h len st = Inr (r, st1)" by auto
    from R handle_poll_read_ports [OF R] HandleReadFuture assms show ?thesis
      by (cases r) (auto simp: task_holds_def read_completion_def intro!: A)
  next
    case (HandleWriteFuture i ud h buf)
    obtain r o' w st1 where W: "handle_write utf8 h buf st = (r, o', w, st1)" by (metis prod_cases4)
    from W handle_write_ports [OF W] HandleWriteFuture assms show ?thesis
      by (auto simp: task_holds_def simple_completion_def intro!: A)
  qed (use assms T in \<open>auto simp: task_holds_def\<close>)
qed

theorem io_task_answers_witness:
  "\<exists>x t' st'. poll_io_task (\<lambda>_. True) 0 (\<lambda>_. False) 3 (Timeout_New 5 9 0) timer_init (peers 1) = Inr (None, [], t', st')
     \<and> answers 5 (default_IoSubmission\<lparr>sub_user_data := 9, sub_opcode := OP_TIMEOUT\<rparr>) (5, x)
     \<and> obj_ports (objs st') = posted [(5, x)] (obj_ports (objs (peers 1)))"
proof -
  have h: "task_holds 5 (default_IoSubmission\<lparr>sub_user_data := 9, sub_opcode := OP_TIMEOUT\<rparr>) (Timeout_New 5 9 0)"
    by (simp add: task_holds_def)
  have "\<exists>t' st'. poll_io_task (\<lambda>_. True) 0 (\<lambda>_. False) 3 (Timeout_New 5 9 0) timer_init (peers 1) = Inr (None, [], t', st')"
    by (simp add: from_millis_def delay_new_def timer_init_def poll_timeout_def poll_delay_def mul_u64_def add_u64_def)
  then obtain t' st' where p: "poll_io_task (\<lambda>_. True) 0 (\<lambda>_. False) 3 (Timeout_New 5 9 0) timer_init (peers 1) = Inr (None, [], t', st')"
    by blast
  from io_task_answers [OF p h] p show ?thesis by auto
qed

subsection \<open>Waiting collects what was posted\<close>

text \<open>What a process reads from the array of completions.\<close>

definition cqe_of_bytes :: "u8 list \<Rightarrow> IoCompletion" where
  "cqe_of_bytes bs =
     \<lparr>cqe_user_data = of_nat (of_le_bytes (take 8 bs)),
      cqe_result = sint (of_nat (of_le_bytes (take 8 (drop 8 bs))) :: u64),
      cqe_flags = of_nat (of_le_bytes (take 4 (drop 16 bs))), cqe_opcode = of_nat (of_le_bytes (take 4 (drop 20 bs)))\<rparr>"

definition load_cqe :: "nat \<Rightarrow> memory \<Rightarrow> IoCompletion" where
  "load_cqe a m = cqe_of_bytes (load_bytes a COMPLETION_SIZE m)"

lemma cqe_roundtrip:
  assumes "- (2 ^ 63) \<le> cqe_result e" and "cqe_result e < 2 ^ 63"
  shows "cqe_of_bytes (cqe_bytes e) = e"
proof -
  have "sint (word_of_int (cqe_result e) :: u64) = cqe_result e"
    using assms by (simp add: signed_take_bit_int_eq_self sint_sbintrunc' flip: sint_uint)
  then show ?thesis by (cases e) (simp add: cqe_of_bytes_def cqe_bytes_def of_le_bytes_word of_le_bytes_u32)
qed

lemma length_cqe_bytes [simp]: "length (cqe_bytes e) = COMPLETION_SIZE"
  by (simp add: cqe_bytes_def COMPLETION_SIZE_def)

text \<open>The bytes that a completion without descriptors copies, and where.\<close>

definition user_region :: "Completion \<Rightarrow> nat set" where
  "user_region c = (case read_buf c of None \<Rightarrow> {} | Some b \<Rightarrow> {read_dest c..<read_dest c + length b})"

lemma copy_outside: "a \<notin> user_region c \<Longrightarrow> copy_to_user (read_buf c) (read_dest c) m a = m a"
  by (auto simp: copy_to_user_def user_region_def store_bytes_outside split: option.splits)

text \<open>The memory after the copies, as the function of the loop.\<close>

fun collected :: "nat \<Rightarrow> Completion list \<Rightarrow> memory \<Rightarrow> memory" where
  "collected ptr [] m = m"
| "collected ptr (c # cs) m =
     collected (ptr + COMPLETION_SIZE) cs (store_bytes ptr (cqe_bytes (to_cqe c)) (copy_to_user (read_buf c) (read_dest c) m))"

lemma store_completions_collected:
  "\<forall>c\<in>set cs. transfer_fds c = None \<Longrightarrow> store_completions ptr cs m st = Inr (collected ptr cs m, st)"
  by (induction cs arbitrary: ptr m) (auto simp: deliver_completion_def install_completion_def)

lemma collected_outside:
  "a < ptr \<or> ptr + COMPLETION_SIZE * length cs \<le> a \<Longrightarrow> a \<notin> (\<Union>c\<in>set cs. user_region c) \<Longrightarrow> collected ptr cs m a = m a"
proof (induction cs arbitrary: ptr m)
  case (Cons c cs)
  then have "collected (ptr + COMPLETION_SIZE) cs x a = x a" for x by (intro Cons.IH) (auto simp: COMPLETION_SIZE_def)
  with Cons.prems show ?case
    using store_bytes_outside [of a ptr "cqe_bytes (to_cqe c)"] by (auto simp: COMPLETION_SIZE_def copy_outside)
qed simp

lemma collected_entries:
  assumes "i < length cs" and "\<forall>c\<in>set cs. user_region c \<inter> {ptr..<ptr + COMPLETION_SIZE * length cs} = {}"
  shows "load_bytes (ptr + COMPLETION_SIZE * i) COMPLETION_SIZE (collected ptr cs m) = cqe_bytes (to_cqe (cs ! i))"
  using assms
proof (induction cs arbitrary: ptr m i)
  case (Cons c cs)
  let ?m = "store_bytes ptr (cqe_bytes (to_cqe c)) (copy_to_user (read_buf c) (read_dest c) m)"
  show ?case
  proof (cases i)
    case 0
    have "load_bytes ptr COMPLETION_SIZE (collected (ptr + COMPLETION_SIZE) cs ?m) = load_bytes ptr COMPLETION_SIZE ?m"
    proof (intro load_bytes_cong collected_outside)
      fix x assume x: "ptr \<le> x" "x < ptr + COMPLETION_SIZE"
      then show "x < ptr + COMPLETION_SIZE \<or> ptr + COMPLETION_SIZE + COMPLETION_SIZE * length cs \<le> x" by simp
      have "x \<in> {ptr..<ptr + COMPLETION_SIZE * length (c # cs)}" using x by simp
      then show "x \<notin> (\<Union>c\<in>set cs. user_region c)" using Cons.prems(2) by fastforce
    qed
    with 0 show ?thesis using load_store_bytes_same [of ptr "cqe_bytes (to_cqe c)"] by simp
  next
    case (Suc j)
    have "\<forall>c\<in>set cs. user_region c \<inter> {ptr + COMPLETION_SIZE..<ptr + COMPLETION_SIZE + COMPLETION_SIZE * length cs} = {}"
      using Cons.prems(2) by (fastforce simp: COMPLETION_SIZE_def)
    from Cons.IH [OF _ this, of j ?m] Cons.prems(1) Suc show ?thesis by (simp add: algebra_simps)
  qed
qed simp

lemma collected_data:
  assumes "i < length cs" and "\<forall>c\<in>set cs. user_region c \<inter> {ptr..<ptr + COMPLETION_SIZE * length cs} = {}"
    and "read_buf (cs ! i) = Some b" and "b \<noteq> []" and "read_dest (cs ! i) \<noteq> 0"
    and "validate_user_buf (read_dest (cs ! i)) (length b)"
    and "\<And>j. i < j \<Longrightarrow> j < length cs \<Longrightarrow> user_region (cs ! i) \<inter> user_region (cs ! j) = {}"
  shows "load_bytes (read_dest (cs ! i)) (length b) (collected ptr cs m) = b"
  using assms
proof (induction cs arbitrary: ptr m i)
  case (Cons c cs)
  let ?m' = "copy_to_user (read_buf c) (read_dest c) m"
  let ?m = "store_bytes ptr (cqe_bytes (to_cqe c)) ?m'"
  have rest: "\<forall>c\<in>set cs. user_region c \<inter> {ptr + COMPLETION_SIZE..<ptr + COMPLETION_SIZE + COMPLETION_SIZE * length cs} = {}"
    using Cons.prems(2) by (fastforce simp: COMPLETION_SIZE_def)
  show ?case
  proof (cases i)
    case 0
    let ?d = "read_dest c"
    have reg: "user_region c = {?d..<?d + length b}" using Cons.prems(3) 0 by (simp add: user_region_def)
    have "load_bytes ?d (length b) (collected (ptr + COMPLETION_SIZE) cs ?m) = load_bytes ?d (length b) ?m'"
    proof (intro load_bytes_cong)
      fix x assume x: "?d \<le> x" "x < ?d + length b"
      then have "x \<in> user_region c" by (simp add: reg)
      then have arr: "x < ptr \<or> ptr + COMPLETION_SIZE * length (c # cs) \<le> x" using Cons.prems(2) by fastforce
      have "x \<notin> user_region y" if "y \<in> set cs" for y
        using that Cons.prems(7) [of "Suc j" for j] \<open>x \<in> user_region c\<close> 0 by (fastforce simp: in_set_conv_nth)
      with arr have "collected (ptr + COMPLETION_SIZE) cs ?m x = ?m x"
        by (intro collected_outside) (auto simp: COMPLETION_SIZE_def)
      also have "\<dots> = ?m' x" using arr by (intro store_bytes_outside) (auto simp: COMPLETION_SIZE_def)
      finally show "collected (ptr + COMPLETION_SIZE) cs ?m x = ?m' x" .
    qed
    with 0 Cons.prems(3-6) show ?thesis by (simp add: copy_to_user_def)
  next
    case (Suc k)
    have "load_bytes (read_dest (cs ! k)) (length b) (collected (ptr + COMPLETION_SIZE) cs ?m) = b"
      using Cons.prems Suc Cons.prems(7) [of "Suc j" for j] by (intro Cons.IH [OF _ rest]) auto
    with Suc show ?thesis by simp
  qed
qed simp

text \<open>C36: \<^verbatim>\<open>io_wait\<close> hands over what the port holds. When enough completions are pending or the deadline has
  passed, a round returns at once with the oldest completions, at most as many as asked for; the
  process reads from its array exactly these completions, in order; the bytes that came with a read are at the
  buffer of that read; the others stay on the port. (The buffers must not overlap the array, a buffer not those
  of later completions; completions with descriptors are installed by the other path.)\<close>

theorem io_wait_collects:
  fixes w t st
  defines "p \<equiv> obj_ports (objs st) (w_port w)"
  defines "cs \<equiv> take (w_max w) (port_queue (inner p))"
  assumes "w_min w \<le> pending p \<or> (\<exists>d. w_deadline w = Some d \<and> d \<le> ticks t)"
    and "\<forall>c\<in>set cs. transfer_fds c = None \<and> - (2 ^ 63) \<le> c_result c \<and> c_result c < 2 ^ 63
      \<and> user_region c \<inter> {w_ptr w..<w_ptr w + COMPLETION_SIZE * length cs} = {}"
  shows "\<exists>m' st'. io_wait_round w t m st = Inr (Ipc_Return (int (length cs)), [Cancel (w_cancel w)], m', st')
    \<and> port_queue (inner (obj_ports (objs st') (w_port w))) = drop (w_max w) (port_queue (inner p))
    \<and> (\<forall>i<length cs. load_cqe (w_ptr w + COMPLETION_SIZE * i) m' = to_cqe (cs ! i))
    \<and> (\<forall>i<length cs. \<forall>b. read_buf (cs ! i) = Some b \<and> b \<noteq> [] \<and> read_dest (cs ! i) \<noteq> 0
         \<and> validate_user_buf (read_dest (cs ! i)) (length b)
         \<and> (\<forall>j. i < j \<and> j < length cs \<longrightarrow> user_region (cs ! i) \<inter> user_region (cs ! j) = {})
         \<longrightarrow> load_bytes (read_dest (cs ! i)) (length b) m' = b)"
proof -
  let ?m = "collected (w_ptr w) cs m"
  obtain p' where d: "drain (w_max w) p = (cs, p')" and q: "port_queue (inner p') = drop (w_max w) (port_queue (inner p))"
    by (cases "w_max w \<le> length (port_queue (inner p))") (auto simp: drain_def port_drain_def cs_def Let_def)
  have "store_completions (w_ptr w) cs m st' = Inr (?m, st')" for st'
    using assms(4) by (intro store_completions_collected) auto
  with d assms(3) have r: "io_wait_round w t m st = Inr (Ipc_Return (int (length cs)), [Cancel (w_cancel w)], ?m, upd_port (w_port w) p' st)"
    by (auto simp: io_wait_round_def Let_def p_def [symmetric] split: option.splits)
  have apart: "\<forall>c\<in>set cs. user_region c \<inter> {w_ptr w..<w_ptr w + COMPLETION_SIZE * length cs} = {}" using assms(4) by blast
  have e: "load_cqe (w_ptr w + COMPLETION_SIZE * i) ?m = to_cqe (cs ! i)" if "i < length cs" for i
  proof -
    have "cs ! i \<in> set cs" using that by simp
    then show ?thesis
      using collected_entries [OF that apart, of m] cqe_roundtrip [of "to_cqe (cs ! i)"] assms(4)
      by (simp add: load_cqe_def to_cqe_def)
  qed
  have "port_queue (inner (obj_ports (objs (upd_port (w_port w) p' st)) (w_port w))) = drop (w_max w) (port_queue (inner p))"
    using q by (simp add: upd_port_def)
  with r e collected_data [OF _ apart] show ?thesis by (intro exI [of _ ?m] exI conjI) (assumption | blast)+
qed

text \<open>A port with a completed read of four bytes and a timeout, and a process that waits for two.\<close>

definition read_done :: Completion where
  "read_done = read_completion 7 4 [1, 2, 3, 4] 0x8000"

definition two_pending :: system where
  "two_pending = upd_port 0 (CompletionPort_new\<lparr>inner := port_new\<lparr>port_queue :=
     [read_done, simple_completion 8 0 OP_TIMEOUT]\<rparr>\<rparr>) (peers 1)"

definition waiting :: io_waiting where
  "waiting = \<lparr>w_port = 0, w_ptr = 0x4000, w_min = 2, w_max = 8, w_deadline = None, w_cancel = 0\<rparr>"

theorem io_wait_collects_witness:
  "\<exists>m' st'. io_wait_round waiting timer_init (\<lambda>_. 0) two_pending = Inr (Ipc_Return 2, [Cancel 0], m', st')
     \<and> load_cqe 0x4000 m' = to_cqe read_done \<and> load_bytes 0x8000 4 m' = [1, 2, 3, 4]"
proof -
  have q: "port_queue (inner (obj_ports (objs two_pending) 0)) = [read_done, simple_completion 8 0 OP_TIMEOUT]"
    by (simp add: two_pending_def upd_port_def)
  have rd: "read_buf read_done = Some [1, 2, 3, 4]" "read_dest read_done = 0x8000" "c_result read_done = 4" "transfer_fds read_done = None"
    by (simp_all add: read_done_def read_completion_def)
  have v: "validate_user_buf 0x8000 4" by (simp add: validate_user_buf_def USER_LIMIT_def)
  have ur: "user_region (simple_completion 8 0 OP_TIMEOUT) = {}" by (simp add: user_region_def simple_completion_def)
  have "w_min waiting \<le> pending (obj_ports (objs two_pending) (w_port waiting)) \<or> (\<exists>d. w_deadline waiting = Some d \<and> d \<le> ticks timer_init)"
    using q by (simp add: waiting_def pending_def port_pending_def)
  from io_wait_collects [OF this, of "\<lambda>_. 0"] obtain m' st' where
    r: "io_wait_round waiting timer_init (\<lambda>_. 0) two_pending = Inr (Ipc_Return 2, [Cancel 0], m', st')"
    and e: "\<forall>i<2. load_cqe (0x4000 + COMPLETION_SIZE * i) m' = to_cqe ([read_done, simple_completion 8 0 OP_TIMEOUT] ! i)"
    and b: "\<forall>i<2. \<forall>b. read_buf ([read_done, simple_completion 8 0 OP_TIMEOUT] ! i) = Some b \<and> b \<noteq> []
         \<and> read_dest ([read_done, simple_completion 8 0 OP_TIMEOUT] ! i) \<noteq> 0
         \<and> validate_user_buf (read_dest ([read_done, simple_completion 8 0 OP_TIMEOUT] ! i)) (length b)
         \<and> (\<forall>j. i < j \<and> j < 2 \<longrightarrow> user_region ([read_done, simple_completion 8 0 OP_TIMEOUT] ! i)
              \<inter> user_region ([read_done, simple_completion 8 0 OP_TIMEOUT] ! j) = {})
         \<longrightarrow> load_bytes (read_dest ([read_done, simple_completion 8 0 OP_TIMEOUT] ! i)) (length b) m' = b"
    using q rd by (auto simp: waiting_def simple_completion_def user_region_def COMPLETION_SIZE_def numeral_2_eq_2)
  have four: "Suc (Suc (Suc (Suc 0))) = 4" by simp
  have later: "\<forall>j. 0 < j \<and> j < 2 \<longrightarrow> user_region read_done \<inter> user_region ([read_done, simple_completion 8 0 OP_TIMEOUT] ! j) = {}"
    using ur by (auto simp: less_2_cases_iff)
  have "load_bytes 0x8000 4 m' = [1, 2, 3, 4]"
    using b [rule_format, of 0 "[1, 2, 3, 4]"] rd v later by (simp add: four)
  with r e [rule_format, of 0] show ?thesis by simp
qed

subsection \<open>Flushing to the shared ring\<close>

lemma close_fd_ports: "close_fd fd t os = Inr (r, t', os') \<Longrightarrow> obj_ports os' = obj_ports os"
  by (auto simp: close_fd_def dest: close_ports split: if_splits option.splits)

lemma close_allocated_ports: "close_allocated fds st = Inr st' \<Longrightarrow> obj_ports (objs st') = obj_ports (objs st)"
  by (induction fds st rule: close_allocated.induct) (auto dest: close_fd_ports split: if_splits option.splits)

lemma helper_alloc_fd_objs: "helper_alloc_fd obj st = (r, st') \<Longrightarrow> objs st' = objs st"
  by (auto simp: helper_alloc_fd_def helper_alloc_fd_with_flags_def Let_def split: option.splits sum.splits)

lemma install_loop_ports: "install_loop slots al st = Inr (r, st') \<Longrightarrow> obj_ports (objs st') = obj_ports (objs st)"
proof (induction slots al st rule: install_loop.induct)
  case (3 obj slots al st)
  obtain x st1 where a: "helper_alloc_fd obj st = (x, st1)" by (metis surj_pair)
  show ?case
  proof (cases x)
    case (Inl e)
    with "3.prems" a helper_alloc_fd_objs [OF a] show ?thesis
      by (auto simp: close_slots_def dest!: close_allocated_ports close_objects_ports)
  next
    case (Inr fd)
    with "3.IH"(1) [OF a [symmetric] Inr] "3.prems" a helper_alloc_fd_objs [OF a] show ?thesis by auto
  qed
qed auto

lemma deliver_ports: "deliver_completion c m st = Inr (m', st') \<Longrightarrow> obj_ports (objs st') = obj_ports (objs st)"
  by (auto simp: deliver_completion_def install_completion_def install_transfer_fds_def dest: install_loop_ports
      split: option.splits if_splits)

definition enq_all :: "nat \<Rightarrow> 'a list \<Rightarrow> 'a list \<Rightarrow> 'a list" where
  "enq_all n xs q = q @ take (n - length q) xs"

lemma enq_all_Cons: "length q \<le> n \<Longrightarrow> enq_all n (x # xs) q = enq_all n xs (list_enq n x q)"
  by (cases "n - length q") (auto simp: enq_all_def list_enq_def simp flip: diff_Suc_eq_diff_pred dest: arg_cong [of _ _ "\<lambda>k. k - 1"])

text \<open>The port's ring after a post: what \<open>flush_loop\<close> keeps.\<close>

definition ring_port :: "u32 \<Rightarrow> CompletionPort \<Rightarrow> bool" where
  "ring_port n p \<longleftrightarrow> cport_inv p \<and> (\<exists>rg. io_ring p = Some rg \<and> entry_count (cq_ring rg) = n)"

lemma ring_port_bound: "ring_port n p \<Longrightarrow> length (cq_contents p) \<le> unat n"
  by (auto simp: ring_port_def cport_inv_def cq_contents_def ring_len_bound)

lemma post_ring_contents:
  assumes "ring_port n (obj_ports (objs st) port)"
  shows "\<exists>p'. obj_ports (objs (post_ring port c st)) = (obj_ports (objs st))(port := p') \<and> ring_port n p'
    \<and> inner p' = inner (obj_ports (objs st) port)
    \<and> cq_contents p' = list_enq (unat n) (to_cqe c) (cq_contents (obj_ports (objs st) port))"
proof -
  let ?p = "obj_ports (objs st) port"
  obtain rg where rg: "io_ring ?p = Some rg" "entry_count (cq_ring rg) = n" "ring_inv (cq_ring rg)" "port_inv (inner ?p)"
    using assms by (auto simp: ring_port_def cport_inv_def)
  have cqe: "snd (post_cqe e r) = r\<lparr>cq_ring := push_fifo e (cq_ring r)\<rparr>" for e r
    by (simp add: post_cqe_def push_fifo_def split: prod.splits)
  let ?p' = "?p\<lparr>io_ring := Some (snd (post_cqe (to_cqe c) rg))\<rparr>"
  have "ring_port n ?p'"
    using rg spsc.inv_enq [OF rg(3)] spsc.cap_enq [OF rg(3), of "to_cqe c"]
    by (simp add: ring_port_def cport_inv_def cqe word_unat_eq_iff)
  moreover have "cq_contents ?p' = list_enq (unat n) (to_cqe c) (cq_contents ?p)"
    using rg spsc.contents_enq [OF rg(3)] by (simp add: cq_contents_def cqe)
  ultimately show ?thesis using rg(1) by (intro exI [of _ ?p']) (simp add: post_ring_def upd_port_def)
qed

lemma flush_loop_contents:
  assumes "flush_loop port cs m st = Inr (m', st')" and "ring_port n (obj_ports (objs st) port)"
  shows "\<exists>p'. obj_ports (objs st') = (obj_ports (objs st))(port := p') \<and> ring_port n p'
    \<and> inner p' = inner (obj_ports (objs st) port)
    \<and> cq_contents p' = enq_all (unat n) (map to_cqe cs) (cq_contents (obj_ports (objs st) port))"
  using assms
proof (induction cs arbitrary: m st)
  case Nil
  then show ?case by (intro exI [of _ "obj_ports (objs st) port"]) (simp add: enq_all_def)
next
  case (Cons c cs)
  from Cons.prems(1) obtain m1 st1 where d: "deliver_completion c m st = Inr (m1, st1)"
    and l: "flush_loop port cs m1 (post_ring port c st1) = Inr (m', st')" by auto
  note eq = deliver_ports [OF d]
  obtain p1 where p1: "obj_ports (objs (post_ring port c st1)) = (obj_ports (objs st))(port := p1)" "ring_port n p1"
    "inner p1 = inner (obj_ports (objs st) port)"
    "cq_contents p1 = list_enq (unat n) (to_cqe c) (cq_contents (obj_ports (objs st) port))"
    using post_ring_contents [of n st1 port c] Cons.prems(2) unfolding eq by blast
  from Cons.IH [OF l] p1 obtain p' where
    "obj_ports (objs st') = (obj_ports (objs st))(port := p')" "ring_port n p'" "inner p' = inner p1"
    "cq_contents p' = enq_all (unat n) (map to_cqe cs) (cq_contents p1)"
    unfolding p1(1) fun_upd_same fun_upd_upd by blast
  with p1(3,4) show ?case
    using enq_all_Cons [OF ring_port_bound [OF Cons.prems(2)]] by (intro exI [of _ p']) simp
qed

text \<open>C37: Flushing moves the deferred completions of a port to its shared ring, in order, as far as the ring
  has room, after what it holds; the others are dropped. The kernel queue is empty afterwards, the ring is
  well-formed and no other port changes.\<close>

theorem flush_moves_to_ring:
  assumes "flush_completions port m st = Inr (m', st')" and "cport_inv (obj_ports (objs st) port)"
    and "io_ring (obj_ports (objs st) port) = Some rg"
  shows "\<exists>p'. obj_ports (objs st') = (obj_ports (objs st))(port := p') \<and> cport_inv p' \<and> port_queue (inner p') = []
    \<and> cq_contents p' = cq_contents (obj_ports (objs st) port) @
        take (unat (entry_count (cq_ring rg)) - length (cq_contents (obj_ports (objs st) port)))
          (map to_cqe (port_queue (inner (obj_ports (objs st) port))))"
proof -
  let ?p = "obj_ports (objs st) port"
  let ?q = "?p\<lparr>inner := (inner ?p)\<lparr>port_queue := []\<rparr>\<rparr>"
  have d: "drain (pending ?p) ?p = (port_queue (inner ?p), ?q)"
    by (simp add: drain_def port_drain_def pending_def port_pending_def Let_def)
  have r: "ring_port (entry_count (cq_ring rg)) ?q"
    using assms(2,3) by (simp add: ring_port_def cport_inv_def port_inv_def)
  have "flush_loop port (port_queue (inner ?p)) m (upd_port port ?q st) = Inr (m', st')"
    using assms(1,3) d by (simp add: flush_completions_def Let_def has_ring_def)
  from flush_loop_contents [OF this] r obtain p' where
    "obj_ports (objs st') = (obj_ports (objs st))(port := p')" "ring_port (entry_count (cq_ring rg)) p'" "inner p' = inner ?q"
    "cq_contents p' = enq_all (unat (entry_count (cq_ring rg))) (map to_cqe (port_queue (inner ?p))) (cq_contents ?q)"
    by (auto simp: upd_port_def)
  then show ?thesis by (auto simp: ring_port_def enq_all_def cq_contents_def)
qed

text \<open>A port with a ring of one entry, and two completed reads.\<close>

definition small_ring :: IoRing where
  "small_ring = \<lparr>sq_phys = [0x1000], cq_phys = [0x2000], sq_entries = 1, cq_entries = 1,
     sq_ring = \<lparr>header = zero_header, entry_count = 1, entries = [zero_sqe]\<rparr>,
     cq_ring = \<lparr>header = zero_header, entry_count = 1, entries = [zero_cqe]\<rparr>\<rparr>"

definition two_reads :: system where
  "two_reads = upd_port 0 \<lparr>inner = port_new\<lparr>port_queue := [read_done, read_done\<lparr>c_user_data := 8\<rparr>]\<rparr>, io_ring = Some small_ring\<rparr> (peers 1)"

theorem flush_moves_to_ring_witness:
  "\<exists>m' st'. flush_completions 0 (\<lambda>_. 0) two_reads = Inr (m', st')
     \<and> cq_contents (obj_ports (objs st') 0) = [to_cqe read_done] \<and> port_queue (inner (obj_ports (objs st') 0)) = []"
proof -
  have p: "obj_ports (objs two_reads) 0 =
      \<lparr>inner = port_new\<lparr>port_queue := [read_done, read_done\<lparr>c_user_data := 8\<rparr>]\<rparr>, io_ring = Some small_ring\<rparr>"
    by (simp add: two_reads_def upd_port_def)
  have "list_ex (\<lambda>k. Suc 0 = 2 ^ k) [0..<32]" by (auto simp: list_ex_iff intro!: bexI [of _ 0])
  then have inv: "cport_inv (obj_ports (objs two_reads) 0)" and c: "cq_contents (obj_ports (objs two_reads) 0) = []"
    by (simp_all add: p cport_inv_def port_inv_def port_new_def small_ring_def ring_inv_def is_power_of_two_def ring_len_def
        tail_def head_def zero_header_def cq_contents_def ring_contents_def const_defs)
  have "\<exists>m' st'. flush_completions 0 (\<lambda>_. 0) two_reads = Inr (m', st')"
    by (simp add: flush_completions_def p drain_def port_drain_def pending_def port_pending_def Let_def port_new_def has_ring_def
        deliver_completion_def install_completion_def read_done_def read_completion_def)
  then obtain m' st' where f: "flush_completions 0 (\<lambda>_. 0) two_reads = Inr (m', st')" by blast
  have "io_ring (obj_ports (objs two_reads) 0) = Some small_ring" by (simp add: p)
  from flush_moves_to_ring [OF f inv this] f show ?thesis
    unfolding c by (auto simp: p small_ring_def)
qed

text \<open>A call that asks for more completions than the ring can hold never returns.\<close>

lemma ring_wait_unreachable:
  assumes "cport_inv (obj_ports (objs st) port)" and "io_ring (obj_ports (objs st) port) = Some rg"
    and "entry_count (cq_ring rg) < min_complete" and "ring_wait_round port min_complete st = Inr (r, st')"
  shows "r = Ipc_Retry"
proof -
  have "ring_inv (cq_ring rg)" using assms(1,2) by (simp add: cport_inv_def)
  then have "cq_available rg \<le> entry_count (cq_ring rg)"
    using ring_len_bound [of "cq_ring rg"] by (simp add: cq_available_def ring_len_def word_le_nat_alt)
  with assms(3) have "\<not> min_complete \<le> cq_available rg" by auto
  with assms(2,4) show ?thesis by (auto simp: ring_wait_round_def Let_def)
qed

end
