(* ===== verification/P9_Proto.thy ===== *)
theory P9_Proto
  imports Path Byte_Memory
begin

text \<open>
  The 9P2000.L messages of \<^verbatim>\<open>devices/src/virtio/p9_proto.rs\<close>: the requests that the client sends and the
  decoders of the replies. A decoder reads at an offset that it moves on; whether bytes are UTF-8 is decided by the
  argument \<open>utf8\<close> (\<^verbatim>\<open>core::str::from_utf8\<close>). Every decoder ends and never reads outside the reply; what a server encodes,
  the client decodes.
\<close>

datatype P9Error = BufferTooSmall | InvalidResponse | ServerError u32 | Utf8Error | DeviceError

definition RLERROR :: u8 where [const_defs]: "RLERROR = 7"
definition TLOPEN :: u8 where [const_defs]: "TLOPEN = 12"
definition RLOPEN :: u8 where [const_defs]: "RLOPEN = 13"
definition TGETATTR :: u8 where [const_defs]: "TGETATTR = 24"
definition RGETATTR :: u8 where [const_defs]: "RGETATTR = 25"
definition TREADDIR :: u8 where [const_defs]: "TREADDIR = 40"
definition RREADDIR :: u8 where [const_defs]: "RREADDIR = 41"
definition TVERSION :: u8 where [const_defs]: "TVERSION = 100"
definition RVERSION :: u8 where [const_defs]: "RVERSION = 101"
definition TATTACH :: u8 where [const_defs]: "TATTACH = 104"
definition RATTACH :: u8 where [const_defs]: "RATTACH = 105"
definition TWALK :: u8 where [const_defs]: "TWALK = 110"
definition RWALK :: u8 where [const_defs]: "RWALK = 111"
definition TREAD :: u8 where [const_defs]: "TREAD = 116"
definition RREAD :: u8 where [const_defs]: "RREAD = 117"
definition TCLUNK :: u8 where [const_defs]: "TCLUNK = 120"
definition RCLUNK :: u8 where [const_defs]: "RCLUNK = 121"
definition L_O_RDONLY :: u32 where [const_defs]: "L_O_RDONLY = 0"
definition P9_GETATTR_BASIC :: u64 where [const_defs]: "P9_GETATTR_BASIC = 0x201"

record Qid =
  qid_type :: u8
  qid_version :: u32
  qid_path :: u64

record DirEntry9p =
  de_qid :: Qid
  de_offset :: u64
  de_dtype :: u8
  de_name :: string

record Stat9p =
  st_mode :: u32
  st_size :: u64
  st_qid :: Qid

subsection \<open>Writing\<close>

definition HEADER_SIZE :: nat where [const_defs]: "HEADER_SIZE = 7"

definition begin_msg :: "u8 \<Rightarrow> u16 \<Rightarrow> u8 list" where
  "begin_msg msg_type tag = [0, 0, 0, 0] @ [msg_type] @ le_bytes 2 (unat tag)"

definition finish :: "u8 list \<Rightarrow> u8 list" where
  "finish buf = le_bytes 4 (length buf mod 2 ^ 32) @ drop 4 buf"

definition put_u16 :: "u16 \<Rightarrow> u8 list \<Rightarrow> u8 list" where
  "put_u16 v buf = buf @ le_bytes 2 (unat v)"

definition put_u32 :: "u32 \<Rightarrow> u8 list \<Rightarrow> u8 list" where
  "put_u32 v buf = buf @ le_bytes 4 (unat v)"

definition put_u64 :: "u64 \<Rightarrow> u8 list \<Rightarrow> u8 list" where
  "put_u64 v buf = buf @ le_bytes 8 (unat v)"

definition put_str :: "string \<Rightarrow> u8 list \<Rightarrow> u8 list" where
  "put_str s buf = put_u16 (of_nat (length s)) buf @ bytes_of s"

definition encode_tversion :: "u32 \<Rightarrow> string \<Rightarrow> u8 list" where
  "encode_tversion msize version = finish (put_str version (put_u32 msize (begin_msg TVERSION 0xFFFF)))"

definition encode_tattach :: "u16 \<Rightarrow> u32 \<Rightarrow> u32 \<Rightarrow> string \<Rightarrow> string \<Rightarrow> u8 list" where
  "encode_tattach tag fid afid uname aname =
     finish (put_u32 (- 1) (put_str aname (put_str uname (put_u32 afid (put_u32 fid (begin_msg TATTACH tag))))))"

definition encode_twalk :: "u16 \<Rightarrow> u32 \<Rightarrow> u32 \<Rightarrow> string list \<Rightarrow> u8 list" where
  "encode_twalk tag fid newfid ns =
     finish (fold put_str ns (put_u16 (of_nat (length ns)) (put_u32 newfid (put_u32 fid (begin_msg TWALK tag)))))"

definition encode_tlopen :: "u16 \<Rightarrow> u32 \<Rightarrow> u32 \<Rightarrow> u8 list" where
  "encode_tlopen tag fid flags = finish (put_u32 flags (put_u32 fid (begin_msg TLOPEN tag)))"

definition encode_tread :: "u16 \<Rightarrow> u32 \<Rightarrow> u64 \<Rightarrow> u32 \<Rightarrow> u8 list" where
  "encode_tread tag fid offset cnt = finish (put_u32 cnt (put_u64 offset (put_u32 fid (begin_msg TREAD tag))))"

definition encode_treaddir :: "u16 \<Rightarrow> u32 \<Rightarrow> u64 \<Rightarrow> u32 \<Rightarrow> u8 list" where
  "encode_treaddir tag fid offset cnt = finish (put_u32 cnt (put_u64 offset (put_u32 fid (begin_msg TREADDIR tag))))"

definition encode_tgetattr :: "u16 \<Rightarrow> u32 \<Rightarrow> u64 \<Rightarrow> u8 list" where
  "encode_tgetattr tag fid request_mask = finish (put_u64 request_mask (put_u32 fid (begin_msg TGETATTR tag)))"

definition encode_tclunk :: "u16 \<Rightarrow> u32 \<Rightarrow> u8 list" where
  "encode_tclunk tag fid = finish (put_u32 fid (begin_msg TCLUNK tag))"

subsection \<open>Reading\<close>

type_synonym 'a p9 = "P9Error + 'a"

definition get_u8 :: "u8 list \<Rightarrow> nat \<Rightarrow> (u8 \<times> nat) p9" where
  "get_u8 data off = (if off + 1 > length data then Inl BufferTooSmall else Inr (data ! off, off + 1))"

definition get_u16 :: "u8 list \<Rightarrow> nat \<Rightarrow> (u16 \<times> nat) p9" where
  "get_u16 data off =
     (if off + 2 > length data then Inl BufferTooSmall else Inr (of_nat (of_le_bytes (take 2 (drop off data))), off + 2))"

definition get_u32 :: "u8 list \<Rightarrow> nat \<Rightarrow> (u32 \<times> nat) p9" where
  "get_u32 data off =
     (if off + 4 > length data then Inl BufferTooSmall else Inr (of_nat (of_le_bytes (take 4 (drop off data))), off + 4))"

definition get_u64 :: "u8 list \<Rightarrow> nat \<Rightarrow> (u64 \<times> nat) p9" where
  "get_u64 data off =
     (if off + 8 > length data then Inl BufferTooSmall else Inr (of_nat (of_le_bytes (take 8 (drop off data))), off + 8))"

definition bind_p9 :: "'a p9 \<Rightarrow> ('a \<Rightarrow> 'b p9) \<Rightarrow> 'b p9" where
  "bind_p9 r f = (case r of Inl e \<Rightarrow> Inl e | Inr x \<Rightarrow> f x)"

lemma bind_p9_simps [simp]: "bind_p9 (Inl e) f = Inl e" "bind_p9 (Inr x) f = f x"
  by (simp_all add: bind_p9_def)

lemma bind_p9_eq_Inr [simp]: "bind_p9 r f = Inr y \<longleftrightarrow> (\<exists>x. r = Inr x \<and> f x = Inr y)"
  by (simp add: bind_p9_def split: sum.splits)

lemma bind_p9_cong [fundef_cong]: "r = r' \<Longrightarrow> (\<And>x. r' = Inr x \<Longrightarrow> f x = g x) \<Longrightarrow> bind_p9 r f = bind_p9 r' g"
  by (simp add: bind_p9_def split: sum.splits)

definition get_str :: "(u8 list \<Rightarrow> bool) \<Rightarrow> u8 list \<Rightarrow> nat \<Rightarrow> (string \<times> nat) p9" where
  "get_str utf8 data off =
     bind_p9 (get_u16 data off) (\<lambda>(len, o1).
       if o1 + unat len > length data then Inl BufferTooSmall
       else if \<not> utf8 (take (unat len) (drop o1 data)) then Inl Utf8Error
       else Inr (str_of (take (unat len) (drop o1 data)), o1 + unat len))"

definition get_qid :: "u8 list \<Rightarrow> nat \<Rightarrow> (Qid \<times> nat) p9" where
  "get_qid data off =
     bind_p9 (get_u8 data off) (\<lambda>(t, o1).
     bind_p9 (get_u32 data o1) (\<lambda>(v, o2).
     bind_p9 (get_u64 data o2) (\<lambda>(p, o3). Inr (\<lparr>qid_type = t, qid_version = v, qid_path = p\<rparr>, o3))))"

text \<open>The header of a reply. The slice of the reply panics when the device reports more bytes than
  the buffer has.\<close>

definition check_response :: "u8 list \<Rightarrow> nat \<Rightarrow> u8 \<Rightarrow> u8 list p9 res" where
  "check_response resp resp_len expected_type =
     (if resp_len > length resp then Inl IndexOutOfBounds
      else
        let data = take resp_len resp in
        Inr (if length data < HEADER_SIZE then Inl InvalidResponse
             else if data ! 4 = RLERROR then bind_p9 (get_u32 data HEADER_SIZE) (\<lambda>(ecode, _). Inl (ServerError ecode))
             else if data ! 4 \<noteq> expected_type then Inl InvalidResponse
             else Inr (drop HEADER_SIZE data)))"

definition decode_rversion :: "(u8 list \<Rightarrow> bool) \<Rightarrow> u8 list \<Rightarrow> (u32 \<times> string) p9" where
  "decode_rversion utf8 payload =
     bind_p9 (get_u32 payload 0) (\<lambda>(msize, o1). bind_p9 (get_str utf8 payload o1) (\<lambda>(version, _). Inr (msize, version)))"

definition decode_rattach :: "u8 list \<Rightarrow> Qid p9" where
  "decode_rattach payload = bind_p9 (get_qid payload 0) (\<lambda>(q, _). Inr q)"

fun get_qids :: "nat \<Rightarrow> u8 list \<Rightarrow> nat \<Rightarrow> Qid list p9" where
  "get_qids 0 data off = Inr []"
| "get_qids (Suc n) data off =
     bind_p9 (get_qid data off) (\<lambda>(q, o1). bind_p9 (get_qids n data o1) (\<lambda>qs. Inr (q # qs)))"

definition decode_rwalk :: "u8 list \<Rightarrow> Qid list p9" where
  "decode_rwalk payload = bind_p9 (get_u16 payload 0) (\<lambda>(n, o1). get_qids (unat n) payload o1)"

definition decode_rlopen :: "u8 list \<Rightarrow> (Qid \<times> u32) p9" where
  "decode_rlopen payload =
     bind_p9 (get_qid payload 0) (\<lambda>(q, o1). bind_p9 (get_u32 payload o1) (\<lambda>(iounit, _). Inr (q, iounit)))"

definition decode_rread :: "u8 list \<Rightarrow> u8 list p9" where
  "decode_rread payload =
     bind_p9 (get_u32 payload 0) (\<lambda>(cnt, o1).
       if o1 + unat cnt > length payload then Inl BufferTooSmall else Inr (take (unat cnt) (drop o1 payload)))"

text \<open>What the readers read is inside the data, and moves the offset on; the loop over a directory ends.\<close>

lemma get_offsets:
  "get_u8 data off = Inr (b, o1) \<Longrightarrow> o1 = off + 1 \<and> o1 \<le> length data"
  "get_u16 data off = Inr (h, o1) \<Longrightarrow> o1 = off + 2 \<and> o1 \<le> length data"
  "get_u32 data off = Inr (w, o1) \<Longrightarrow> o1 = off + 4 \<and> o1 \<le> length data"
  "get_u64 data off = Inr (d, o1) \<Longrightarrow> o1 = off + 8 \<and> o1 \<le> length data"
  by (auto simp: get_u8_def get_u16_def get_u32_def get_u64_def split: if_splits)

lemma get_qid_offset: "get_qid data off = Inr (q, o1) \<Longrightarrow> o1 = off + 13 \<and> o1 \<le> length data"
  by (auto simp: get_qid_def dest!: get_offsets)

lemma get_str_offset: "get_str utf8 data off = Inr (s, o1) \<Longrightarrow> o1 = off + 2 + length s \<and> o1 \<le> length data"
  by (auto simp: get_str_def dest!: get_offsets split: if_splits)

definition get_dir_entry :: "(u8 list \<Rightarrow> bool) \<Rightarrow> u8 list \<Rightarrow> nat \<Rightarrow> (DirEntry9p \<times> nat) p9" where
  "get_dir_entry utf8 payload off =
     bind_p9 (get_qid payload off) (\<lambda>(q, o1).
     bind_p9 (get_u64 payload o1) (\<lambda>(offset, o2).
     bind_p9 (get_u8 payload o2) (\<lambda>(dtype, o3).
     bind_p9 (get_str utf8 payload o3) (\<lambda>(name, o4).
       Inr (\<lparr>de_qid = q, de_offset = offset, de_dtype = dtype, de_name = name\<rparr>, o4)))))"

lemma get_dir_entry_offset: "get_dir_entry utf8 data off = Inr (e, o1) \<Longrightarrow> off < o1 \<and> o1 \<le> length data"
  by (auto simp: get_dir_entry_def dest!: get_offsets get_qid_offset get_str_offset)

function readdir_loop :: "(u8 list \<Rightarrow> bool) \<Rightarrow> u8 list \<Rightarrow> nat \<Rightarrow> nat \<Rightarrow> DirEntry9p list p9" where
  "readdir_loop utf8 payload end_off off =
     (if off < end_off then
        bind_p9 (get_dir_entry utf8 payload off) (\<lambda>(e, o1).
        bind_p9 (readdir_loop utf8 payload end_off o1) (\<lambda>es. Inr (e # es)))
      else Inr [])"
  by pat_completeness auto
termination
  by (relation "measure (\<lambda>(_, _, e, off). e - off)") (auto dest: get_dir_entry_offset)

definition decode_rreaddir :: "(u8 list \<Rightarrow> bool) \<Rightarrow> u8 list \<Rightarrow> DirEntry9p list p9" where
  "decode_rreaddir utf8 payload =
     bind_p9 (get_u32 payload 0) (\<lambda>(cnt, o1).
       if o1 + unat cnt > length payload then Inl BufferTooSmall else readdir_loop utf8 payload (o1 + unat cnt) o1)"

definition decode_rgetattr :: "u8 list \<Rightarrow> Stat9p p9" where
  "decode_rgetattr payload =
     bind_p9 (get_u64 payload 0) (\<lambda>(_, o1).
     bind_p9 (get_qid payload o1) (\<lambda>(q, o2).
     bind_p9 (get_u32 payload o2) (\<lambda>(mode, o3).
     bind_p9 (get_u32 payload o3) (\<lambda>(_, o4).
     bind_p9 (get_u32 payload o4) (\<lambda>(_, o5).
     bind_p9 (get_u64 payload o5) (\<lambda>(_, o6).
     bind_p9 (get_u64 payload o6) (\<lambda>(_, o7).
     bind_p9 (get_u64 payload o7) (\<lambda>(size, _). Inr \<lparr>st_mode = mode, st_size = size, st_qid = q\<rparr>))))))))"

definition decode_rclunk :: "u8 list \<Rightarrow> unit p9" where
  "decode_rclunk payload = Inr ()"

subsection \<open>Replies\<close>

text \<open>Replies as a server writes them.\<close>

definition reply :: "u8 \<Rightarrow> u16 \<Rightarrow> u8 list \<Rightarrow> u8 list" where
  "reply ty tag body = le_bytes 4 (HEADER_SIZE + length body) @ [ty] @ le_bytes 2 (unat tag) @ body"

definition qid_bytes :: "Qid \<Rightarrow> u8 list" where
  "qid_bytes q = [qid_type q] @ le_bytes 4 (unat (qid_version q)) @ le_bytes 8 (unat (qid_path q))"

definition str_bytes :: "string \<Rightarrow> u8 list" where
  "str_bytes s = le_bytes 2 (length s) @ bytes_of s"

definition dir_entry_bytes :: "DirEntry9p \<Rightarrow> u8 list" where
  "dir_entry_bytes e = qid_bytes (de_qid e) @ le_bytes 8 (unat (de_offset e)) @ [de_dtype e] @ str_bytes (de_name e)"

definition rread_body :: "u8 list \<Rightarrow> u8 list" where
  "rread_body data = le_bytes 4 (length data) @ data"

definition rreaddir_body :: "DirEntry9p list \<Rightarrow> u8 list" where
  "rreaddir_body es = rread_body (concat (map dir_entry_bytes es))"

definition rgetattr_body :: "u64 \<Rightarrow> Stat9p \<Rightarrow> u8 list \<Rightarrow> u8 list" where
  "rgetattr_body valid s rest =
     le_bytes 8 (unat valid) @ qid_bytes (st_qid s) @ le_bytes 4 (unat (st_mode s)) @ replicate 24 0
       @ le_bytes 8 (unat (st_size s)) @ rest"

definition sendable :: "(u8 list \<Rightarrow> bool) \<Rightarrow> string \<Rightarrow> bool" where
  "sendable utf8 s \<longleftrightarrow> utf8 (bytes_of s) \<and> length s < 2 ^ 16"

lemma length_qid_bytes [simp]: "length (qid_bytes q) = 13"
  by (simp add: qid_bytes_def)

lemma length_reply [simp]: "length (reply ty tag body) = HEADER_SIZE + length body"
  by (simp add: reply_def HEADER_SIZE_def)

lemma get_bytes:
  "get_u8 (pre @ b # post) (length pre) = Inr (b, length pre + 1)"
  "get_u16 (pre @ le_bytes 2 (unat h) @ post) (length pre) = Inr (h, length pre + 2)"
  "get_u32 (pre @ le_bytes 4 (unat w) @ post) (length pre) = Inr (w, length pre + 4)"
  "get_u64 (pre @ le_bytes 8 (unat d) @ post) (length pre) = Inr (d, length pre + 8)"
  by (simp_all add: get_u8_def get_u16_def get_u32_def get_u64_def of_le_bytes_u16 of_le_bytes_u32 of_le_bytes_word)

text \<open>The same with the prefix split off at a known length.\<close>

lemma get_bytes_at:
  "data = pre @ b # post \<Longrightarrow> off = length pre \<Longrightarrow> get_u8 data off = Inr (b, off + 1)"
  "data = pre @ le_bytes 2 (unat h) @ post \<Longrightarrow> off = length pre \<Longrightarrow> get_u16 data off = Inr (h, off + 2)"
  "data = pre @ le_bytes 4 (unat w) @ post \<Longrightarrow> off = length pre \<Longrightarrow> get_u32 data off = Inr (w, off + 4)"
  "data = pre @ le_bytes 8 (unat d) @ post \<Longrightarrow> off = length pre \<Longrightarrow> get_u64 data off = Inr (d, off + 8)"
  using get_bytes by simp_all

lemma get_qid_bytes:
  assumes "data = pre @ qid_bytes q @ post" and "off = length pre"
  shows "get_qid data off = Inr (q, off + 13)"
proof -
  have "get_u8 data off = Inr (qid_type q, off + 1)"
    by (rule get_bytes_at(1) [of _ pre _ "le_bytes 4 (unat (qid_version q)) @ le_bytes 8 (unat (qid_path q)) @ post"])
      (simp_all add: assms qid_bytes_def)
  moreover have "get_u32 data (off + 1) = Inr (qid_version q, off + 5)"
    using get_bytes_at(3) [of data "pre @ [qid_type q]" "qid_version q" "le_bytes 8 (unat (qid_path q)) @ post" "off + 1"]
    by (simp add: assms qid_bytes_def)
  moreover have "get_u64 data (off + 5) = Inr (qid_path q, off + 13)"
    using get_bytes_at(4) [of data "pre @ [qid_type q] @ le_bytes 4 (unat (qid_version q))" "qid_path q" post "off + 5"]
    by (simp add: assms qid_bytes_def)
  ultimately show ?thesis by (simp add: get_qid_def)
qed

lemma get_str_bytes:
  assumes "data = pre @ str_bytes s @ post" and "off = length pre" and "sendable utf8 s"
  shows "get_str utf8 data off = Inr (s, off + length (str_bytes s))"
proof -
  have u: "unat (of_nat (length s) :: u16) = length s"
    using assms(3) by (simp add: sendable_def unsigned_of_nat take_bit_nat_eq_self)
  have "get_u16 data off = Inr (of_nat (length s), off + 2)"
    using get_bytes_at(2) [of data pre "of_nat (length s)" "bytes_of s @ post" off] by (simp add: assms str_bytes_def u)
  with u assms show ?thesis by (simp add: get_str_def str_bytes_def sendable_def)
qed

lemma get_dir_entry_bytes:
  assumes "data = pre @ dir_entry_bytes e @ post" and "off = length pre" and "sendable utf8 (de_name e)"
  shows "get_dir_entry utf8 data off = Inr (e, off + length (dir_entry_bytes e))"
proof -
  let ?s = "str_bytes (de_name e) @ post"
  have "get_qid data off = Inr (de_qid e, off + 13)"
    by (rule get_qid_bytes [of _ pre _ "le_bytes 8 (unat (de_offset e)) @ [de_dtype e] @ ?s"])
      (simp_all add: assms dir_entry_bytes_def)
  moreover have "get_u64 data (off + 13) = Inr (de_offset e, off + 21)"
    using get_bytes_at(4) [of data "pre @ qid_bytes (de_qid e)" "de_offset e" "[de_dtype e] @ ?s" "off + 13"]
    by (simp add: assms dir_entry_bytes_def)
  moreover have "get_u8 data (off + 21) = Inr (de_dtype e, off + 22)"
    using get_bytes_at(1) [of data "pre @ qid_bytes (de_qid e) @ le_bytes 8 (unat (de_offset e))" "de_dtype e" ?s "off + 21"]
    by (simp add: assms dir_entry_bytes_def)
  moreover have "get_str utf8 data (off + 22) = Inr (de_name e, off + 22 + length (str_bytes (de_name e)))"
    by (rule get_str_bytes [of _ "pre @ qid_bytes (de_qid e) @ le_bytes 8 (unat (de_offset e)) @ [de_dtype e]" _ post])
      (simp_all add: assms dir_entry_bytes_def)
  ultimately show ?thesis by (simp add: get_dir_entry_def dir_entry_bytes_def)
qed

lemma dir_entry_bytes_nonempty: "0 < length (dir_entry_bytes e)"
  by (simp add: dir_entry_bytes_def)

declare readdir_loop.simps [simp del]

lemma readdir_loop_bytes:
  assumes "\<forall>e\<in>set es. sendable utf8 (de_name e)"
  shows "readdir_loop utf8 (pre @ concat (map dir_entry_bytes es)) (length pre + length (concat (map dir_entry_bytes es))) (length pre) = Inr es"
  using assms
proof (induction es arbitrary: pre)
  case Nil
  then show ?case by (simp add: readdir_loop.simps)
next
  case (Cons e es)
  let ?rest = "concat (map dir_entry_bytes es)"
  have "get_dir_entry utf8 (pre @ dir_entry_bytes e @ ?rest) (length pre) = Inr (e, length pre + length (dir_entry_bytes e))"
    by (rule get_dir_entry_bytes [OF refl refl]) (use Cons.prems in simp)
  moreover have "readdir_loop utf8 ((pre @ dir_entry_bytes e) @ ?rest) (length (pre @ dir_entry_bytes e) + length ?rest) (length (pre @ dir_entry_bytes e)) = Inr es"
    by (rule Cons.IH) (use Cons.prems in simp)
  ultimately show ?case
    using dir_entry_bytes_nonempty [of e]
    by (subst readdir_loop.simps) (simp add: add.assoc)
qed

lemma unat_length32: "length bs < 2 ^ 32 \<Longrightarrow> unat (of_nat (length bs) :: u32) = length bs"
  by (simp add: unsigned_of_nat take_bit_nat_eq_self)

lemma get_u32_length: "length bs < 2 ^ 32 \<Longrightarrow> get_u32 (le_bytes 4 (length bs) @ post) 0 = Inr (of_nat (length bs), 4)"
  using get_bytes_at(3) [of "le_bytes 4 (length bs) @ post" "[]" "of_nat (length bs)" post 0] by (simp add: unat_length32)

lemma decode_rread_body: "length data < 2 ^ 32 \<Longrightarrow> decode_rread (rread_body data) = Inr data"
  by (simp add: decode_rread_def rread_body_def get_u32_length unat_length32)

lemma decode_rreaddir_body:
  assumes "\<forall>e\<in>set es. sendable utf8 (de_name e)" and "length (concat (map dir_entry_bytes es)) < 2 ^ 32"
  shows "decode_rreaddir utf8 (rreaddir_body es) = Inr es"
  using readdir_loop_bytes [OF assms(1), of "le_bytes 4 (length (concat (map dir_entry_bytes es)))"] assms(2)
  by (simp add: decode_rreaddir_def rreaddir_body_def rread_body_def get_u32_length unat_length32)

lemma check_response_reply:
  assumes "ty \<noteq> RLERROR" and "take n buf = reply ty tag body" and "n \<le> length buf"
  shows "check_response buf n ty = Inr (Inr body)"
proof -
  have "reply ty tag body ! 4 = ty" "drop HEADER_SIZE (reply ty tag body) = body"
    by (simp_all add: reply_def HEADER_SIZE_def nth_append)
  with assms show ?thesis by (simp add: check_response_def Let_def)
qed

end
