(* ===== verification/P9_Client.thy ===== *)
theory P9_Client
  imports P9_Proto
begin

text \<open>
  The 9P client of \<^verbatim>\<open>devices/src/virtio/p9.rs\<close>. The device (the crate \<^verbatim>\<open>virtio-drivers\<close> and the server behind
  it) is an argument: it gets a request and the buffer for the reply, and gives the number of bytes of the reply and the
  buffer as it left it, or an error. The loops that read a file or a directory end only when the
  server says so: a value \<open>None\<close> is a loop that does not. With a server that keeps the protocol, reading a file returns its
  contents.
\<close>

subsection \<open>The client\<close>

definition DEFAULT_MSIZE :: nat where [const_defs]: "DEFAULT_MSIZE = 8192"
definition ROOT_FID :: nat where [const_defs]: "ROOT_FID = 0"
definition TAG :: u16 where [const_defs]: "TAG = 1"
definition S_IFDIR :: u32 where [const_defs]: "S_IFDIR = 0x4000"
definition S_IFMT :: u32 where [const_defs]: "S_IFMT = 0xF000"

record P9Client =
  msize :: nat
  next_fid :: nat

type_synonym 'd device = "u8 list \<Rightarrow> u8 list \<Rightarrow> 'd \<Rightarrow> (nat \<times> u8 list) option \<times> 'd"

type_synonym ('a, 'd) op = "P9Client \<times> 'd \<Rightarrow> ('a p9 \<times> P9Client \<times> 'd) res"

definition bind_op :: "('a, 'd) op \<Rightarrow> ('a \<Rightarrow> ('b, 'd) op) \<Rightarrow> ('b, 'd) op" where
  "bind_op r f s = bind_res (r s) (\<lambda>(x, s'). case x of Inl e \<Rightarrow> Inr (Inl e, s') | Inr a \<Rightarrow> f a s')"

definition lift_p9 :: "'a p9 \<Rightarrow> ('a, 'd) op" where
  "lift_p9 x s = Inr (x, s)"

text \<open>One request, and its reply of the given type.\<close>

definition send_request :: "'d device \<Rightarrow> u8 list \<Rightarrow> u8 list \<Rightarrow> u8 \<Rightarrow> 'd \<Rightarrow> (u8 list p9 \<times> u8 list \<times> 'd) res" where
  "send_request dev req resp expected_type d =
     (case dev req resp d of
        (None, d') \<Rightarrow> Inr (Inl DeviceError, resp, d')
      | (Some (n, buf), d') \<Rightarrow> bind_res (check_response buf n expected_type) (\<lambda>r. Inr (r, buf, d')))"

definition P9Client_new :: "(u8 list \<Rightarrow> bool) \<Rightarrow> 'd device \<Rightarrow> 'd \<Rightarrow> (P9Client p9 \<times> 'd) res" where
  "P9Client_new utf8 dev d =
     bind_res (send_request dev (encode_tversion (of_nat DEFAULT_MSIZE) ''9P2000.L'') (replicate DEFAULT_MSIZE 0) RVERSION d)
       (\<lambda>(r, resp, d1).
       case bind_p9 r (decode_rversion utf8) of
         Inl e \<Rightarrow> Inr (Inl e, d1)
       | Inr (ms, _) \<Rightarrow>
           bind_res (send_request dev (encode_tattach TAG (of_nat ROOT_FID) (- 1) [] []) resp RATTACH d1) (\<lambda>(r, _, d2).
             Inr (bind_p9 (bind_p9 r decode_rattach) (\<lambda>_. Inr \<lparr>msize = unat ms, next_fid = ROOT_FID + 1\<rparr>), d2)))"

definition alloc_fid :: "(nat, 'd) op" where
  "alloc_fid s =
     (case s of (c, d) \<Rightarrow>
        if next_fid c + 1 < 2 ^ 32 then Inr (Inr (next_fid c), c\<lparr>next_fid := next_fid c + 1\<rparr>, d)
        else Inl ArithOverflow)"

definition client_request :: "'d device \<Rightarrow> u8 list \<Rightarrow> u8 \<Rightarrow> (u8 list, 'd) op" where
  "client_request dev req expected_type s =
     (case s of (c, d) \<Rightarrow>
        bind_res (send_request dev req (replicate (msize c) 0) expected_type d) (\<lambda>(r, _, d'). Inr (r, c, d')))"

text \<open>\<^verbatim>\<open>clunk\<close> ignores how the request ends.\<close>

definition clunk :: "'d device \<Rightarrow> nat \<Rightarrow> (unit, 'd) op" where
  "clunk dev fid s = bind_res (client_request dev (encode_tclunk TAG (of_nat fid)) RCLUNK s) (\<lambda>(_, s'). Inr (Inr (), s'))"

definition path_names :: "string \<Rightarrow> string list" where
  "path_names path = filter (\<lambda>s. s \<noteq> []) (split_at_char slash path)"

definition p9_walk :: "'d device \<Rightarrow> string \<Rightarrow> (nat, 'd) op" where
  "p9_walk dev path =
     bind_op alloc_fid (\<lambda>newfid.
     bind_op (client_request dev (encode_twalk TAG (of_nat ROOT_FID) (of_nat newfid) (path_names path)) RWALK) (\<lambda>payload.
     bind_op (lift_p9 (decode_rwalk payload)) (\<lambda>qids.
       if path_names path \<noteq> [] \<and> length qids \<noteq> length (path_names path)
       then bind_op (clunk dev newfid) (\<lambda>_. lift_p9 (Inl (ServerError 2)))
       else lift_p9 (Inr newfid))))"

definition lopen :: "'d device \<Rightarrow> nat \<Rightarrow> u32 \<Rightarrow> (Qid \<times> u32, 'd) op" where
  "lopen dev fid flags =
     bind_op (client_request dev (encode_tlopen TAG (of_nat fid) flags) RLOPEN) (\<lambda>payload. lift_p9 (decode_rlopen payload))"

definition p9_getattr :: "'d device \<Rightarrow> nat \<Rightarrow> (Stat9p, 'd) op" where
  "p9_getattr dev fid =
     bind_op (client_request dev (encode_tgetattr TAG (of_nat fid) P9_GETATTR_BASIC) RGETATTR)
       (\<lambda>payload. lift_p9 (decode_rgetattr payload))"

definition read_chunk :: "'d device \<Rightarrow> nat \<Rightarrow> nat \<Rightarrow> nat \<Rightarrow> (u8 list, 'd) op" where
  "read_chunk dev fid offset cnt =
     bind_op (client_request dev (encode_tread TAG (of_nat fid) (of_nat offset) (of_nat cnt)) RREAD)
       (\<lambda>payload. lift_p9 (decode_rread payload))"

definition readdir_chunk :: "(u8 list \<Rightarrow> bool) \<Rightarrow> 'd device \<Rightarrow> nat \<Rightarrow> u64 \<Rightarrow> nat \<Rightarrow> (DirEntry9p list, 'd) op" where
  "readdir_chunk utf8 dev fid offset cnt =
     bind_op (client_request dev (encode_treaddir TAG (of_nat fid) offset (of_nat cnt)) RREADDIR)
       (\<lambda>payload. lift_p9 (decode_rreaddir utf8 payload))"

text \<open>The reading loops; \<open>acc\<close> is what was read.\<close>

partial_function (option) read_loop ::
  "'d device \<Rightarrow> nat \<Rightarrow> nat \<Rightarrow> nat \<Rightarrow> u8 list \<Rightarrow> P9Client \<times> 'd \<Rightarrow> (u8 list p9 \<times> P9Client \<times> 'd) res option" where
  "read_loop dev fid offset chunk_size acc s =
     (case read_chunk dev fid offset chunk_size s of
        Inl p \<Rightarrow> Some (Inl p)
      | Inr (Inl e, s') \<Rightarrow> Some (Inr (Inl e, s'))
      | Inr (Inr chunk, s') \<Rightarrow>
          if chunk = [] then Some (Inr (Inr acc, s'))
          else (case add_u64 offset (length chunk) of
                  Inl p \<Rightarrow> Some (Inl p)
                | Inr offset' \<Rightarrow> read_loop dev fid offset' chunk_size (acc @ chunk) s'))"

partial_function (option) list_loop ::
  "(u8 list \<Rightarrow> bool) \<Rightarrow> 'd device \<Rightarrow> nat \<Rightarrow> u64 \<Rightarrow> nat \<Rightarrow> DirEntry9p list \<Rightarrow> P9Client \<times> 'd \<Rightarrow> (DirEntry9p list p9 \<times> P9Client \<times> 'd) res option" where
  "list_loop utf8 dev fid offset read_count acc s =
     (case readdir_chunk utf8 dev fid offset read_count s of
        Inl p \<Rightarrow> Some (Inl p)
      | Inr (Inl e, s') \<Rightarrow> Some (Inr (Inl e, s'))
      | Inr (Inr entries, s') \<Rightarrow>
          if entries = [] then Some (Inr (Inr acc, s'))
          else list_loop utf8 dev fid (de_offset (last entries)) read_count (acc @ entries) s')"

text \<open>An operation that may not return, after one that does.\<close>

definition then_loop ::
  "('a, 'd) op \<Rightarrow> ('a \<Rightarrow> P9Client \<times> 'd \<Rightarrow> ('b p9 \<times> P9Client \<times> 'd) res option) \<Rightarrow> P9Client \<times> 'd \<Rightarrow> ('b p9 \<times> P9Client \<times> 'd) res option" where
  "then_loop r f s =
     (case r s of
        Inl p \<Rightarrow> Some (Inl p)
      | Inr (Inl e, s') \<Rightarrow> Some (Inr (Inl e, s'))
      | Inr (Inr a, s') \<Rightarrow> f a s')"

text \<open>And an operation after one that may not return.\<close>

definition after_loop :: "('a p9 \<times> P9Client \<times> 'd) res option \<Rightarrow> ('a \<Rightarrow> ('b, 'd) op) \<Rightarrow> ('b p9 \<times> P9Client \<times> 'd) res option" where
  "after_loop r f =
     map_option (\<lambda>x. bind_res x (\<lambda>(y, s). case y of Inl e \<Rightarrow> Inr (Inl e, s) | Inr a \<Rightarrow> f a s)) r"

text \<open>The size of a chunk: the room in a message less 64 bytes.\<close>

definition chunk_room :: "(nat, 'd) op" where
  "chunk_room s = bind_res (sub_u64 (msize (fst s)) 64) (\<lambda>n. Inr (Inr n, s))"

definition list_dir :: "(u8 list \<Rightarrow> bool) \<Rightarrow> 'd device \<Rightarrow> string \<Rightarrow> P9Client \<times> 'd \<Rightarrow> (DirEntry9p list p9 \<times> P9Client \<times> 'd) res option" where
  "list_dir utf8 dev path =
     then_loop (bind_op (p9_walk dev path) (\<lambda>fid. bind_op (lopen dev fid L_O_RDONLY) (\<lambda>_.
                bind_op chunk_room (\<lambda>n. lift_p9 (Inr (fid, n))))))
       (\<lambda>(fid, n) s.
          after_loop (list_loop utf8 dev fid 0 n [] s) (\<lambda>es.
            bind_op (clunk dev fid) (\<lambda>_. lift_p9 (Inr (filter (\<lambda>e. de_name e \<noteq> ''.'' \<and> de_name e \<noteq> ''..'') es)))))"

definition read_file :: "'d device \<Rightarrow> string \<Rightarrow> P9Client \<times> 'd \<Rightarrow> (u8 list p9 \<times> P9Client \<times> 'd) res option" where
  "read_file dev path =
     then_loop (bind_op (p9_walk dev path) (\<lambda>fid. bind_op (p9_getattr dev fid) (\<lambda>_. bind_op (lopen dev fid L_O_RDONLY) (\<lambda>_.
                bind_op chunk_room (\<lambda>n. lift_p9 (Inr (fid, n)))))))
       (\<lambda>(fid, n) s.
          after_loop (read_loop dev fid 0 n [] s) (\<lambda>data. bind_op (clunk dev fid) (\<lambda>_. lift_p9 (Inr data))))"

definition p9_stat :: "'d device \<Rightarrow> string \<Rightarrow> (Stat9p, 'd) op" where
  "p9_stat dev path =
     bind_op (p9_walk dev path) (\<lambda>fid. bind_op (p9_getattr dev fid) (\<lambda>st. bind_op (clunk dev fid) (\<lambda>_. lift_p9 (Inr st))))"

definition is_dir :: "u32 \<Rightarrow> bool" where
  "is_dir mode \<longleftrightarrow> mode AND S_IFMT = S_IFDIR"

subsection \<open>A server that keeps the protocol\<close>

text \<open>The device answers the request with these bytes, which fit into the buffer.\<close>

definition replies :: "'d device \<Rightarrow> nat \<Rightarrow> u8 list \<Rightarrow> 'd \<Rightarrow> u8 list \<Rightarrow> 'd \<Rightarrow> bool" where
  "replies dev ms req d rep d' \<longleftrightarrow> length rep \<le> ms \<and>
     (\<forall>buf. length buf = ms \<longrightarrow> (\<exists>buf'. dev req buf d = (Some (length rep, buf'), d') \<and> length buf' = ms \<and> take (length rep) buf' = rep))"

definition rwalk_body :: "Qid list \<Rightarrow> u8 list" where
  "rwalk_body qs = le_bytes 2 (length qs) @ concat (map qid_bytes qs)"

definition rlopen_body :: "Qid \<Rightarrow> u32 \<Rightarrow> u8 list" where
  "rlopen_body q iounit = qid_bytes q @ le_bytes 4 (unat iounit)"

text \<open>
  What the protocol says of a server that has a file with these contents at the path. \<open>Idle\<close> are the server's states
  in which a new fid may be walked, \<open>Bound fid\<close> those in which \<open>fid\<close> stands for the file. A read returns bytes from
  the offset on: at most as many as asked for, and at least one before the end of the file.
\<close>

definition serves_file :: "'d device \<Rightarrow> nat \<Rightarrow> string \<Rightarrow> u8 list \<Rightarrow> ('d \<Rightarrow> bool) \<Rightarrow> (nat \<Rightarrow> 'd \<Rightarrow> bool) \<Rightarrow> bool" where
  "serves_file dev ms path content Idle Bound \<longleftrightarrow>
     (\<forall>d fid. Idle d \<longrightarrow> (\<exists>qs d'. replies dev ms (encode_twalk TAG (of_nat ROOT_FID) (of_nat fid) (path_names path)) d
        (reply RWALK TAG (rwalk_body qs)) d' \<and> length qs = length (path_names path) \<and> Bound fid d'))
   \<and> (\<forall>d fid. Bound fid d \<longrightarrow> (\<exists>valid s rest d'. replies dev ms (encode_tgetattr TAG (of_nat fid) P9_GETATTR_BASIC) d
        (reply RGETATTR TAG (rgetattr_body valid s rest)) d' \<and> Bound fid d'))
   \<and> (\<forall>d fid. Bound fid d \<longrightarrow> (\<exists>q iounit d'. replies dev ms (encode_tlopen TAG (of_nat fid) L_O_RDONLY) d
        (reply RLOPEN TAG (rlopen_body q iounit)) d' \<and> Bound fid d'))
   \<and> (\<forall>d fid off cnt. Bound fid d \<longrightarrow> off \<le> length content \<longrightarrow> 0 < cnt \<longrightarrow> cnt \<le> ms - 64 \<longrightarrow>
        (\<exists>k d'. replies dev ms (encode_tread TAG (of_nat fid) (of_nat off) (of_nat cnt)) d
           (reply RREAD TAG (rread_body (take k (drop off content)))) d' \<and> k \<le> cnt \<and> (off < length content \<longrightarrow> 0 < k) \<and> Bound fid d'))
   \<and> (\<forall>d fid. Bound fid d \<longrightarrow> (\<exists>d'. replies dev ms (encode_tclunk TAG (of_nat fid)) d (reply RCLUNK TAG []) d' \<and> Idle d'))"

lemma client_request_replies:
  assumes "replies dev (msize c) req d (reply ty tag body) d'" and "ty \<noteq> RLERROR"
  shows "client_request dev req ty (c, d) = Inr (Inr body, c, d')"
proof -
  obtain buf where b: "dev req (replicate (msize c) 0) d = (Some (length (reply ty tag body), buf), d')" "length buf = msize c"
    "take (length (reply ty tag body)) buf = reply ty tag body" "length (reply ty tag body) \<le> msize c"
    using assms(1) unfolding replies_def by (metis length_replicate)
  from check_response_reply [OF assms(2) b(3)] b show ?thesis
    by (simp add: client_request_def send_request_def)
qed

lemma get_qids_bytes:
  "get_qids (length qs) (pre @ concat (map qid_bytes qs) @ post) (length pre) = Inr qs"
proof (induction qs arbitrary: pre)
  case (Cons q qs)
  have "get_qid (pre @ qid_bytes q @ concat (map qid_bytes qs) @ post) (length pre) = Inr (q, length (pre @ qid_bytes q))"
    using get_qid_bytes [OF refl refl, of pre q "concat (map qid_bytes qs) @ post"] by simp
  with Cons.IH [of "pre @ qid_bytes q"] show ?case by simp
qed simp

lemma decode_rwalk_body:
  assumes "length qs < 2 ^ 16"
  shows "decode_rwalk (rwalk_body qs) = Inr qs"
proof -
  have u: "unat (of_nat (length qs) :: u16) = length qs" using assms by (simp add: unsigned_of_nat take_bit_nat_eq_self)
  have "get_u16 (rwalk_body qs) 0 = Inr (of_nat (length qs), 2)"
    using get_bytes_at(2) [of "rwalk_body qs" "[]" "of_nat (length qs)" "concat (map qid_bytes qs)" 0] u by (simp add: rwalk_body_def)
  with get_qids_bytes [of qs "le_bytes 2 (length qs)" "[]"] u show ?thesis by (simp add: decode_rwalk_def rwalk_body_def)
qed

lemma decode_rlopen_body: "decode_rlopen (rlopen_body q iounit) = Inr (q, iounit)"
proof -
  have "get_qid (rlopen_body q iounit) 0 = Inr (q, 13)"
    using get_qid_bytes [of "rlopen_body q iounit" "[]" q "le_bytes 4 (unat iounit)" 0] by (simp add: rlopen_body_def)
  moreover have "get_u32 (rlopen_body q iounit) 13 = Inr (iounit, 17)"
    using get_bytes_at(3) [of "rlopen_body q iounit" "qid_bytes q" iounit "[]" 13] by (simp add: rlopen_body_def)
  ultimately show ?thesis by (simp add: decode_rlopen_def)
qed

lemma get_inside:
  "off + 4 \<le> length data \<Longrightarrow> \<exists>v. get_u32 data off = Inr (v, off + 4)"
  "off + 8 \<le> length data \<Longrightarrow> \<exists>v. get_u64 data off = Inr (v, off + 8)"
  by (simp_all add: get_u32_def get_u64_def)

lemma decode_rgetattr_body: "decode_rgetattr (rgetattr_body valid s rest) = Inr s"
proof -
  let ?d = "rgetattr_body valid s rest"
  have l: "length ?d = 57 + length rest" by (simp add: rgetattr_body_def)
  have "get_u64 ?d 0 = Inr (valid, 8)"
    using get_bytes_at(4) [of ?d "[]" valid _ 0] by (simp add: rgetattr_body_def)
  moreover have "get_qid ?d 8 = Inr (st_qid s, 21)"
    using get_qid_bytes [of ?d "le_bytes 8 (unat valid)" "st_qid s" "le_bytes 4 (unat (st_mode s)) @ replicate 24 0 @ le_bytes 8 (unat (st_size s)) @ rest" 8]
    by (simp add: rgetattr_body_def)
  moreover have "get_u32 ?d 21 = Inr (st_mode s, 25)"
    using get_bytes_at(3) [of ?d "le_bytes 8 (unat valid) @ qid_bytes (st_qid s)" "st_mode s" "replicate 24 0 @ le_bytes 8 (unat (st_size s)) @ rest" 21]
    by (simp add: rgetattr_body_def)
  moreover have "get_u64 ?d 49 = Inr (st_size s, 57)"
    using get_bytes_at(4) [of ?d "le_bytes 8 (unat valid) @ qid_bytes (st_qid s) @ le_bytes 4 (unat (st_mode s)) @ replicate 24 0" "st_size s" rest 49]
    by (simp add: rgetattr_body_def)
  moreover obtain a b e f where "get_u32 ?d 25 = Inr (a, 29)" "get_u32 ?d 29 = Inr (b, 33)" "get_u64 ?d 33 = Inr (e, 41)" "get_u64 ?d 41 = Inr (f, 49)"
    using get_inside(1) [of 25 ?d] get_inside(1) [of 29 ?d] get_inside(2) [of 33 ?d] get_inside(2) [of 41 ?d] l by auto
  ultimately show ?thesis by (simp add: decode_rgetattr_def)
qed

lemma serves_fileD:
  assumes "serves_file dev ms path content Idle Bound"
  shows "Idle d \<Longrightarrow> \<exists>qs d'. replies dev ms (encode_twalk TAG (of_nat ROOT_FID) (of_nat fid) (path_names path)) d
      (reply RWALK TAG (rwalk_body qs)) d' \<and> length qs = length (path_names path) \<and> Bound fid d'"
    and "Bound fid d \<Longrightarrow> \<exists>valid s rest d'. replies dev ms (encode_tgetattr TAG (of_nat fid) P9_GETATTR_BASIC) d
      (reply RGETATTR TAG (rgetattr_body valid s rest)) d' \<and> Bound fid d'"
    and "Bound fid d \<Longrightarrow> \<exists>q iounit d'. replies dev ms (encode_tlopen TAG (of_nat fid) L_O_RDONLY) d
      (reply RLOPEN TAG (rlopen_body q iounit)) d' \<and> Bound fid d'"
    and "Bound fid d \<Longrightarrow> off \<le> length content \<Longrightarrow> 0 < cnt \<Longrightarrow> cnt \<le> ms - 64 \<Longrightarrow>
      \<exists>k d'. replies dev ms (encode_tread TAG (of_nat fid) (of_nat off) (of_nat cnt)) d
         (reply RREAD TAG (rread_body (take k (drop off content)))) d' \<and> k \<le> cnt \<and> (off < length content \<longrightarrow> 0 < k) \<and> Bound fid d'"
    and "Bound fid d \<Longrightarrow> \<exists>d'. replies dev ms (encode_tclunk TAG (of_nat fid)) d (reply RCLUNK TAG []) d' \<and> Idle d'"
  using assms unfolding serves_file_def by blast+

lemma walk_ok:
  assumes "serves_file dev (msize c) path content Idle Bound" and "Idle d" and "next_fid c + 1 < 2 ^ 32"
    and "length (path_names path) < 2 ^ 16"
  shows "\<exists>d'. p9_walk dev path (c, d) = Inr (Inr (next_fid c), c\<lparr>next_fid := next_fid c + 1\<rparr>, d') \<and> Bound (next_fid c) d'"
proof -
  let ?c = "c\<lparr>next_fid := next_fid c + 1\<rparr>"
  from serves_fileD(1) [OF assms(1,2), of "next_fid c"] obtain qs d' where
    r: "replies dev (msize ?c) (encode_twalk TAG (of_nat ROOT_FID) (of_nat (next_fid c)) (path_names path)) d (reply RWALK TAG (rwalk_body qs)) d'"
    and qs: "length qs = length (path_names path)" and b: "Bound (next_fid c) d'" by auto
  have "client_request dev (encode_twalk TAG (of_nat ROOT_FID) (of_nat (next_fid c)) (path_names path)) RWALK (?c, d) = Inr (Inr (rwalk_body qs), ?c, d')"
    by (rule client_request_replies [OF r]) (simp add: const_defs)
  with assms(3,4) qs b decode_rwalk_body [of qs] show ?thesis
    by (simp add: p9_walk_def bind_op_def alloc_fid_def lift_p9_def)
qed

lemma getattr_ok:
  assumes "serves_file dev (msize c) path content Idle Bound" and "Bound fid d"
  shows "\<exists>s d'. p9_getattr dev fid (c, d) = Inr (Inr s, c, d') \<and> Bound fid d'"
proof -
  from serves_fileD(2) [OF assms] obtain valid s rest d' where
    r: "replies dev (msize c) (encode_tgetattr TAG (of_nat fid) P9_GETATTR_BASIC) d (reply RGETATTR TAG (rgetattr_body valid s rest)) d'"
    and b: "Bound fid d'" by blast
  have "client_request dev (encode_tgetattr TAG (of_nat fid) P9_GETATTR_BASIC) RGETATTR (c, d) = Inr (Inr (rgetattr_body valid s rest), c, d')"
    by (rule client_request_replies [OF r]) (simp add: const_defs)
  with b show ?thesis by (simp add: p9_getattr_def bind_op_def lift_p9_def decode_rgetattr_body)
qed

lemma lopen_ok:
  assumes "serves_file dev (msize c) path content Idle Bound" and "Bound fid d"
  shows "\<exists>x d'. lopen dev fid L_O_RDONLY (c, d) = Inr (Inr x, c, d') \<and> Bound fid d'"
proof -
  from serves_fileD(3) [OF assms] obtain q iounit d' where
    r: "replies dev (msize c) (encode_tlopen TAG (of_nat fid) L_O_RDONLY) d (reply RLOPEN TAG (rlopen_body q iounit)) d'"
    and b: "Bound fid d'" by blast
  have "client_request dev (encode_tlopen TAG (of_nat fid) L_O_RDONLY) RLOPEN (c, d) = Inr (Inr (rlopen_body q iounit), c, d')"
    by (rule client_request_replies [OF r]) (simp add: const_defs)
  with b show ?thesis by (simp add: lopen_def bind_op_def lift_p9_def decode_rlopen_body)
qed

lemma clunk_ok:
  assumes "serves_file dev (msize c) path content Idle Bound" and "Bound fid d"
  shows "\<exists>d'. clunk dev fid (c, d) = Inr (Inr (), c, d') \<and> Idle d'"
proof -
  from serves_fileD(5) [OF assms] obtain d' where
    r: "replies dev (msize c) (encode_tclunk TAG (of_nat fid)) d (reply RCLUNK TAG []) d'" and b: "Idle d'" by blast
  have "client_request dev (encode_tclunk TAG (of_nat fid)) RCLUNK (c, d) = Inr (Inr [], c, d')"
    by (rule client_request_replies [OF r]) (simp add: const_defs)
  with b show ?thesis by (simp add: clunk_def)
qed

lemma read_chunk_ok:
  assumes "serves_file dev (msize c) path content Idle Bound" and "Bound fid d" and "off \<le> length content"
    and "0 < cnt" and "cnt \<le> msize c - 64" and "msize c < 2 ^ 32"
  shows "\<exists>k d'. read_chunk dev fid off cnt (c, d) = Inr (Inr (take k (drop off content)), c, d') \<and> (off < length content \<longrightarrow> 0 < k) \<and> Bound fid d'"
proof -
  from serves_fileD(4) [OF assms(1-5)] obtain k d' where
    r: "replies dev (msize c) (encode_tread TAG (of_nat fid) (of_nat off) (of_nat cnt)) d (reply RREAD TAG (rread_body (take k (drop off content)))) d'"
    and k: "k \<le> cnt" "off < length content \<longrightarrow> 0 < k" "Bound fid d'" by blast
  have "client_request dev (encode_tread TAG (of_nat fid) (of_nat off) (of_nat cnt)) RREAD (c, d) = Inr (Inr (rread_body (take k (drop off content))), c, d')"
    by (rule client_request_replies [OF r]) (simp add: const_defs)
  moreover have "length (take k (drop off content)) < 2 ^ 32" using k(1) assms(5,6) by simp
  ultimately show ?thesis
    using k(2,3) decode_rread_body [of "take k (drop off content)"] by (auto simp: read_chunk_def bind_op_def lift_p9_def)
qed

lemma read_loop_ok:
  assumes "serves_file dev (msize c) path content Idle Bound" and "Bound fid d" and "off \<le> length content"
    and "0 < cnt" and "cnt \<le> msize c - 64" and "msize c < 2 ^ 32" and "length content < 2 ^ 64"
  shows "\<exists>d'. read_loop dev fid off cnt (take off content) (c, d) = Some (Inr (Inr content, c, d')) \<and> Bound fid d'"
  using assms(2,3)
proof (induction "length content - off" arbitrary: off d rule: less_induct)
  case less
  from read_chunk_ok [OF assms(1) less.prems assms(4-6)] obtain k d' where
    r: "read_chunk dev fid off cnt (c, d) = Inr (Inr (take k (drop off content)), c, d')"
    and k: "off < length content \<longrightarrow> 0 < k" and b: "Bound fid d'" by blast
  show ?case
  proof (cases "take k (drop off content) = []")
    case True
    with k less.prems(2) have "off = length content" by auto
    with r b True show ?thesis by (subst read_loop.simps) simp
  next
    case False
    let ?n = "off + length (take k (drop off content))"
    have n: "?n \<le> length content" "off < ?n" using False less.prems(2) by auto
    have "take off content @ take k (drop off content) = take ?n content"
      using less.prems(2) by (cases "k \<le> length content - off") (simp_all add: take_add)
    moreover have "?n < 2 ^ 64" using n(1) assms(7) by linarith
    moreover have "length content - ?n < length content - off" using n by linarith
    ultimately show ?thesis
      using less.hyps [of ?n d'] b n(1) False r by (subst read_loop.simps) (simp add: add_u64_ok del: length_take)
  qed
qed


text \<open>A server with one file of three bytes that sends at most two at a time.\<close>

definition example_file :: "u8 list" where
  "example_file = [10, 20, 30]"

definition example_reply :: "u8 list \<Rightarrow> u8 list" where
  "example_reply req =
     (let q = \<lparr>qid_type = 0, qid_version = 0, qid_path = 1\<rparr> in
      if req ! 4 = TWALK then reply RWALK TAG (rwalk_body [q])
      else if req ! 4 = TGETATTR then reply RGETATTR TAG (rgetattr_body 0 \<lparr>st_mode = 0, st_size = 3, st_qid = q\<rparr> [])
      else if req ! 4 = TLOPEN then reply RLOPEN TAG (rlopen_body q 0)
      else if req ! 4 = TREAD then
        reply RREAD TAG (rread_body (take (min 2 (of_le_bytes (take 4 (drop 19 req)))) (drop (of_le_bytes (take 8 (drop 11 req))) example_file)))
      else reply RCLUNK TAG [])"

definition example_server :: "unit device" where
  "example_server req buf d = (Some (length (example_reply req), example_reply req @ drop (length (example_reply req)) buf), d)"

lemma example_server_replies: "length (example_reply req) \<le> ms \<Longrightarrow> replies example_server ms req d (example_reply req) d"
  by (simp add: replies_def example_server_def)

lemma example_server_serves: "serves_file example_server 128 ''/a'' example_file (\<lambda>_. True) (\<lambda>_ _. True)"
  unfolding serves_file_def
proof (intro conjI allI impI)
  fix d and fid :: nat
  let ?q = "\<lparr>qid_type = 0, qid_version = 0, qid_path = 1\<rparr>"
  note types = finish_def begin_msg_def put_u32_def put_u64_def put_u16_def nth_append
  let ?walk = "encode_twalk TAG (of_nat ROOT_FID) (of_nat fid) (path_names ''/a'')"
  have "example_reply ?walk = reply RWALK TAG (rwalk_body [?q])"
    by (simp add: example_reply_def encode_twalk_def path_names_def put_str_def types)
  then show "\<exists>qs d'. replies example_server 128 ?walk d (reply RWALK TAG (rwalk_body qs)) d' \<and> length qs = length (path_names ''/a'') \<and> True"
    using example_server_replies [of ?walk 128 d]
    by (intro exI [of _ "[?q]"] exI [of _ d]) (simp add: rwalk_body_def HEADER_SIZE_def path_names_def)
  let ?att = "encode_tgetattr TAG (of_nat fid) P9_GETATTR_BASIC"
  have "example_reply ?att = reply RGETATTR TAG (rgetattr_body 0 \<lparr>st_mode = 0, st_size = 3, st_qid = ?q\<rparr> [])"
    by (simp add: example_reply_def encode_tgetattr_def types TWALK_def TGETATTR_def)
  then show "\<exists>valid s rest d'. replies example_server 128 ?att d (reply RGETATTR TAG (rgetattr_body valid s rest)) d' \<and> True"
    using example_server_replies [of ?att 128 d]
    by (intro exI [of _ 0] exI [of _ "\<lparr>st_mode = 0, st_size = 3, st_qid = ?q\<rparr>"] exI [of _ "[]"] exI [of _ d])
      (simp add: rgetattr_body_def HEADER_SIZE_def)
  let ?lo = "encode_tlopen TAG (of_nat fid) L_O_RDONLY"
  have "example_reply ?lo = reply RLOPEN TAG (rlopen_body ?q 0)"
    by (simp add: example_reply_def encode_tlopen_def types TWALK_def TGETATTR_def TLOPEN_def)
  then show "\<exists>q iounit d'. replies example_server 128 ?lo d (reply RLOPEN TAG (rlopen_body q iounit)) d' \<and> True"
    using example_server_replies [of ?lo 128 d]
    by (intro exI [of _ ?q] exI [of _ 0] exI [of _ d]) (simp add: rlopen_body_def HEADER_SIZE_def)
  let ?cl = "encode_tclunk TAG (of_nat fid)"
  have "example_reply ?cl = reply RCLUNK TAG []"
    by (simp add: example_reply_def encode_tclunk_def types TWALK_def TGETATTR_def TLOPEN_def TREAD_def TCLUNK_def)
  then show "\<exists>d'. replies example_server 128 ?cl d (reply RCLUNK TAG []) d' \<and> True"
    using example_server_replies [of ?cl 128 d] by (intro exI [of _ d]) (simp add: HEADER_SIZE_def)
next
  fix d and fid off cnt :: nat
  assume off: "off \<le> length example_file" and cnt: "0 < cnt" "cnt \<le> 128 - 64"
  note types = finish_def begin_msg_def put_u32_def put_u64_def put_u16_def nth_append
  let ?rd = "encode_tread TAG (of_nat fid) (of_nat off) (of_nat cnt)" and ?k = "min 2 cnt"
  have "unat (of_nat off :: u64) = off" "unat (of_nat cnt :: u32) = cnt"
    using off cnt by (simp_all add: example_file_def unsigned_of_nat take_bit_nat_eq_self)
  moreover have "off < 256 ^ 8" "cnt < 256 ^ 4" using off cnt by (simp_all add: example_file_def)
  ultimately have "example_reply ?rd = reply RREAD TAG (rread_body (take ?k (drop off example_file)))"
    by (simp add: example_reply_def encode_tread_def types TWALK_def TGETATTR_def TLOPEN_def TREAD_def of_le_bytes_nat)
  then show "\<exists>k d'. replies example_server 128 ?rd d (reply RREAD TAG (rread_body (take k (drop off example_file)))) d'
      \<and> k \<le> cnt \<and> (off < length example_file \<longrightarrow> 0 < k) \<and> True"
    using example_server_replies [of ?rd 128 d] cnt
    by (intro exI [of _ ?k] exI [of _ d]) (simp add: rread_body_def HEADER_SIZE_def)
qed


end
