(* ===== verification/Initial_Stack.thy ===== *)
theory Initial_Stack
  imports Elf
begin

text \<open>
  The first stack of a program, \<^verbatim>\<open>build_initial_stack\<close> of \<^verbatim>\<open>osl/src/spawn.rs\<close>: strings at the top, then sixteen random
  bytes, the auxiliary vector, the pointers and the count. The kernel writes through its own mapping of the
  pages; \<open>k2u\<close> turns an address there into the one the program will use. When everything fits the program finds its
  arguments; nothing checks that it fits.
\<close>

subsection \<open>The code\<close>

definition AT_NULL :: nat where [const_defs]: "AT_NULL = 0"
definition AT_PHDR :: nat where [const_defs]: "AT_PHDR = 3"
definition AT_PHENT :: nat where [const_defs]: "AT_PHENT = 4"
definition AT_PHNUM :: nat where [const_defs]: "AT_PHNUM = 5"
definition AT_PAGESZ :: nat where [const_defs]: "AT_PAGESZ = 6"
definition AT_ENTRY :: nat where [const_defs]: "AT_ENTRY = 9"
definition AT_UID :: nat where [const_defs]: "AT_UID = 11"
definition AT_RANDOM :: nat where [const_defs]: "AT_RANDOM = 25"

definition k2u :: "nat \<Rightarrow> nat \<Rightarrow> nat \<Rightarrow> nat res" where
  "k2u ktop utop a = bind_res (sub_u64 ktop a) (\<lambda>d. sub_u64 utop d)"

fun push_words :: "nat list \<Rightarrow> nat \<Rightarrow> memory \<Rightarrow> (nat \<times> memory) res" where
  "push_words [] cursor m = Inr (cursor, m)"
| "push_words (v # vs) cursor m = bind_res (sub_u64 cursor 8) (\<lambda>c. push_words vs c (store_u64 c v m))"

fun push_strings :: "nat \<Rightarrow> nat \<Rightarrow> u8 list list \<Rightarrow> nat \<Rightarrow> memory \<Rightarrow> (nat list \<times> nat \<times> memory) res" where
  "push_strings ktop utop [] cursor m = Inr ([], cursor, m)"
| "push_strings ktop utop (s # ss) cursor m =
     bind_res (sub_u64 cursor (length s + 1)) (\<lambda>c.
     bind_res (k2u ktop utop c) (\<lambda>addr.
     bind_res (push_strings ktop utop ss c (store_bytes c (s @ [0]) m)) (\<lambda>(addrs, r). Inr (addr # addrs, r))))"

definition random_bytes :: "u8 list" where
  "random_bytes = map (\<lambda>i. of_nat i * 7 + 0x42) [0..<16]"

text \<open>The auxiliary vector as it is pushed: each value before its type.\<close>

definition auxv_words :: "ElfInfo \<Rightarrow> nat \<Rightarrow> nat list" where
  "auxv_words info rnd =
     [0, AT_NULL, rnd, AT_RANDOM, elf_entry info, AT_ENTRY, phnum info, AT_PHNUM, phentsize info, AT_PHENT,
      phdr_vaddr info, AT_PHDR, PAGE_SIZE, AT_PAGESZ, 0, AT_UID]"

definition build_initial_stack ::
  "nat \<Rightarrow> nat \<Rightarrow> nat \<Rightarrow> ElfInfo \<Rightarrow> u8 list list \<Rightarrow> u8 list list \<Rightarrow> memory \<Rightarrow> (nat \<times> memory) res" where
  "build_initial_stack kernel_base user_virt_base stack_size info argv envp m =
     bind_res (add_u64 kernel_base stack_size) (\<lambda>ktop.
     bind_res (add_u64 user_virt_base stack_size) (\<lambda>utop.
     bind_res (push_strings ktop utop argv ktop m) (\<lambda>(argv_addrs, c1, m1).
     bind_res (push_strings ktop utop envp c1 m1) (\<lambda>(envp_addrs, c2, m2).
     bind_res (sub_u64 c2 16) (\<lambda>c3.
     bind_res (k2u ktop utop c3) (\<lambda>rnd.
       let m3 = store_bytes c3 random_bytes m2; c4 = c3 div 8 * 8;
           total_pushes = 16 + 1 + length envp + 1 + length argv + 1 in
       bind_res (sub_u64 c4 (total_pushes * 8)) (\<lambda>pc.
       bind_res (k2u ktop utop pc) (\<lambda>prsp.
       bind_res (push_words ((if prsp mod 16 \<noteq> 0 then [0] else []) @ auxv_words info rnd @ [0] @ rev envp_addrs
           @ [0] @ rev argv_addrs @ [length argv]) c4 m3) (\<lambda>(c5, m5).
       bind_res (k2u ktop utop c5) (\<lambda>user_rsp.
         if user_rsp mod 16 \<noteq> 0 then Inl AssertFailed else Inr (user_rsp, m5)))))))))))"

subsection \<open>What the pushes leave\<close>

definition strings_size :: "u8 list list \<Rightarrow> nat" where
  "strings_size ss = sum_list (map (\<lambda>s. length s + 1) ss)"

lemma strings_size_simps [simp]: "strings_size [] = 0" "strings_size (s # ss) = length s + 1 + strings_size ss"
  by (simp_all add: strings_size_def)

lemma push_words_result:
  assumes "push_words vs c m = Inr (c', m')" and "\<forall>v\<in>set vs. v < 2 ^ 64"
  shows "c' + 8 * length vs = c \<and> (\<forall>a. a < c' \<or> c \<le> a \<longrightarrow> m' a = m a)
    \<and> (\<forall>i<length vs. load_u64 (c' + 8 * i) m' = rev vs ! i)"
  using assms
proof (induction vs arbitrary: c m)
  case (Cons v vs)
  from Cons.prems have c: "8 \<le> c" and l: "push_words vs (c - 8) (store_u64 (c - 8) v m) = Inr (c', m')" by auto
  note IH = Cons.IH [OF l] Cons.prems(2)
  have out: "m' a = m a" if "a < c' \<or> c \<le> a" for a
    using IH that c by (auto simp: store_u64_def store_bytes_outside)
  have "load_u64 (c - 8) m' = load_u64 (c - 8) (store_u64 (c - 8) v m)"
    using IH by (intro load_u64_cong) auto
  then have v: "load_u64 (c - 8) m' = v" using Cons.prems(2) by (simp add: load_store_u64_same)
  have "load_u64 (c' + 8 * i) m' = rev (v # vs) ! i" if "i < length (v # vs)" for i
  proof (cases "i < length vs")
    case True
    with IH show ?thesis by (simp add: nth_append)
  next
    case False
    with that have "i = length vs" by simp
    moreover have "c' + 8 * length vs = c - 8" using IH by simp
    ultimately show ?thesis using v by (simp add: nth_append)
  qed
  with out IH c show ?case by auto
qed simp

lemma push_strings_result:
  assumes "push_strings ktop utop ss c m = Inr (addrs, c', m')" and "c \<le> ktop"
  shows "c' + strings_size ss = c \<and> length addrs = length ss \<and> (\<forall>a. a < c' \<or> c \<le> a \<longrightarrow> m' a = m a)
    \<and> (\<forall>i<length ss. let k = c - strings_size (take (Suc i) ss) in
         load_bytes k (length (ss ! i) + 1) m' = ss ! i @ [0] \<and> addrs ! i = utop - (ktop - k) \<and> ktop - k \<le> utop)"
  using assms
proof (induction ss arbitrary: c m addrs)
  case (Cons s ss)
  let ?c = "c - (length s + 1)"
  from Cons.prems obtain addrs' where c: "length s + 1 \<le> c" and addrs: "addrs = (utop - (ktop - ?c)) # addrs'"
    and u: "ktop - ?c \<le> utop"
    and l: "push_strings ktop utop ss ?c (store_bytes ?c (s @ [0]) m) = Inr (addrs', c', m')"
    by (auto simp: k2u_def)
  have le: "?c \<le> ktop" using Cons.prems(2) by simp
  note IH = Cons.IH [OF l le]
  have "load_bytes ?c (length s + 1) m' = load_bytes ?c (length s + 1) (store_bytes ?c (s @ [0]) m)"
    using IH by (intro load_bytes_cong) auto
  then have here: "load_bytes ?c (length s + 1) m' = s @ [0]"
    using load_store_bytes_same [of ?c "s @ [0]" m] by simp
  have out: "m' a = m a" if "a < c' \<or> c \<le> a" for a
    using IH that c by (auto simp: store_bytes_outside)
  have "let k = c - strings_size (take (Suc i) (s # ss)) in
      load_bytes k (length ((s # ss) ! i) + 1) m' = (s # ss) ! i @ [0] \<and> addrs ! i = utop - (ktop - k) \<and> ktop - k \<le> utop"
    if "i < length (s # ss)" for i
  proof (cases i)
    case 0
    with here addrs u show ?thesis by (simp add: Let_def)
  next
    case (Suc j)
    with that IH addrs show ?thesis by (simp add: Let_def diff_diff_left)
  qed
  with out IH c addrs show ?case by auto
qed simp

lemma push_words_ok: "8 * length vs \<le> c \<Longrightarrow> \<exists>m'. push_words vs c m = Inr (c - 8 * length vs, m')"
proof (induction vs arbitrary: c m)
  case (Cons v vs)
  then have "8 \<le> c" "8 * length vs \<le> c - 8" by auto
  with Cons.IH [of "c - 8" "store_u64 (c - 8) v m"] show ?case by (simp add: sub_u64_ok)
qed simp

lemma push_strings_ok:
  "strings_size ss \<le> c \<Longrightarrow> c \<le> ktop \<Longrightarrow> ktop - (c - strings_size ss) \<le> utop \<Longrightarrow>
    \<exists>addrs m'. push_strings ktop utop ss c m = Inr (addrs, c - strings_size ss, m')"
proof (induction ss arbitrary: c m)
  case (Cons s ss)
  let ?c = "c - (length s + 1)"
  have "strings_size ss \<le> ?c" "?c \<le> ktop" "ktop - (?c - strings_size ss) \<le> utop" "ktop - ?c \<le> utop" "length s + 1 \<le> c"
    using Cons.prems by auto
  with Cons.IH [of ?c "store_bytes ?c (s @ [0]) m"] show ?case
    by (auto simp: k2u_def sub_u64_ok diff_diff_left)
qed simp

text \<open>The kernel address of a user address on the stack.\<close>

definition u2k :: "nat \<Rightarrow> nat \<Rightarrow> nat \<Rightarrow> nat" where
  "u2k B U u = B + (u - U)"

lemma k2u_inside:
  assumes "B \<le> k" and "k \<le> B + S"
  shows "k2u (B + S) (U + S) k = Inr (U + (k - B))" "U + S - (B + S - k) = U + (k - B)" "u2k B U (U + (k - B)) = k"
  using assms by (simp_all add: k2u_def sub_u64_ok u2k_def)

text \<open>The strings of a block of the stack, found through their user addresses.\<close>

definition strings_at :: "nat \<Rightarrow> nat \<Rightarrow> nat list \<Rightarrow> u8 list list \<Rightarrow> memory \<Rightarrow> bool" where
  "strings_at B U addrs ss m \<longleftrightarrow> length addrs = length ss \<and>
     (\<forall>i<length ss. U \<le> addrs ! i \<and> load_bytes (u2k B U (addrs ! i)) (length (ss ! i) + 1) m = ss ! i @ [0])"

lemma strings_size_take: "strings_size (take n ss) \<le> strings_size ss"
  by (induction ss arbitrary: n) (auto simp: take_Cons split: nat.splits)

lemma strings_size_entry: "i < length ss \<Longrightarrow> length (ss ! i) + 1 \<le> strings_size (take (Suc i) ss)"
proof (induction ss arbitrary: i)
  case (Cons s ss)
  show ?case
  proof (cases i)
    case (Suc j)
    with Cons.IH [of j] Cons.prems show ?thesis by simp
  qed simp
qed simp

lemma push_strings_at:
  assumes "push_strings (B + S) (U + S) ss c m = Inr (addrs, c', m')" and "c \<le> B + S" and "B \<le> c'"
    and "\<forall>a. c' \<le> a \<and> a < c \<longrightarrow> m'' a = m' a"
  shows "strings_at B U addrs ss m''"
  unfolding strings_at_def
proof (intro conjI allI impI)
  note R = push_strings_result [OF assms(1,2)]
  have size: "c' + strings_size ss = c" and len: "length addrs = length ss" using R by simp_all
  show "length addrs = length ss" by (rule len)
  fix i assume i: "i < length ss"
  let ?k = "c - strings_size (take (Suc i) ss)"
  have at: "load_bytes ?k (length (ss ! i) + 1) m' = ss ! i @ [0]" "addrs ! i = U + S - (B + S - ?k)"
    using R [unfolded Let_def] i by blast+
  have k: "c' \<le> ?k" "B \<le> ?k" "?k \<le> B + S" "?k + (length (ss ! i) + 1) \<le> c"
    using size strings_size_take [of "Suc i" ss] strings_size_entry [OF i] assms(2,3) by linarith+
  have a: "addrs ! i = U + (?k - B)" using at(2) k2u_inside(2) [OF k(2,3)] by simp
  then show "U \<le> addrs ! i" by simp
  have "load_bytes ?k (length (ss ! i) + 1) m'' = load_bytes ?k (length (ss ! i) + 1) m'"
    by (rule load_bytes_cong) (use k assms(4) in \<open>meson le_trans less_le_trans\<close>)
  with at(1) k2u_inside(3) [OF k(2,3)] a show "load_bytes (u2k B U (addrs ! i)) (length (ss ! i) + 1) m'' = ss ! i @ [0]"
    by simp
qed

subsection \<open>The program finds its arguments\<close>

text \<open>The room that the strings, the random bytes and the words need, alignment included.\<close>

definition stack_need :: "u8 list list \<Rightarrow> u8 list list \<Rightarrow> nat" where
  "stack_need argv envp = strings_size argv + strings_size envp + 23 + 8 * (20 + length envp + length argv)"

text \<open>The words above the stack pointer, as the program reads them.\<close>

definition initial_words :: "ElfInfo \<Rightarrow> nat list \<Rightarrow> nat list \<Rightarrow> nat \<Rightarrow> nat list" where
  "initial_words info aaddrs eaddrs rnd = length aaddrs # aaddrs @ [0] @ eaddrs @ [0] @ rev (auxv_words info rnd)"

definition info_ok :: "ElfInfo \<Rightarrow> bool" where
  "info_ok info \<longleftrightarrow> elf_entry info < 2 ^ 64 \<and> phnum info < 2 ^ 64 \<and> phentsize info < 2 ^ 64 \<and> phdr_vaddr info < 2 ^ 64"

lemma length_auxv [simp]: "length (auxv_words info rnd) = 16"
  by (simp add: auxv_words_def)

lemma auxv_bound: "info_ok info \<Longrightarrow> rnd < 2 ^ 64 \<Longrightarrow> v \<in> set (auxv_words info rnd) \<Longrightarrow> v < 2 ^ 64"
  by (auto simp: auxv_words_def info_ok_def const_defs)

lemma length_random [simp]: "length random_bytes = 16"
  by (simp add: random_bytes_def)

text \<open>The words part: from an aligned cursor the pushes end at an aligned stack pointer, and the words are found there.\<close>

lemma push_initial_words:
  assumes "8 * (n + 1) \<le> c - B" and "B + S < 2 ^ 64" and "c \<le> B + S" and "B mod 16 = 0" and "U mod 16 = 0" and "c mod 8 = 0"
    and "length vs = n" and "\<forall>v\<in>set vs. v < 2 ^ 64"
  shows "\<exists>c' m'. push_words ((if (U + (c - 8 * n - B)) mod 16 \<noteq> 0 then [0] else []) @ vs) c m = Inr (c', m')
    \<and> B \<le> c' \<and> c' + 8 * n \<le> c \<and> (U + (c' - B)) mod 16 = 0 \<and> (\<forall>a. a < c' \<or> c \<le> a \<longrightarrow> m' a = m a)
    \<and> (\<forall>i<n. load_u64 (c' + 8 * i) m' = rev vs ! i)"
proof -
  define pad :: "nat list" where "pad = (if (U + (c - 8 * n - B)) mod 16 \<noteq> 0 then [0] else [])"
  define c' where "c' = c - 8 * length (pad @ vs)"
  have pad: "length pad \<le> 1" "\<forall>v\<in>set pad. v < 2 ^ 64" by (simp_all add: pad_def)
  have le: "8 * length (pad @ vs) \<le> c - B" using pad(1) assms(1,7) by simp
  then have "8 * length (pad @ vs) \<le> c" by linarith
  from push_words_ok [OF this] obtain m' where m': "push_words (pad @ vs) c m = Inr (c', m')" unfolding c'_def by blast
  have "\<forall>v\<in>set (pad @ vs). v < 2 ^ 64" using assms(8) pad(2) by auto
  note R = push_words_result [OF m' this]
  have eq: "c' + 8 * length pad + 8 * n = c" and out: "\<forall>a. a < c' \<or> c \<le> a \<longrightarrow> m' a = m a" using R assms(7) by auto
  have B: "B \<le> c'" using le eq assms(1,7) by simp
  have al: "(U + (c' - B)) mod 16 = 0"
  proof (cases "(U + (c - 8 * n - B)) mod 16 = 0")
    case True
    then have "c' = c - 8 * n" using eq by (simp add: pad_def)
    with True show ?thesis by simp
  next
    case False
    then have "length pad = 1" by (simp add: pad_def)
    with eq have "c - 8 * n - B = c' - B + 8" using B by linarith
    with False have odd: "(U + (c' - B) + 8) mod 16 \<noteq> 0" by (metis add.assoc)
    have "c' mod 8 = 0" using eq assms(6) \<open>length pad = 1\<close> by presburger
    then have "(U + (c' - B)) mod 8 = 0" using assms(4,5) B by presburger
    with odd show ?thesis by presburger
  qed
  have "load_u64 (c' + 8 * i) m' = rev vs ! i" if "i < n" for i
  proof -
    have "i < length (pad @ vs)" "rev (pad @ vs) ! i = rev vs ! i" using that assms(7) by (simp_all add: nth_append)
    with R show ?thesis by metis
  qed
  with m' out B al eq show ?thesis unfolding pad_def [symmetric] by (intro exI [of _ c'] exI [of _ m']) auto
qed

lemma push_strings_bound:
  assumes "push_strings ktop utop ss c m = Inr (addrs, c', m')" and "c \<le> ktop" and "a \<in> set addrs"
  shows "a \<le> utop"
proof -
  note R = push_strings_result [OF assms(1,2)]
  obtain i where "i < length addrs" "a = addrs ! i" using assms(3) by (auto simp: in_set_conv_nth)
  moreover have "addrs ! i = utop - (ktop - (c - strings_size (take (Suc i) ss)))" if "i < length ss" for i
    using R [unfolded Let_def] that by blast
  ultimately show ?thesis using R by simp
qed

text \<open>The strings and the random bytes: they fill the top of the stack, and whatever is written later below them
  leaves them where the pointers say.\<close>

lemma push_initial_strings:
  assumes "strings_size argv + strings_size envp + 16 \<le> S"
  shows "\<exists>aaddrs eaddrs m1 m2. let c = B + S; c1 = c - strings_size argv; c2 = c1 - strings_size envp in
    push_strings (B + S) (U + S) argv c m = Inr (aaddrs, c1, m1)
    \<and> push_strings (B + S) (U + S) envp c1 m1 = Inr (eaddrs, c2, m2)
    \<and> length aaddrs = length argv \<and> length eaddrs = length envp \<and> (\<forall>a\<in>set aaddrs \<union> set eaddrs. a \<le> U + S)
    \<and> (\<forall>i<length argv. aaddrs ! i = U + S - strings_size (take (Suc i) argv))
    \<and> (\<forall>a. a < c2 \<or> B + S \<le> a \<longrightarrow> m2 a = m a)
    \<and> (\<forall>m'. (\<forall>a. c2 \<le> a \<and> a < B + S \<longrightarrow> m' a = m2 a) \<longrightarrow> strings_at B U aaddrs argv m' \<and> strings_at B U eaddrs envp m')"
proof -
  define c1 where "c1 = B + S - strings_size argv"
  define c2 where "c2 = c1 - strings_size envp"
  have c: "c1 \<le> B + S" "B \<le> c1" "c2 \<le> c1" "B \<le> c2" using assms by (auto simp: c1_def c2_def)
  have "\<exists>addrs m'. push_strings (B + S) (U + S) argv (B + S) m = Inr (addrs, c1, m')"
    unfolding c1_def by (rule push_strings_ok) (use assms in auto)
  then obtain aaddrs m1 where p1: "push_strings (B + S) (U + S) argv (B + S) m = Inr (aaddrs, c1, m1)" by blast
  have "\<exists>addrs m'. push_strings (B + S) (U + S) envp c1 m1 = Inr (addrs, c2, m')"
    unfolding c2_def by (rule push_strings_ok) (use assms c in \<open>auto simp: c1_def\<close>)
  then obtain eaddrs m2 where p2: "push_strings (B + S) (U + S) envp c1 m1 = Inr (eaddrs, c2, m2)" by blast
  note R1 = push_strings_result [OF p1 order_refl, THEN conjunct2] and R2 = push_strings_result [OF p2 c(1), THEN conjunct2]
  have o1: "m1 a = m a" if "a < c1 \<or> B + S \<le> a" for a using R1 that by blast
  have o2: "m2 a = m1 a" if "a < c2 \<or> c1 \<le> a" for a using R2 that by blast
  have out: "\<forall>a. a < c2 \<or> B + S \<le> a \<longrightarrow> m2 a = m a" using c by (auto simp: o1 o2)
  have "strings_at B U aaddrs argv m' \<and> strings_at B U eaddrs envp m'" if "\<forall>a. c2 \<le> a \<and> a < B + S \<longrightarrow> m' a = m2 a" for m'
  proof
    show "strings_at B U aaddrs argv m'"
      by (rule push_strings_at [OF p1 order_refl c(2)]) (use that o2 c in \<open>metis le_trans\<close>)
    show "strings_at B U eaddrs envp m'"
      by (rule push_strings_at [OF p2 c(1,4)]) (use that c in \<open>meson less_le_trans\<close>)
  qed
  moreover have "\<forall>a\<in>set aaddrs \<union> set eaddrs. a \<le> U + S"
    using push_strings_bound [OF p1 order_refl] push_strings_bound [OF p2 c(1)] by blast
  moreover have "length aaddrs = length argv" "length eaddrs = length envp" using R1 R2 by blast+
  moreover have "\<forall>i<length argv. aaddrs ! i = U + S - strings_size (take (Suc i) argv)"
    using R1 [unfolded Let_def] strings_size_take [of _ argv] assms
    by (metis add_leD1 diff_diff_cancel le_add2 le_trans)
  ultimately show ?thesis using p1 p2 out unfolding Let_def c1_def [symmetric] c2_def [symmetric] by blast
qed

text \<open>The call as its stages: the outcome of each gives the outcome of the whole.\<close>

lemma build_initial_stack_stages:
  assumes "B + S < 2 ^ 64" and "U + S < 2 ^ 64"
    and "push_strings (B + S) (U + S) argv (B + S) m = Inr (aaddrs, c1, m1)"
    and "push_strings (B + S) (U + S) envp c1 m1 = Inr (eaddrs, c3 + 16, m2)"
    and "c4 = c3 div 8 * 8" and "n = 19 + length envp + length argv" and "B + 8 * n \<le> c4" and "c3 \<le> B + S"
    and "push_words ((if (U + (c4 - 8 * n - B)) mod 16 \<noteq> 0 then [0] else []) @ auxv_words info (U + (c3 - B))
           @ [0] @ rev eaddrs @ [0] @ rev aaddrs @ [length argv]) c4 (store_bytes c3 random_bytes m2) = Inr (c5, m5)"
    and "B \<le> c5" and "c5 \<le> B + S" and "(U + (c5 - B)) mod 16 = 0"
  shows "build_initial_stack B U S info argv envp m = Inr (U + (c5 - B), m5)"
proof -
  have "c4 \<le> c3" by (simp add: assms(5))
  then have r: "B \<le> c3" "B \<le> c4 - 8 * n" "c4 - 8 * n \<le> B + S" "8 * n \<le> c4" using assms(7,8) by linarith+
  have n: "(16 + 1 + length envp + 1 + length argv + 1) * 8 = 8 * n" by (simp add: assms(6))
  note k = k2u_inside(1) [OF r(1) assms(8)] k2u_inside(1) [OF r(2,3)] k2u_inside(1) [OF assms(10,11)]
  show ?thesis
    unfolding build_initial_stack_def Let_def n
    using assms(1-4,9,12) r by (simp add: add_u64_ok sub_u64_ok k flip: assms(5))
qed

lemma initial_stack_built:
  assumes "B mod 16 = 0" and "U mod 16 = 0" and "B + S < 2 ^ 64" and "U + S < 2 ^ 64" and "info_ok info"
    and "stack_need argv envp \<le> S"
  shows "\<exists>rsp m' aaddrs eaddrs rnd. build_initial_stack B U S info argv envp m = Inr (rsp, m')
    \<and> rsp mod 16 = 0 \<and> U \<le> rsp \<and> rsp < U + S \<and> (\<forall>a. a < B \<or> B + S \<le> a \<longrightarrow> m' a = m a)
    \<and> (\<forall>i<length (initial_words info aaddrs eaddrs rnd).
         load_u64 (u2k B U rsp + 8 * i) m' = initial_words info aaddrs eaddrs rnd ! i)
    \<and> strings_at B U aaddrs argv m' \<and> strings_at B U eaddrs envp m'
    \<and> U \<le> rnd \<and> load_bytes (u2k B U rnd) 16 m' = random_bytes
    \<and> (\<forall>i<length argv. aaddrs ! i = U + S - strings_size (take (Suc i) argv))"
proof -
  define c2 where "c2 = B + S - strings_size argv - strings_size envp"
  define c3 where "c3 = c2 - 16"
  define c4 where "c4 = c3 div 8 * 8"
  define n where "n = 19 + length envp + length argv"
  define rnd where "rnd = U + (c3 - B)"
  have "strings_size argv + strings_size envp + 16 \<le> S" using assms(6) by (simp add: stack_need_def)
  from push_initial_strings [OF this, of B U m] obtain aaddrs eaddrs c1 m1 m2 where
    p1: "push_strings (B + S) (U + S) argv (B + S) m = Inr (aaddrs, c1, m1)" and
    p2: "push_strings (B + S) (U + S) envp c1 m1 = Inr (eaddrs, c2, m2)" and
    len: "length aaddrs = length argv" "length eaddrs = length envp" and
    bd: "\<forall>a\<in>set aaddrs \<union> set eaddrs. a \<le> U + S" and
    pos: "\<forall>i<length argv. aaddrs ! i = U + S - strings_size (take (Suc i) argv)" and out: "\<forall>a. a < c2 \<or> B + S \<le> a \<longrightarrow> m2 a = m a" and
    at: "\<And>m'. \<forall>a. c2 \<le> a \<and> a < B + S \<longrightarrow> m' a = m2 a \<Longrightarrow> strings_at B U aaddrs argv m' \<and> strings_at B U eaddrs envp m'"
    unfolding Let_def c2_def [symmetric] by blast
  have "c4 \<le> c3" "c3 \<le> c4 + 7" by (auto simp: c4_def)
  then have c: "8 * (n + 1) \<le> c4 - B" "c4 \<le> c3" "c3 + 16 = c2" "c2 \<le> B + S" "c4 mod 8 = 0" "B \<le> c4"
    using assms(6) by (auto simp: stack_need_def n_def c2_def c3_def c4_def)
  define m3 where "m3 = store_bytes c3 random_bytes m2"
  define vs where "vs = auxv_words info rnd @ [0] @ rev eaddrs @ [0] @ rev aaddrs @ [length argv]"
  have "length argv < 2 ^ 64" using assms(3,6) by (simp add: stack_need_def)
  moreover have "rnd < 2 ^ 64" using assms(4) c by (simp add: rnd_def)
  moreover have "\<forall>a\<in>set aaddrs \<union> set eaddrs. a < 2 ^ 64" using bd assms(4) by (meson le_less_trans)
  ultimately have vs: "\<forall>v\<in>set vs. v < 2 ^ 64" using assms(5) by (auto simp: vs_def dest: auxv_bound)
  have lvs: "length vs = n" by (simp add: vs_def n_def len)
  have "c4 \<le> B + S" using c by simp
  from push_initial_words [OF c(1) assms(3) this assms(1,2) c(5) lvs vs, of m3] obtain c5 m5 where
    p5: "push_words ((if (U + (c4 - 8 * n - B)) mod 16 \<noteq> 0 then [0] else []) @ vs) c4 m3 = Inr (c5, m5)" and
    c5: "B \<le> c5" "c5 + 8 * n \<le> c4" "(U + (c5 - B)) mod 16 = 0" and o5: "\<forall>a. a < c5 \<or> c4 \<le> a \<longrightarrow> m5 a = m3 a" and
    w: "\<forall>i<n. load_u64 (c5 + 8 * i) m5 = rev vs ! i"
    by (elim exE conjE) (rule that)
  have rv: "rev vs = initial_words info aaddrs eaddrs rnd" by (simp add: vs_def initial_words_def len)
  have b: "build_initial_stack B U S info argv envp m = Inr (U + (c5 - B), m5)"
    by (rule build_initial_stack_stages [OF assms(3,4) p1 p2 [folded c(3)] c4_def n_def _ _
          p5 [unfolded vs_def m3_def rnd_def] c5(1) _ c5(3)])
      (use c c5 in auto)
  have o3: "m3 a = m2 a" if "a < c3 \<or> c2 \<le> a" for a using that c(3) by (auto simp: m3_def store_bytes_outside)
  have "\<forall>a. a < B \<or> B + S \<le> a \<longrightarrow> m5 a = m a" using o5 o3 out c c5 by auto
  moreover have "strings_at B U aaddrs argv m5 \<and> strings_at B U eaddrs envp m5" using at [of m5] o5 o3 c by auto
  moreover have "load_bytes c3 16 m5 = load_bytes c3 16 m3" by (rule load_bytes_cong) (use o5 c in auto)
  then have "load_bytes c3 16 m5 = random_bytes" using load_store_bytes_same [of c3 random_bytes m2] by (simp add: m3_def)
  moreover have "u2k B U (U + (c5 - B)) = c5" "u2k B U rnd = c3" using c c5 by (auto simp: u2k_def rnd_def)
  moreover have "length (initial_words info aaddrs eaddrs rnd) = n" using lvs by (simp flip: rv)
  ultimately show ?thesis using b w [unfolded rv] c c5 n_def pos
    by (intro exI [of _ "U + (c5 - B)"] exI [of _ m5] exI [of _ aaddrs] exI [of _ eaddrs] exI [of _ rnd])
      (auto simp: rnd_def)
qed

text \<open>
  C39: when the strings, the random bytes and the words fit into the stack, the program starts with a stack it can
  read. The stack pointer is a multiple of 16 and inside the stack. From it upwards the program finds the number
  of arguments, the argument pointers and a null word, the environment pointers and a null word, and the auxiliary
  vector; every pointer leads to its string with the closing zero, and the random bytes are where the vector says.
  Nothing outside the stack is written.
\<close>

theorem initial_stack_layout:
  assumes "B mod 16 = 0" and "U mod 16 = 0" and "B + S < 2 ^ 64" and "U + S < 2 ^ 64" and "info_ok info"
    and "stack_need argv envp \<le> S"
  shows "\<exists>rsp m' aaddrs eaddrs rnd. build_initial_stack B U S info argv envp m = Inr (rsp, m')
    \<and> rsp mod 16 = 0 \<and> U \<le> rsp \<and> rsp < U + S \<and> (\<forall>a. a < B \<or> B + S \<le> a \<longrightarrow> m' a = m a)
    \<and> (\<forall>i<length (initial_words info aaddrs eaddrs rnd).
         load_u64 (u2k B U rsp + 8 * i) m' = initial_words info aaddrs eaddrs rnd ! i)
    \<and> strings_at B U aaddrs argv m' \<and> strings_at B U eaddrs envp m'
    \<and> U \<le> rnd \<and> load_bytes (u2k B U rnd) 16 m' = random_bytes"
  using initial_stack_built [OF assms, of m] by (elim exE conjE) (intro exI conjI; assumption)

theorem initial_stack_layout_witness:
  "\<exists>rsp m'. build_initial_stack 0x100000 ELF_STACK_VIRT ELF_STACK_SIZE
      \<lparr>elf_entry = 0x401000, segments = [], phdr_vaddr = 0x400040, phnum = 3, phentsize = 56\<rparr>
      [[0x6C, 0x73], [0x2F]] [[0x41, 0x3D, 0x31]] (\<lambda>_. 0) = Inr (rsp, m')
    \<and> rsp mod 16 = 0 \<and> ELF_STACK_VIRT \<le> rsp \<and> (\<forall>a. a < 0x100000 \<or> 0x108000 \<le> a \<longrightarrow> m' a = 0)"
proof -
  let ?info = "\<lparr>elf_entry = 0x401000, segments = [], phdr_vaddr = 0x400040, phnum = 3, phentsize = 56\<rparr>"
  have h: "(0x100000 :: nat) mod 16 = 0" "ELF_STACK_VIRT mod 16 = 0" "0x100000 + ELF_STACK_SIZE < 2 ^ 64"
    "ELF_STACK_VIRT + ELF_STACK_SIZE < 2 ^ 64" "info_ok ?info"
    "stack_need [[0x6C, 0x73], [0x2F]] [[0x41, 0x3D, 0x31]] \<le> ELF_STACK_SIZE"
    by (simp_all add: const_defs info_ok_def stack_need_def)
  have "0x100000 + ELF_STACK_SIZE = 0x108000" by (simp add: const_defs)
  with initial_stack_layout [OF h, of "\<lambda>_. 0"] show ?thesis by auto
qed

subsection \<open>Nothing checks that they fit\<close>

text \<open>The call sees the stack by its two tops only: the same call serves a stack that reaches further down.\<close>

lemma build_initial_stack_tops:
  "B' + S' = B + S \<Longrightarrow> U' + S' = U + S \<Longrightarrow> build_initial_stack B' U' S' = build_initial_stack B U S"
  unfolding build_initial_stack_def add_u64_def by simp

text \<open>
  C40: nothing compares what the strings need with the size of the stack. When the first arguments take more than the
  stack, the call still succeeds, and the bytes of the argument that passes the size are stored below the kernel
  address of the stack, over memory that belongs to others, with the contents the caller of execve chose.
\<close>

theorem exec_stack_overrun:
  assumes "B mod 16 = 0" and "U mod 16 = 0" and "B + S < 2 ^ 64" and "U + S < 2 ^ 64" and "info_ok info"
    and "stack_need argv envp \<le> S + 16 * d" and "16 * d \<le> B" and "16 * d \<le> U"
    and "i < length argv" and "S < strings_size (take (Suc i) argv)"
  shows "\<exists>rsp m' k. build_initial_stack B U S info argv envp m = Inr (rsp, m') \<and> k < B
    \<and> k = B + S - strings_size (take (Suc i) argv) \<and> load_bytes k (length (argv ! i) + 1) m' = argv ! i @ [0]"
proof -
  let ?B = "B - 16 * d" and ?U = "U - 16 * d" and ?S = "S + 16 * d"
  have h: "?B mod 16 = 0" "?U mod 16 = 0" "?B + ?S < 2 ^ 64" "?U + ?S < 2 ^ 64" using assms by presburger+
  have tops: "?B + ?S = B + S" "?U + ?S = U + S" using assms(7,8) by simp_all
  from initial_stack_built [OF h assms(5,6), of m] obtain rsp m' aaddrs where
    b: "build_initial_stack B U S info argv envp m = Inr (rsp, m')" and at: "strings_at ?B ?U aaddrs argv m'" and
    pos: "aaddrs ! i = ?U + ?S - strings_size (take (Suc i) argv)"
    unfolding build_initial_stack_tops [OF tops] using assms(9) by blast
  have size: "strings_size (take (Suc i) argv) \<le> ?S" using strings_size_take [of "Suc i" argv] assms(6) by (simp add: stack_need_def)
  from size have "u2k ?B ?U (aaddrs ! i) = B + S - strings_size (take (Suc i) argv)"
    using pos assms(7,8) by (simp add: u2k_def)
  then have "load_bytes (B + S - strings_size (take (Suc i) argv)) (length (argv ! i) + 1) m' = argv ! i @ [0]"
    using at assms(9) unfolding strings_at_def by metis
  moreover have "B + S - strings_size (take (Suc i) argv) < B" using assms(7,9,10) size by linarith
  ultimately show ?thesis using b by blast
qed

text \<open>Nine arguments of 4095 bytes are enough, and \<^verbatim>\<open>execve\<close> takes 256 of them.\<close>

theorem exec_stack_overrun_witness:
  "\<exists>rsp m' k. build_initial_stack 0x100000 ELF_STACK_VIRT ELF_STACK_SIZE
      \<lparr>elf_entry = 0x401000, segments = [], phdr_vaddr = 0x400040, phnum = 3, phentsize = 56\<rparr>
      (replicate 9 (replicate 4095 0x41)) [] (\<lambda>_. 0) = Inr (rsp, m') \<and> k < 0x100000
    \<and> load_bytes k 4096 m' = replicate 4095 0x41 @ [0]"
proof -
  let ?info = "\<lparr>elf_entry = 0x401000, segments = [], phdr_vaddr = 0x400040, phnum = 3, phentsize = 56\<rparr>"
  let ?argv = "replicate 9 (replicate 4095 (0x41 :: u8))"
  have h: "(0x100000 :: nat) mod 16 = 0" "ELF_STACK_VIRT mod 16 = 0" "0x100000 + ELF_STACK_SIZE < 2 ^ 64"
    "ELF_STACK_VIRT + ELF_STACK_SIZE < 2 ^ 64" "info_ok ?info"
    "stack_need ?argv [] \<le> ELF_STACK_SIZE + 16 * 1000" "16 * 1000 \<le> (0x100000 :: nat)" "16 * 1000 \<le> ELF_STACK_VIRT"
    "8 < length ?argv" "ELF_STACK_SIZE < strings_size (take (Suc 8) ?argv)"
    by (simp_all add: const_defs info_ok_def stack_need_def strings_size_def sum_list_replicate)
  have "?argv ! 8 = replicate 4095 0x41" by (rule nth_replicate) simp
  moreover have "length (replicate 4095 (0x41 :: u8)) + 1 = 4096" by simp
  ultimately show ?thesis using exec_stack_overrun [OF h, of "\<lambda>_. 0"] by metis
qed

end
