(* ===== verification/Spec2Isabelle.thy ===== *)
theory Spec2Isabelle
  imports Spsc_Ring Scheduler Completion_Port Channel Path Signal Vma Gap Notify Irq_Handle Pipe User_Mem Vfs_File Fd_Table Process Fd_Syscalls Signal_Delivery Frame_Allocator Memory_Services Mm_Syscalls Elf Ipc Io_Port P9_Client Initial_Stack
begin

text \<open>
  \<^bold>\<open>Verification of the ostoo kernel.\<close>

  ostoo is an operating system in Rust for x86-64. The crate \<^verbatim>\<open>libkernel\<close> holds the scheduler, memory management,
  processes and the kernel objects; \<^verbatim>\<open>osl\<close> holds the system calls; \<^verbatim>\<open>completion-port\<close> the rings and the port that
  user programs share with the kernel; \<^verbatim>\<open>devices\<close> the drivers. A user thread enters through a system call, which
  finds an object through the descriptor table of its process, and either completes or puts the thread to sleep and
  yields to the scheduler; completions of asynchronous operations are collected in a port.

  \<^bold>\<open>Conventions.\<close> An operation of the code is a function of the same name on the state it reads and writes. A panic
  is a value: \<open>'a res\<close> is \<open>panic + 'a\<close>, and additions, subtractions and multiplications of addresses and counts go
  through \<open>add_u64\<close>, \<open>sub_u64\<close>, \<open>mul_u64\<close>, because the kernel is built with overflow checks. Integers that wrap or
  that are used bitwise are words of their width. A reference-counted object is a number into a store. An operation
  that holds a lock is one function; an operation that yields is split at the yield, and what other threads do in
  between is a sequence of further operations (or a step relation, where the code has no lock). Code of other crates
  is an argument: the page-table mapper, the virtio device with the 9P server, UTF-8 validation, the answers of
  the file system.

  \<^bold>\<open>Foundations.\<close>
  \<^item> \<open>Prelude\<close>: panics, checked arithmetic, page constants (\<^verbatim>\<open>libkernel/src/consts.rs\<close>), list and word lemmas.
  \<^item> \<open>Byte_Memory\<close>: memory as bytes, little-endian loads and stores. \<open>BTree_Map\<close>: ordered maps as sorted lists.
  \<^item> \<open>Bounded_Fifo\<close>: the locale \<open>bounded_fifo\<close>, the contract of a bounded queue, with the run lemma proved once. It is
    interpreted by the shared ring, by the completion port and by the event buffers of an interrupt handle.
  \<^item> \<open>Kernel_Types\<close>: \<^verbatim>\<open>FdObject\<close>, the objects that descriptors name.

  \<^bold>\<open>Threads and time.\<close>
  \<^item> \<open>Stack_Arena\<close> (\<^verbatim>\<open>stack_arena.rs\<close>): live kernel stacks are disjoint.
  \<^item> \<open>Timer\<close> (\<^verbatim>\<open>task/timer.rs\<close>): a sleeping future is woken or ready, whatever interrupts come during its poll.
  \<^item> \<open>Scheduler\<close> (\<^verbatim>\<open>task/scheduler.rs\<close>, \<^verbatim>\<open>wait_condition.rs\<close>): creation, preemption, yielding, blocking, donation, exit. The
    invariant is that no runnable thread is lost; a context switch restores what the last switch away saved; without
    donation a ready thread runs after at most one quantum for each thread ahead of it. The locales \<open>pick_policy\<close> and
    \<open>disciplined_policy\<close> are the two ways to choose a thread. One lemma group shows the double entry of the ready queue.

  \<^bold>\<open>Communication.\<close>
  \<^item> \<open>Spsc_Ring\<close> (\<^verbatim>\<open>completion-port/src/ring.rs\<close>, \<^verbatim>\<open>types.rs\<close>): the ring on memory, its refinement of a queue, and a step
    relation of producer and consumer at the granularity of single loads and stores: every interleaving delivers
    in order. Indices wrap at 32 bits.
  \<^item> \<open>Completion_Port\<close> (\<^verbatim>\<open>port.rs\<close>, \<^verbatim>\<open>libkernel/src/completion_port.rs\<close>); the locale \<open>waker\<close> is what a port needs of the
    scheduler. \<open>Notify\<close> (\<^verbatim>\<open>notify.rs\<close>) refines a machine of three states. \<open>Irq_Handle\<close> (\<^verbatim>\<open>irq_handle.rs\<close>): scancodes in
    order, mouse packets. \<open>Console\<close> (\<^verbatim>\<open>console.rs\<close>).
  \<^item> \<open>Channel\<close> (\<^verbatim>\<open>channel.rs\<close>): messages are delivered in order and none is lost or made up; waiting threads are woken.
    A rendezvous channel with two senders loses a message.
  \<^item> \<open>Pipe\<close> (\<^verbatim>\<open>file.rs\<close>): a pipe is a stream of bytes.

  \<^bold>\<open>Processes and files.\<close>
  \<^item> \<open>Path\<close> (\<^verbatim>\<open>path.rs\<close>), \<open>User_Mem\<close> (\<^verbatim>\<open>osl/src/user_mem.rs\<close>, \<^verbatim>\<open>errno.rs\<close>), \<open>Vfs_File\<close> (\<^verbatim>\<open>osl/src/file.rs\<close>).
  \<^item> \<open>Fd_Table\<close> (\<^verbatim>\<open>file.rs\<close>, \<^verbatim>\<open>process.rs\<close>): the store of objects and the descriptor tables; reference counts are exact.
  \<^item> \<open>Process\<close> (\<^verbatim>\<open>process.rs\<close>, \<^verbatim>\<open>syscalls/process.rs\<close>): exit, wait and zombies; the exit of a child reaches its parent.
  \<^item> \<open>Signal\<close>, \<open>Signal_Delivery\<close> (\<^verbatim>\<open>signal.rs\<close>, \<^verbatim>\<open>syscall.rs\<close>, \<^verbatim>\<open>osl/src/signal.rs\<close>): pending sets, frames on the user stack,
    and that returning from a handler restores the interrupted context.
  \<^item> \<open>Fd_Syscalls\<close> (\<^verbatim>\<open>syscalls/fs.rs\<close>, \<^verbatim>\<open>io.rs\<close>, \<^verbatim>\<open>notify.rs\<close>, \<^verbatim>\<open>shmem.rs\<close>, \<^verbatim>\<open>service.rs\<close>), \<open>Ipc\<close> (\<^verbatim>\<open>osl/src/ipc.rs\<close>: descriptors
    travel with messages and name the same objects in the receiver), \<open>Io_Port\<close> (\<^verbatim>\<open>osl/src/io_port.rs\<close>: every submission
    is answered, completions arrive unchanged in user memory).

  \<^bold>\<open>Memory and programs.\<close>
  \<^item> \<open>Frame_Allocator\<close>, \<open>Memory_Services\<close> (\<^verbatim>\<open>memory/frame_allocator.rs\<close>, \<^verbatim>\<open>memory/mod.rs\<close>): frames are never handed out
    twice; an address space gives back all its frames.
  \<^item> \<open>Vma\<close>, \<open>Gap\<close>, \<open>Mm_Syscalls\<close> (\<^verbatim>\<open>process.rs\<close>, \<^verbatim>\<open>gap.rs\<close>, \<^verbatim>\<open>syscalls/mem.rs\<close>): unmapping and protecting change exactly the
    range; the gap found is the highest. The locale \<open>ascending_ranges\<close> is the trait that the gap finder is written for.
  \<^item> \<open>Elf\<close> (\<^verbatim>\<open>elf.rs\<close>, \<^verbatim>\<open>elf_loader.rs\<close>): a loaded page is the image of its segment. \<open>Initial_Stack\<close> (\<^verbatim>\<open>spawn.rs\<close>): the program
    finds its arguments, environment and auxiliary vector; nothing checks that they fit.
  \<^item> \<open>P9_Proto\<close>, \<open>P9_Client\<close> (\<^verbatim>\<open>devices/src/virtio/p9_proto.rs\<close>, \<^verbatim>\<open>p9.rs\<close>): against a server that keeps the protocol a file
    is read completely.

  \<^bold>\<open>Bounds.\<close> The loops over the free list and over the replies of the 9P server may run for ever and are defined with
  \<^theory_text>\<open>partial_function (option)\<close>; that they return is proved (for the free list from the invariant of the allocator, for
  the client from the progress of the server). The pointer array of \<^verbatim>\<open>execve\<close> is read with fuel 257, because the code
  gives up after 256 entries. The reader of directory records, which is specification only, takes the length of its
  buffer as fuel: every record is longer than one byte. All other loops are structural or have a termination proof.

  \<^bold>\<open>Not modelled.\<close> The jump to user space, assembly stubs, device registers (APIC, PCI, PS/2, VGA, serial) and the boot
  sequence, which are I/O; the executor of kernel futures, the mount table, exFAT and the driver actors, whose results
  are arguments of the system calls; \<^verbatim>\<open>execve\<close> and \<^verbatim>\<open>spawn_process_full\<close> as compositions of modelled parts; the kernel
  shell and the user programs. Memory is sequentially consistent; the ring's acquire and release accesses are the
  steps of its relation.
\<close>

end
